(* ===== verification/TT_Prelude.thy ===== *)
theory TT_Prelude
  imports Complex_Main "HOL-Library.Word" "HOL-Library.Multiset"
begin

text \<open>
  Shared vocabulary of the development: the names of the machine types the C++ sources use,
  the two comparison-driven selections of the standard library (\<open>std::min\<close>, \<open>std::max\<close>, whose
  answers on unordered arguments matter for floating point), and generic facts on lists, maps
  and words that several components use.
\<close>

type_synonym u64 = "64 word"
type_synonym order_id = u64

text \<open>
  \<open>std::chrono::system_clock::time_point\<close> counts nanoseconds since the epoch; the arithmetic
  the engine does on it stays far from the ends of its 64-bit range, so an unbounded integer
  is used.
\<close>

type_synonym time_point = int

text \<open>\<open>std::min(a, b)\<close> is \<open>b < a ? b : a\<close> and \<open>std::max(a, b)\<close> is \<open>a < b ? b : a\<close>.\<close>

definition std_min :: "'a::ord \<Rightarrow> 'a \<Rightarrow> 'a" where
  "std_min a b = (if b < a then b else a)"

definition std_max :: "'a::ord \<Rightarrow> 'a \<Rightarrow> 'a" where
  "std_max a b = (if a < b then b else a)"

text \<open>\<open>std::vector::erase\<close> of the first element that satisfies a predicate.\<close>

fun erase_first :: "('a \<Rightarrow> bool) \<Rightarrow> 'a list \<Rightarrow> 'a list" where
  "erase_first p [] = []"
| "erase_first p (x # xs) = (if p x then xs else x # erase_first p xs)"

text \<open>Rewriting of the first element that satisfies a predicate, as a \<open>break\<close>ing loop does.\<close>

fun update_first :: "('a \<Rightarrow> bool) \<Rightarrow> ('a \<Rightarrow> 'a) \<Rightarrow> 'a list \<Rightarrow> 'a list" where
  "update_first p f [] = []"
| "update_first p f (x # xs) = (if p x then f x # xs else x # update_first p f xs)"

named_theorems tt_frame \<open>operations leave the fields they do not own unchanged\<close>
named_theorems tt_inv \<open>operations keep the invariant of their component\<close>

subsection \<open>Selections\<close>

lemma std_min_linorder [simp]: "std_min a (b::'a::linorder) = min a b"
  by (auto simp: std_min_def min_def)

lemma std_max_linorder [simp]: "std_max a (b::'a::linorder) = max a b"
  by (auto simp: std_max_def max_def)

subsection \<open>Lists\<close>

lemma erase_first_notin: "\<forall>x\<in>set xs. \<not> p x \<Longrightarrow> erase_first p xs = xs"
  by (induction xs) auto

lemma set_erase_first: "set (erase_first p xs) \<subseteq> set xs"
  by (induction xs) auto

lemma update_first_notin: "\<forall>x\<in>set xs. \<not> p x \<Longrightarrow> update_first p f xs = xs"
  by (induction xs) auto

lemma length_update_first [simp]: "length (update_first p f xs) = length xs"
  by (induction xs) auto

lemma map_update_first_same: "(\<And>x. g (f x) = g x) \<Longrightarrow> map g (update_first p f xs) = map g xs"
  by (induction xs) auto

lemma update_first_split:
  assumes "x \<in> set xs" "p x"
  obtains ys y zs where "xs = ys @ y # zs" "p y" "\<forall>z\<in>set ys. \<not> p z"
    "update_first p f xs = ys @ f y # zs" "erase_first p xs = ys @ zs"
proof -
  from assms have "\<exists>x\<in>set xs. p x" by blast
  then obtain ys y zs where s: "xs = ys @ y # zs" "p y" "\<forall>z\<in>set ys. \<not> p z"
    by (metis split_list_first_prop)
  have "update_first p f (ys @ y # zs) = ys @ f y # zs" "erase_first p (ys @ y # zs) = ys @ zs"
    using s(2,3) by (induction ys) auto
  with s that show thesis by simp
qed

lemma remove1_split: "x \<notin> set ys \<Longrightarrow> remove1 x (ys @ x # zs) = ys @ zs"
  by (simp add: remove1_append)

lemma sum_list_remove1:
  "x \<in> set xs \<Longrightarrow> (\<Sum>y\<leftarrow>remove1 x xs. f y) = (\<Sum>y\<leftarrow>xs. f y) - (f x :: 'b::ab_group_add)"
  by (induction xs) auto

lemma sum_list_map_cong: "(\<And>x. x \<in> set xs \<Longrightarrow> f x = g x) \<Longrightarrow> (\<Sum>x\<leftarrow>xs. f x) = (\<Sum>x\<leftarrow>xs. g x)"
  by (metis map_cong)

subsection \<open>Words\<close>

lemma word_diff_add_cancel: "(a::'a::len word) - b + b = a"
  by simp

lemma unat_sub_le: "(b::'a::len word) \<le> a \<Longrightarrow> unat (a - b) = unat a - unat b"
  by (simp add: unat_sub)

end
