(* ===== verification/Binary64.thy ===== *)
theory Binary64
  imports TT_Prelude "HOL-Library.Log_Nat"
begin

text \<open>
  The C++ \<open>double\<close>: IEEE 754 binary64 with round-to-nearest-even, executable on rationals.
  A value is a rational, an infinity or a NaN; every arithmetic operation computes the exact
  rational result and rounds it once (\<open>rnd\<close>), overflowing to an infinity. Comparisons are those of
  the hardware: false whenever a NaN is involved. The type classes of the arithmetic operators
  are instantiated, so that the models of the other theories read like the source: \<open>a + b\<close>,
  \<open>a < b\<close>, \<open>a / b\<close> on \<open>double\<close> are the rounded operations and the hardware comparisons.

  One deviation: the two zeros are identified. They differ only in the sign of \<open>x / 0\<close>, in
  \<open>signbit\<close> and in printing; no modelled function divides by a zero it has not excluded.

  The lemmas show what the components rely on: rounding is monotone, odd, idempotent, exact on
  numbers of 53 significant bits, within half a unit in the last place of the exact result; sums,
  products and quotients keep signs; comparisons are a linear order once NaN is excluded.
\<close>

datatype double = Fin (val: rat) | PInf | NInf | NaN

subsection \<open>Rounding\<close>

text \<open>\<open>ilog2 x\<close> is \<open>floor (log 2 x)\<close> for positive \<open>x\<close>.\<close>

definition ilog2 :: "rat \<Rightarrow> int" where
  "ilog2 x = (case quotient_of x of (p, q) \<Rightarrow>
     let k = bitlen p - bitlen q in if 2 powi k \<le> x then k else k - 1)"

text \<open>Round to the nearest integer, ties to even.\<close>

definition rne :: "rat \<Rightarrow> int" where
  "rne x = (let f = \<lfloor>x\<rfloor>; d = x - of_int f in
     if d < 1/2 then f else if d > 1/2 then f + 1 else if even f then f else f + 1)"

text \<open>The exponent of the unit in the last place of \<open>x\<close>, at least that of the subnormals.\<close>

definition qexp :: "rat \<Rightarrow> int" where
  "qexp x = (if x = 0 then -1074 else max (ilog2 \<bar>x\<bar> - 52) (-1074))"

definition rndv :: "rat \<Rightarrow> rat" where
  "rndv x = of_int (rne (x / 2 powi qexp x)) * 2 powi qexp x"

definition two1024 :: rat where "two1024 = 2 powi 1024"

definition rnd :: "rat \<Rightarrow> double" where
  "rnd x = (let e = qexp x; m = rne (x / 2 powi e) in
     if e > 971 \<or> e = 971 \<and> \<bar>m\<bar> \<ge> 2 ^ 53 then (if x > 0 then PInf else NInf)
     else Fin (of_int m * 2 powi e))"

text \<open>A decimal literal of the source.\<close>

abbreviation lit :: "rat \<Rightarrow> double" where "lit \<equiv> rnd"

subsection \<open>Operations\<close>

fun fneg :: "double \<Rightarrow> double" where
  "fneg (Fin a) = Fin (- a)"
| "fneg PInf = NInf"
| "fneg NInf = PInf"
| "fneg NaN = NaN"

fun fabs :: "double \<Rightarrow> double" where
  "fabs (Fin a) = Fin \<bar>a\<bar>"
| "fabs PInf = PInf"
| "fabs NInf = PInf"
| "fabs NaN = NaN"

fun fadd :: "double \<Rightarrow> double \<Rightarrow> double" where
  "fadd (Fin a) (Fin b) = rnd (a + b)"
| "fadd NaN _ = NaN"
| "fadd _ NaN = NaN"
| "fadd PInf NInf = NaN"
| "fadd NInf PInf = NaN"
| "fadd PInf _ = PInf"
| "fadd _ PInf = PInf"
| "fadd NInf _ = NInf"
| "fadd _ NInf = NInf"

fun fmul :: "double \<Rightarrow> double \<Rightarrow> double" where
  "fmul (Fin a) (Fin b) = rnd (a * b)"
| "fmul NaN _ = NaN"
| "fmul _ NaN = NaN"
| "fmul (Fin a) PInf = (if a = 0 then NaN else if a > 0 then PInf else NInf)"
| "fmul (Fin a) NInf = (if a = 0 then NaN else if a > 0 then NInf else PInf)"
| "fmul PInf (Fin b) = (if b = 0 then NaN else if b > 0 then PInf else NInf)"
| "fmul NInf (Fin b) = (if b = 0 then NaN else if b > 0 then NInf else PInf)"
| "fmul PInf PInf = PInf"
| "fmul PInf NInf = NInf"
| "fmul NInf PInf = NInf"
| "fmul NInf NInf = PInf"

fun fdiv :: "double \<Rightarrow> double \<Rightarrow> double" where
  "fdiv (Fin a) (Fin b) =
     (if b = 0 then (if a = 0 then NaN else if a > 0 then PInf else NInf) else rnd (a / b))"
| "fdiv NaN _ = NaN"
| "fdiv _ NaN = NaN"
| "fdiv (Fin a) _ = Fin 0"
| "fdiv PInf (Fin b) = (if b < 0 then NInf else PInf)"
| "fdiv NInf (Fin b) = (if b < 0 then PInf else NInf)"
| "fdiv _ _ = NaN"

fun flt :: "double \<Rightarrow> double \<Rightarrow> bool" where
  "flt (Fin a) (Fin b) = (a < b)"
| "flt NaN _ = False"
| "flt _ NaN = False"
| "flt NInf NInf = False"
| "flt NInf _ = True"
| "flt (Fin a) PInf = True"
| "flt _ _ = False"

fun fle :: "double \<Rightarrow> double \<Rightarrow> bool" where
  "fle (Fin a) (Fin b) = (a \<le> b)"
| "fle NaN _ = False"
| "fle _ NaN = False"
| "fle NInf _ = True"
| "fle _ PInf = True"
| "fle _ _ = False"

text \<open>\<open>operator==\<close> of \<open>double\<close>: a NaN equals nothing.\<close>

definition feq :: "double \<Rightarrow> double \<Rightarrow> bool" where
  "feq a b \<longleftrightarrow> a \<noteq> NaN \<and> a = b"

instantiation double :: "{zero, one, plus, minus, uminus, times, inverse, ord, abs}"
begin
definition zero_double :: double where "0 = Fin 0"
definition one_double :: double where "1 = Fin 1"
definition plus_double :: "double \<Rightarrow> double \<Rightarrow> double" where "a + b = fadd a b"
definition uminus_double :: "double \<Rightarrow> double" where "- a = fneg a"
definition minus_double :: "double \<Rightarrow> double \<Rightarrow> double" where "a - b = fadd a (fneg b)"
definition times_double :: "double \<Rightarrow> double \<Rightarrow> double" where "a * b = fmul a b"
definition divide_double :: "double \<Rightarrow> double \<Rightarrow> double" where "a div b = fdiv a b"
definition inverse_double :: "double \<Rightarrow> double" where "inverse a = fdiv (Fin 1) a"
definition less_double :: "double \<Rightarrow> double \<Rightarrow> bool" where "a < b \<longleftrightarrow> flt a b"
definition less_eq_double :: "double \<Rightarrow> double \<Rightarrow> bool" where "a \<le> b \<longleftrightarrow> fle a b"
definition abs_double :: "double \<Rightarrow> double" where "\<bar>a\<bar> = fabs a"
instance ..
end

definition isfinite :: "double \<Rightarrow> bool" where
  "isfinite a = (case a of Fin _ \<Rightarrow> True | _ \<Rightarrow> False)"

text \<open>The values a \<open>double\<close> variable can hold: rationals on the binary64 grid.\<close>

definition ieee :: "double \<Rightarrow> bool" where
  "ieee a = (case a of Fin q \<Rightarrow> rnd q = Fin q | _ \<Rightarrow> True)"

text \<open>Conversions from the integer types.\<close>

definition double_of_u64 :: "u64 \<Rightarrow> double" where
  "double_of_u64 w = rnd (of_nat (unat w))"

definition double_of_i64 :: "int \<Rightarrow> double" where
  "double_of_i64 i = rnd (of_int i)"

text \<open>\<open>std::floor\<close> and \<open>std::round\<close> (ties away from zero).\<close>

definition round_away :: "rat \<Rightarrow> int" where
  "round_away q = (if q \<ge> 0 then \<lfloor>q + 1/2\<rfloor> else - \<lfloor>- q + 1/2\<rfloor>)"

fun ffloor :: "double \<Rightarrow> double" where
  "ffloor (Fin a) = rnd (of_int \<lfloor>a\<rfloor>)"
| "ffloor a = a"

fun fround :: "double \<Rightarrow> double" where
  "fround (Fin a) = rnd (of_int (round_away a))"
| "fround a = a"

text \<open>
  \<open>std::llround\<close> and the cast of a \<open>double\<close> to \<open>uint64_t\<close>. Outside the range of the target type C++
  leaves the result unspecified, so the model has no result there.
\<close>

definition llround :: "double \<Rightarrow> int option" where
  "llround a = (case a of Fin q \<Rightarrow>
       (let n = round_away q in if - (2 ^ 63) \<le> n \<and> n < 2 ^ 63 then Some n else None)
     | _ \<Rightarrow> None)"

definition u64_of_double :: "double \<Rightarrow> u64 option" where
  "u64_of_double a = (case a of Fin q \<Rightarrow>
       (let n = (if q \<ge> 0 then \<lfloor>q\<rfloor> else \<lceil>q\<rceil>) in
        if 0 \<le> n \<and> n < 2 ^ 64 then Some (word_of_int n) else None)
     | _ \<Rightarrow> None)"

subsection \<open>Powers of two\<close>

lemma bitlen_powi:
  assumes "0 < (p::int)"
  shows "2 powi (bitlen p - 1) \<le> (of_int p :: rat)" "(of_int p :: rat) < 2 powi (bitlen p)"
proof -
  have b: "bitlen p \<ge> 1"
    using assms bitlen_eq_zero_iff [of p] bitlen_nonneg [of p] by linarith
  have bb: "2 ^ nat (bitlen p - 1) \<le> p \<and> p < 2 ^ nat (bitlen p)"
    using bitlen_bounds [OF assms] .
  then have "(of_int (2 ^ nat (bitlen p - 1)) :: rat) \<le> of_int p" "(of_int p :: rat) < of_int (2 ^ nat (bitlen p))"
    by (simp_all only: of_int_le_iff of_int_less_iff)
  then show "2 powi (bitlen p - 1) \<le> (of_int p :: rat)" "(of_int p :: rat) < 2 powi (bitlen p)"
    using b by (simp_all add: power_int_def)
qed

lemma powi_pos [simp]: "(0::rat) < 2 powi k"
  by (simp add: zero_less_power_int)

lemma powi_mono: "k \<le> l \<Longrightarrow> (2::rat) powi k \<le> 2 powi l"
  by (rule power_int_increasing) simp_all

lemma powi_less_iff [simp]: "(2::rat) powi k < 2 powi l \<longleftrightarrow> k < l"
  using power_int_strict_increasing [of k l "2::rat"] powi_mono [of l k]
  by (meson linorder_not_less order_less_le_trans order_less_irrefl one_less_numeral_iff semiring_norm(76))

lemma powi_le_iff [simp]: "(2::rat) powi k \<le> 2 powi l \<longleftrightarrow> k \<le> l"
  by (simp flip: linorder_not_less)

lemma powi_int: "0 \<le> k \<Longrightarrow> (2::rat) powi k = of_int (2 ^ nat k)"
  by (simp add: power_int_def)

lemma powi_shift: "k \<le> e \<Longrightarrow> of_int (2 ^ nat (e - k)) * 2 powi k = (2::rat) powi e"
proof -
  assume "k \<le> e"
  then have "of_int (2 ^ nat (e - k)) * 2 powi k = (2::rat) powi (e - k) * 2 powi k"
    by (simp only: powi_int diff_ge_0_iff_ge)
  also have "\<dots> = 2 powi (e - k + k)" by (rule power_int_add [symmetric]) simp
  finally show ?thesis by simp
qed

lemma ilog2_bounds:
  assumes "0 < x"
  shows "2 powi ilog2 x \<le> x" "x < 2 powi (ilog2 x + 1)"
proof -
  obtain p q where pq: "quotient_of x = (p, q)" by fastforce
  from pq have q: "0 < q" by (rule quotient_of_denom_pos)
  from pq have x: "x = of_int p / of_int q" by (rule quotient_of_div)
  with assms q have p: "0 < p" by (simp add: zero_less_divide_iff)
  let ?k = "bitlen p - bitlen q"
  have lo: "2 powi (bitlen p - 1) \<le> (of_int p :: rat)" and hi: "(of_int p :: rat) < 2 powi (bitlen p)"
    using bitlen_powi [OF p] by auto
  have lo': "2 powi (bitlen q - 1) \<le> (of_int q :: rat)" and hi': "(of_int q :: rat) < 2 powi (bitlen q)"
    using bitlen_powi [OF q] by auto
  have "x < 2 powi (bitlen p) / 2 powi (bitlen q - 1)"
    unfolding x by (rule frac_less) (use hi lo' p q in auto)
  then have up: "x < 2 powi (?k + 1)"
    by (simp add: power_int_diff power_int_add)
  have "2 powi (bitlen p - 1) / 2 powi (bitlen q) \<le> x"
    unfolding x by (rule frac_le) (use lo hi' p q in auto)
  then have low: "2 powi (?k - 1) \<le> x"
    by (simp add: power_int_diff power_int_add)
  show "2 powi ilog2 x \<le> x" "x < 2 powi (ilog2 x + 1)"
    using up low by (auto simp: ilog2_def pq Let_def)
qed

lemma ilog2_ge: "0 < x \<Longrightarrow> 2 powi k \<le> x \<Longrightarrow> k \<le> ilog2 x"
proof (rule ccontr)
  assume a: "0 < x" "2 powi k \<le> x" "\<not> k \<le> ilog2 x"
  then have "ilog2 x + 1 \<le> k" by simp
  then have "2 powi (ilog2 x + 1) \<le> (2 powi k :: rat)" by (rule powi_mono)
  with a ilog2_bounds(2) [of x] show False by simp
qed

lemma ilog2_less: "0 < x \<Longrightarrow> x < 2 powi k \<Longrightarrow> ilog2 x < k"
  using ilog2_bounds(1) [of x] powi_less_iff [of "ilog2 x" k] by (metis order_le_less_trans)

lemma ilog2_eq: "2 powi k \<le> x \<Longrightarrow> x < 2 powi (k + 1) \<Longrightarrow> ilog2 x = k"
  using ilog2_ge [of x k] ilog2_less [of x "k + 1"] powi_pos [of k] by force

lemma ilog2_mono: "0 < x \<Longrightarrow> x \<le> y \<Longrightarrow> ilog2 x \<le> ilog2 y"
  using ilog2_ge [of y "ilog2 x"] ilog2_bounds(1) [of x] by linarith

subsection \<open>Rounding to an integer\<close>

lemma rne_of_int [simp]: "rne (of_int n) = n"
  by (simp add: rne_def)

lemma rne_zero [simp]: "rne 0 = 0"
  using rne_of_int [of 0] by simp

lemma rne_error: "\<bar>of_int (rne x) - x\<bar> \<le> 1/2"
  using floor_correct [of x] by (auto simp: rne_def Let_def)

lemma rne_mono: assumes "x \<le> y" shows "rne x \<le> rne y"
proof (cases "\<lfloor>x\<rfloor> = \<lfloor>y\<rfloor>")
  case True
  with assms show ?thesis by (auto simp: rne_def Let_def)
next
  case False
  with floor_mono [OF assms] have "\<lfloor>x\<rfloor> + 1 \<le> \<lfloor>y\<rfloor>" by linarith
  moreover have "rne x \<le> \<lfloor>x\<rfloor> + 1" "\<lfloor>y\<rfloor> \<le> rne y"
    by (auto simp: rne_def Let_def)
  ultimately show ?thesis by linarith
qed

lemma rne_minus: "rne (- x) = - rne x"
proof (cases "x = of_int \<lfloor>x\<rfloor>")
  case True
  then have "rne x = \<lfloor>x\<rfloor>" "rne (- x) = - \<lfloor>x\<rfloor>"
    by (metis rne_of_int, metis of_int_minus rne_of_int)
  then show ?thesis by simp
next
  case False
  then have f: "\<lfloor>- x\<rfloor> = - \<lfloor>x\<rfloor> - 1"
    using floor_correct [of x] by (intro floor_unique) (auto simp: less_le)
  show ?thesis unfolding rne_def Let_def f by auto
qed

subsection \<open>Rounding to the grid\<close>

lemma rndv_zero [simp]: "rndv 0 = 0"
  by (simp add: rndv_def)

lemma qexp_minus [simp]: "qexp (- x) = qexp x"
  by (simp add: qexp_def)

lemma qexp_min: "- 1074 \<le> qexp x"
  by (simp add: qexp_def)

lemma rndv_minus: "rndv (- x) = - rndv x"
  by (simp add: rndv_def rne_minus)

lemma of_int_rne_le: "x \<le> of_int n \<Longrightarrow> rne x \<le> n"
  using rne_mono [of x "of_int n"] by simp

lemma of_int_rne_ge: "of_int n \<le> x \<Longrightarrow> n \<le> rne x"
  using rne_mono [of "of_int n" x] by simp

lemma rndv_le_pow:
  assumes x: "0 < x" "x \<le> 2 powi k" and k: "- 1074 \<le> k"
  shows "rndv x \<le> 2 powi k"
proof -
  have "2 powi ilog2 x \<le> (2 powi k :: rat)" using ilog2_bounds(1) [OF x(1)] x(2) by linarith
  with x(1) k have e: "qexp x \<le> k" by (simp add: qexp_def)
  have "x / 2 powi qexp x \<le> 2 powi (k - qexp x)"
    using x by (simp add: power_int_diff divide_right_mono)
  with e have "rne (x / 2 powi qexp x) \<le> 2 ^ nat (k - qexp x)"
    by (intro of_int_rne_le) (simp add: powi_int)
  then have "(of_int (rne (x / 2 powi qexp x)) :: rat) \<le> 2 powi (k - qexp x)"
    using e by (metis diff_ge_0_iff_ge of_int_le_iff powi_int)
  then have "rndv x \<le> 2 powi (k - qexp x) * 2 powi qexp x"
    unfolding rndv_def by (intro mult_right_mono) simp_all
  then show ?thesis by (simp add: power_int_diff)
qed

lemma rndv_ge_pow:
  assumes x: "2 powi k \<le> x" and k: "- 1074 \<le> k"
  shows "2 powi k \<le> rndv x"
proof -
  have x0: "0 < x" using x powi_pos [of k] by linarith
  define j where "j = max k (qexp x)"
  have j: "qexp x \<le> j" "k \<le> j" by (auto simp: j_def)
  have "qexp x \<le> ilog2 x \<or> qexp x = - 1074" using x0 by (auto simp: qexp_def)
  then have "2 powi j \<le> x"
    using x k ilog2_bounds(1) [OF x0] by (auto simp: j_def max_def intro: order_trans [OF powi_mono])
  then have "2 powi (j - qexp x) \<le> x / 2 powi qexp x"
    by (simp add: power_int_diff divide_right_mono)
  then have "2 ^ nat (j - qexp x) \<le> rne (x / 2 powi qexp x)"
    using j by (intro of_int_rne_ge) (simp add: powi_int)
  then have "2 powi (j - qexp x) \<le> (of_int (rne (x / 2 powi qexp x)) :: rat)"
    using j by (metis diff_ge_0_iff_ge of_int_le_iff powi_int)
  then have "2 powi (j - qexp x) * 2 powi qexp x \<le> rndv x"
    unfolding rndv_def by (intro mult_right_mono) simp_all
  then have "2 powi j \<le> rndv x" by (simp add: power_int_diff)
  with powi_mono [OF j(2)] show ?thesis by linarith
qed

lemma rndv_nonneg: "0 \<le> x \<Longrightarrow> 0 \<le> rndv x"
  using of_int_rne_ge [of 0 "x / 2 powi qexp x"] by (simp add: rndv_def)

lemma rndv_mono_pos:
  assumes "0 < x" "x \<le> y"
  shows "rndv x \<le> rndv y"
proof (cases "qexp x = qexp y")
  case True
  have "rne (x / 2 powi qexp y) \<le> rne (y / 2 powi qexp y)"
    using assms by (intro rne_mono divide_right_mono) simp_all
  with True show ?thesis by (simp add: rndv_def mult_right_mono)
next
  case False
  from assms have y: "0 < y" by linarith
  from assms ilog2_mono [OF assms] False
  have lt: "ilog2 x < ilog2 y" and ey: "- 1022 \<le> ilog2 y"
    by (auto simp: qexp_def split: if_splits)
  have "x < 2 powi (ilog2 x + 1)" using ilog2_bounds(2) [OF assms(1)] .
  also have "\<dots> \<le> 2 powi ilog2 y" using lt by simp
  finally have "rndv x \<le> 2 powi ilog2 y" using ey assms by (intro rndv_le_pow) simp_all
  also have "\<dots> \<le> rndv y" using ey ilog2_bounds(1) [OF y] by (intro rndv_ge_pow) simp_all
  finally show ?thesis .
qed

lemma rndv_mono: assumes "x \<le> y" shows "rndv x \<le> rndv y"
proof -
  consider "0 < x" | "x \<le> 0" "0 \<le> y" | "y < 0" by linarith
  then show ?thesis
  proof cases
    case 1 with assms show ?thesis by (intro rndv_mono_pos)
  next
    case 2
    then have "0 \<le> rndv (- x)" "0 \<le> rndv y" by (simp_all add: rndv_nonneg)
    then show ?thesis by (simp add: rndv_minus)
  next
    case 3
    with assms have "rndv (- y) \<le> rndv (- x)" by (intro rndv_mono_pos) simp_all
    then show ?thesis by (simp add: rndv_minus)
  qed
qed

lemma rndv_on_grid: "x = of_int n * 2 powi qexp x \<Longrightarrow> rndv x = x"
proof -
  assume a: "x = of_int n * 2 powi qexp x"
  then have "x / 2 powi qexp x = of_int n"
    by (metis nonzero_mult_div_cancel_right order_less_irrefl powi_pos)
  then have "rndv x = of_int n * 2 powi qexp x" by (simp add: rndv_def)
  with a show ?thesis by simp
qed

lemma rndv_exact_pos:
  assumes m: "0 < m" "m \<le> 2 ^ 53" and e: "- 1074 \<le> e"
  shows "rndv (of_int m * 2 powi e) = of_int m * 2 powi e" (is "rndv ?y = ?y")
proof -
  have y: "0 < ?y" using m by simp
  have "(of_int m :: rat) \<le> of_int (2 ^ 53)" using m(2) by (simp only: of_int_le_iff)
  then have m': "(of_int m :: rat) \<le> 2 powi 53" by simp
  show ?thesis
  proof (cases "m = 2 ^ 53")
    case True
    then have y2: "?y = 2 powi (53 + e)" by (simp add: power_int_add)
    then have "ilog2 ?y = 53 + e" by (simp add: ilog2_eq)
    with y e m have "qexp ?y = e + 1" by (simp add: qexp_def del: zero_less_mult_iff)
    moreover have "?y = of_int (2 ^ 52) * 2 powi (e + 1)" unfolding True by (simp add: power_int_add)
    ultimately show ?thesis by (metis rndv_on_grid)
  next
    case False
    with m have "m < 2 ^ 53" by simp
    then have "(of_int m :: rat) < of_int (2 ^ 53)" by (simp only: of_int_less_iff)
    then have "(of_int m :: rat) < 2 powi 53" by simp
    then have "?y < 2 powi 53 * 2 powi e" by (rule mult_strict_right_mono) simp
    then have "?y < 2 powi (53 + e)" by (simp add: power_int_add)
    then have "ilog2 ?y < 53 + e" using y by (intro ilog2_less)
    with y e have q: "qexp ?y \<le> e" by (simp add: qexp_def)
    from q have "(of_int (2 ^ nat (e - qexp ?y)) :: rat) * 2 powi qexp ?y = 2 powi e"
      by (rule powi_shift)
    then have "?y = of_int (m * 2 ^ nat (e - qexp ?y)) * 2 powi qexp ?y"
      by (simp only: of_int_mult mult.assoc)
    then show ?thesis by (rule rndv_on_grid)
  qed
qed

lemma rndv_exact:
  assumes m: "\<bar>m\<bar> \<le> 2 ^ 53" and e: "- 1074 \<le> e"
  shows "rndv (of_int m * 2 powi e) = of_int m * 2 powi e"
proof -
  consider "0 < m" | "m = 0" | "0 < - m" by linarith
  then show ?thesis
  proof cases
    case 1 with m e show ?thesis by (intro rndv_exact_pos) simp_all
  next
    case 2 then show ?thesis by simp
  next
    case 3
    with m e have "rndv (of_int (- m) * 2 powi e) = of_int (- m) * 2 powi e"
      by (intro rndv_exact_pos) simp_all
    then show ?thesis by (simp add: rndv_minus)
  qed
qed

lemma mantissa_bound: "\<bar>rne (x / 2 powi qexp x)\<bar> \<le> 2 ^ 53"
proof -
  have *: "rne (z / 2 powi qexp z) \<le> 2 ^ 53 \<and> 0 \<le> rne (z / 2 powi qexp z)" if z: "0 < z" for z
  proof -
    have "z < 2 powi (ilog2 z + 1)" using ilog2_bounds(2) [OF z] .
    also have "\<dots> \<le> 2 powi (53 + qexp z)" using z by (simp add: qexp_def)
    finally have "z / 2 powi qexp z \<le> 2 powi 53" by (simp add: power_int_add divide_le_eq)
    then show ?thesis
      using z of_int_rne_le [of "z / 2 powi qexp z" "2 ^ 53"] of_int_rne_ge [of 0 "z / 2 powi qexp z"] by simp
  qed
  consider "0 < x" | "x = 0" | "0 < - x" by linarith
  then show ?thesis
  proof cases
    case 1 with * [of x] show ?thesis by simp
  next
    case 2 then show ?thesis by simp
  next
    case 3 with * [of "- x"] show ?thesis by (simp add: rne_minus)
  qed
qed

lemma rndv_idem [simp]: "rndv (rndv x) = rndv x"
  using rndv_exact [OF mantissa_bound qexp_min] by (simp add: rndv_def [of x])

lemma rndv_int: "\<bar>n\<bar> \<le> 2 ^ 53 \<Longrightarrow> rndv (of_int n) = of_int n"
  using rndv_exact [of n 0] by simp

text \<open>The relative error of one rounding: half a unit in the last place.\<close>

lemma rndv_error: "\<bar>rndv x - x\<bar> \<le> 2 powi (qexp x - 1)"
proof -
  have "rndv x - x = (of_int (rne (x / 2 powi qexp x)) - x / 2 powi qexp x) * 2 powi qexp x"
    by (simp add: rndv_def algebra_simps)
  then have "\<bar>rndv x - x\<bar> = \<bar>of_int (rne (x / 2 powi qexp x)) - x / 2 powi qexp x\<bar> * 2 powi qexp x"
    by (simp add: abs_mult)
  also have "\<dots> \<le> 1/2 * 2 powi qexp x" by (intro mult_right_mono rne_error) simp
  finally show ?thesis by (simp add: power_int_diff)
qed

lemma two1024_pos: "0 < two1024"
  by (simp only: two1024_def powi_pos)

lemma two53: "(2::rat) powi 53 = of_int (2 ^ 53)"
  by (simp add: powi_int)

lemma two1024_split: "two1024 = 2 powi 53 * 2 powi 971"
proof -
  have "(2::rat) powi (53 + 971) = 2 powi 53 * 2 powi 971" by (rule power_int_add) simp
  then show ?thesis by (simp only: two1024_def) simp
qed

lemma abs_rndv: "\<bar>rndv x\<bar> = rndv \<bar>x\<bar>"
proof (cases "0 \<le> x")
  case True then show ?thesis by (simp add: rndv_nonneg)
next
  case False
  then have "0 \<le> rndv (- x)" by (simp add: rndv_nonneg)
  with False show ?thesis by (simp add: rndv_minus)
qed

lemma rndv_ge_two1024: "971 < qexp x \<Longrightarrow> two1024 \<le> \<bar>rndv x\<bar>"
proof -
  assume q: "971 < qexp x"
  then have x: "0 < \<bar>x\<bar>" and l: "1024 \<le> ilog2 \<bar>x\<bar>" by (auto simp: qexp_def split: if_splits)
  from l have "two1024 \<le> 2 powi ilog2 \<bar>x\<bar>" unfolding two1024_def by (rule powi_mono)
  also have "\<dots> \<le> \<bar>x\<bar>" by (rule ilog2_bounds(1) [OF x])
  finally have "2 powi 1024 \<le> \<bar>x\<bar>" by (simp only: two1024_def)
  then have "2 powi 1024 \<le> rndv \<bar>x\<bar>" by (rule rndv_ge_pow) simp
  then show ?thesis by (simp only: two1024_def abs_rndv)
qed

lemma rnd_finite_iff:
  "971 < qexp x \<or> qexp x = 971 \<and> 2 ^ 53 \<le> \<bar>rne (x / 2 powi qexp x)\<bar> \<longleftrightarrow> two1024 \<le> \<bar>rndv x\<bar>"
proof -
  let ?m = "\<bar>rne (x / 2 powi qexp x)\<bar>"
  have r: "\<bar>rndv x\<bar> = of_int ?m * 2 powi qexp x" by (simp add: rndv_def abs_mult)
  have mb: "(of_int ?m :: rat) \<le> 2 powi 53"
    unfolding two53 by (simp only: of_int_le_iff mantissa_bound)
  consider "971 < qexp x" | "qexp x = 971" | "qexp x \<le> 970" by linarith
  then show ?thesis
  proof cases
    case 1 then show ?thesis using rndv_ge_two1024 by blast
  next
    case 2
    have "two1024 \<le> \<bar>rndv x\<bar> \<longleftrightarrow> 2 powi 53 \<le> (of_int ?m :: rat)"
      unfolding r 2 two1024_split using mult_le_cancel_right_pos [OF powi_pos] by blast
    also have "\<dots> \<longleftrightarrow> 2 ^ 53 \<le> ?m" unfolding two53 by (simp only: of_int_le_iff)
    finally show ?thesis using 2 by simp
  next
    case 3
    have "of_int ?m * 2 powi qexp x \<le> 2 powi 53 * (2 powi qexp x :: rat)"
      using mb by (intro mult_right_mono) simp_all
    also have "\<dots> < 2 powi 53 * 2 powi 971"
      using 3 by (intro mult_strict_left_mono) (simp_all only: powi_less_iff powi_pos)
    finally show ?thesis using 3 unfolding r two1024_split by simp
  qed
qed

subsection \<open>The contract of a rounding mode\<close>

text \<open>
  What the components need of rounding is monotonicity, symmetry and idempotence, the properties
  IEEE 754 demands of round-to-nearest; the consequences are proved once from these laws.
\<close>

locale rounding =
  fixes r :: "rat \<Rightarrow> rat"
  assumes r_mono: "x \<le> y \<Longrightarrow> r x \<le> r y"
    and r_minus: "r (- x) = - r x"
    and r_idem: "r (r x) = r x"
begin

lemma r_zero: "r 0 = 0"
  using r_minus [of 0] by simp

lemma r_nonneg: "0 \<le> x \<Longrightarrow> 0 \<le> r x"
  using r_mono [of 0 x] by (simp add: r_zero)

lemma r_nonpos: "x \<le> 0 \<Longrightarrow> r x \<le> 0"
  using r_mono [of x 0] by (simp add: r_zero)

lemma r_le_fixed: "r a = a \<Longrightarrow> x \<le> a \<Longrightarrow> r x \<le> a"
  using r_mono [of x a] by simp

lemma r_ge_fixed: "r a = a \<Longrightarrow> a \<le> x \<Longrightarrow> a \<le> r x"
  using r_mono [of a x] by simp

lemma r_between_fixed: "r a = a \<Longrightarrow> r b = b \<Longrightarrow> a \<le> x \<Longrightarrow> x \<le> b \<Longrightarrow> a \<le> r x \<and> r x \<le> b"
  by (simp add: r_le_fixed r_ge_fixed)

lemma r_le_grid: "r x \<le> r a \<longleftrightarrow> r x \<le> a \<or> r x = r a"
  using r_le_fixed [of "r x"] r_mono [of "r x" a] r_idem by (metis linorder_linear order_antisym)

end

interpretation rn: rounding rndv
  by unfold_locales (simp_all add: rndv_mono rndv_minus)

subsection \<open>Rounding into \<open>double\<close>\<close>

lemma rnd_cases:
  "rnd x = (if two1024 \<le> rndv x then PInf else if rndv x \<le> - two1024 then NInf else Fin (rndv x))"
proof -
  have sign: "0 < x \<Longrightarrow> 0 \<le> rndv x" "\<not> 0 < x \<Longrightarrow> rndv x \<le> 0"
    by (simp_all add: rn.r_nonneg rn.r_nonpos)
  have "rnd x = (if two1024 \<le> \<bar>rndv x\<bar> then if 0 < x then PInf else NInf else Fin (rndv x))"
    unfolding rnd_def Let_def rnd_finite_iff by (simp add: rndv_def)
  with sign two1024_pos show ?thesis by (auto simp: abs_if split: if_splits)
qed

lemma rnd_Fin_iff: "rnd x = Fin y \<longleftrightarrow> \<bar>rndv x\<bar> < two1024 \<and> y = rndv x"
  by (auto simp: rnd_cases abs_if split: if_splits)

lemma rnd_not_NaN [simp]: "rnd x \<noteq> NaN"
  by (simp add: rnd_cases)

lemma rnd_zero [simp]: "rnd 0 = 0"
  using two1024_pos by (simp add: rnd_cases zero_double_def)

lemma rnd_int: "\<bar>n\<bar> \<le> 2 ^ 53 \<Longrightarrow> rnd (of_int n) = Fin (of_int n)"
proof -
  assume n: "\<bar>n\<bar> \<le> 2 ^ 53"
  have "\<bar>rat_of_int n\<bar> \<le> 2 powi 53" using n unfolding two53 by (simp only: of_int_abs [symmetric] of_int_le_iff)
  also have "\<dots> < two1024" unfolding two1024_def by (simp only: powi_less_iff)
  finally show ?thesis using n by (simp add: rnd_Fin_iff rndv_int)
qed

lemma rnd_numeral [simp]: "(numeral k :: int) \<le> 2 ^ 53 \<Longrightarrow> rnd (numeral k) = Fin (numeral k)"
  using rnd_int [of "numeral k"] by simp

lemma rnd_one [simp]: "rnd 1 = 1"
  using rnd_int [of 1] by (simp add: one_double_def)

lemma rnd_minus: "rnd (- x) = - rnd x"
  using two1024_pos by (auto simp: rnd_cases rndv_minus uminus_double_def)

subsection \<open>Comparisons\<close>

lemmas double_defs = zero_double_def one_double_def plus_double_def uminus_double_def minus_double_def
  times_double_def divide_double_def less_double_def less_eq_double_def abs_double_def

lemma dless_Fin [simp]: "Fin a < Fin b \<longleftrightarrow> a < b"
  by (simp add: double_defs)

lemma dle_Fin [simp]: "Fin a \<le> Fin b \<longleftrightarrow> a \<le> b"
  by (simp add: double_defs)

lemma dle_trans: "(a::double) \<le> b \<Longrightarrow> b \<le> c \<Longrightarrow> a \<le> c"
  by (cases a; cases b; cases c) (simp_all add: double_defs)

lemma dless_le_trans: "(a::double) < b \<Longrightarrow> b \<le> c \<Longrightarrow> a < c"
  by (cases a; cases b; cases c) (simp_all add: double_defs)

lemma dle_less_trans: "(a::double) \<le> b \<Longrightarrow> b < c \<Longrightarrow> a < c"
  by (cases a; cases b; cases c) (simp_all add: double_defs)

lemma dless_imp_le: "(a::double) < b \<Longrightarrow> a \<le> b"
  by (cases a; cases b) (simp_all add: double_defs)

lemma dless_irrefl [simp]: "\<not> (a::double) < a"
  by (cases a) (simp_all add: double_defs)

lemma dle_refl: "a \<noteq> NaN \<Longrightarrow> (a::double) \<le> a"
  by (cases a) (simp_all add: double_defs)

lemma dnot_less: "a \<noteq> NaN \<Longrightarrow> b \<noteq> NaN \<Longrightarrow> \<not> (a::double) < b \<longleftrightarrow> b \<le> a"
  by (cases a; cases b) (auto simp: double_defs)

lemma dnot_le: "a \<noteq> NaN \<Longrightarrow> b \<noteq> NaN \<Longrightarrow> \<not> (a::double) \<le> b \<longleftrightarrow> b < a"
  by (cases a; cases b) (auto simp: double_defs)

lemma dless_NaN [simp]: "\<not> NaN < (a::double)" "\<not> (a::double) < NaN" "\<not> NaN \<le> a" "\<not> a \<le> NaN"
  by (cases a; simp add: double_defs)+

lemma dle_antisym: "(a::double) \<le> b \<Longrightarrow> b \<le> a \<Longrightarrow> a = b"
  by (cases a; cases b) (simp_all add: double_defs)

lemma rnd_mono: "x \<le> y \<Longrightarrow> rnd x \<le> rnd y"
  using rndv_mono [of x y] two1024_pos by (auto simp: rnd_cases double_defs)

subsection \<open>Signs and bounds of the operations\<close>

lemma rnd_nonneg: "0 \<le> x \<Longrightarrow> 0 \<le> rnd x"
  using rnd_mono [of 0 x] by simp

lemma rnd_nonpos: "x \<le> 0 \<Longrightarrow> rnd x \<le> 0"
  using rnd_mono [of x 0] by simp

lemma rnd_le_fixed: "rnd a = Fin a \<Longrightarrow> x \<le> a \<Longrightarrow> rnd x \<le> Fin a"
  using rnd_mono [of x a] by simp

lemma rnd_ge_fixed: "rnd a = Fin a \<Longrightarrow> a \<le> x \<Longrightarrow> Fin a \<le> rnd x"
  using rnd_mono [of a x] by simp

lemma rnd_ieee: "ieee (rnd x)"
  by (auto simp: ieee_def rnd_cases split: double.split)

lemma ieee_Fin: "ieee (Fin q) \<longleftrightarrow> rnd q = Fin q"
  by (simp add: ieee_def)

lemma ieee_simps [simp]: "ieee 0" "ieee 1" "ieee PInf" "ieee NInf" "ieee NaN"
  using rnd_ieee [of 0] rnd_ieee [of 1] by (simp_all) (simp_all add: ieee_def)

lemma ieee_add [simp]: "ieee a \<Longrightarrow> ieee b \<Longrightarrow> ieee (a + b)"
  by (cases a; cases b) (simp_all add: double_defs rnd_ieee)

lemma ieee_minus [simp]: "ieee a \<Longrightarrow> ieee (- a)"
  by (cases a) (simp_all add: double_defs ieee_Fin rnd_minus)

lemma ieee_diff [simp]: "ieee a \<Longrightarrow> ieee b \<Longrightarrow> ieee (a - b)"
  by (cases a; cases b) (simp_all add: double_defs rnd_ieee)

lemma ieee_mult [simp]: "ieee a \<Longrightarrow> ieee b \<Longrightarrow> ieee (a * b)"
  by (cases a; cases b) (simp_all add: double_defs rnd_ieee)

lemma ieee_divide [simp]: "ieee a \<Longrightarrow> ieee b \<Longrightarrow> ieee (a / b)"
  by (cases a; cases b) (simp_all add: double_defs rnd_ieee, simp_all flip: zero_double_def)

lemma isfinite_iff: "isfinite a \<longleftrightarrow> (\<exists>q. a = Fin q)"
  by (cases a) (simp_all add: isfinite_def)

lemma isfinite_simps [simp]: "isfinite (Fin q)" "\<not> isfinite PInf" "\<not> isfinite NInf" "\<not> isfinite NaN"
    "isfinite 0" "isfinite 1"
  by (simp_all add: isfinite_def double_defs)

lemma dadd_nonneg: "0 \<le> a \<Longrightarrow> 0 \<le> b \<Longrightarrow> 0 \<le> a + (b::double)"
  by (cases a; cases b) (simp_all add: double_defs rnd_nonneg [unfolded double_defs])

lemma dmul_nonneg: "0 \<le> a \<Longrightarrow> 0 \<le> b \<Longrightarrow> isfinite a \<Longrightarrow> isfinite b \<Longrightarrow> 0 \<le> a * (b::double)"
  by (cases a; cases b) (simp_all add: double_defs rnd_nonneg [unfolded double_defs])

lemma ddiv_nonneg: "0 \<le> a \<Longrightarrow> 0 < b \<Longrightarrow> isfinite a \<Longrightarrow> 0 \<le> a / (b::double)"
  by (cases a; cases b) (simp_all add: double_defs rnd_nonneg [unfolded double_defs])

lemma dsub_nonneg: "b \<le> a \<Longrightarrow> isfinite b \<Longrightarrow> 0 \<le> a - (b::double)"
  by (cases a; cases b) (simp_all add: double_defs rnd_nonneg [unfolded double_defs])

lemma dsub_nonpos: "a \<le> b \<Longrightarrow> isfinite b \<Longrightarrow> a - (b::double) \<le> 0"
  by (cases a; cases b) (simp_all add: double_defs rnd_nonpos [unfolded double_defs])

lemma dsub_le: "0 \<le> b \<Longrightarrow> ieee a \<Longrightarrow> isfinite a \<Longrightarrow> a - b \<le> (a::double)"
  by (cases a; cases b) (simp_all add: double_defs ieee_Fin rnd_le_fixed [unfolded double_defs])

lemma dadd_ge: "0 \<le> b \<Longrightarrow> ieee a \<Longrightarrow> isfinite a \<Longrightarrow> a \<le> a + (b::double)"
  by (cases a; cases b) (simp_all add: double_defs ieee_Fin rnd_ge_fixed [unfolded double_defs])

lemma dsub_zero [simp]: "ieee a \<Longrightarrow> a - 0 = (a::double)"
  by (cases a) (simp_all add: double_defs ieee_Fin)

lemma dadd_zero [simp]: "ieee a \<Longrightarrow> a + 0 = (a::double)" "ieee a \<Longrightarrow> 0 + a = (a::double)"
  by (cases a; simp add: double_defs ieee_Fin)+

lemma dsub_self [simp]: "isfinite a \<Longrightarrow> a - a = (0::double)"
  by (cases a) (simp_all add: double_defs rnd_zero [unfolded double_defs])

lemma dsub_uminus: "a - b = a + - (b::double)"
  by (cases a; cases b) (simp_all add: double_defs)

lemma dadd_neg [simp]: "isfinite a \<Longrightarrow> a + - a = (0::double)"
  by (simp flip: dsub_uminus)

lemma dadd_commute: "a + b = b + (a::double)"
  by (cases a; cases b) (simp_all add: double_defs add.commute)

lemma dneg_neg [simp]: "- (- a) = (a::double)"
  by (cases a) (simp_all add: double_defs)

lemma dneg_add: "- (a + b) = - a + - (b::double)"
  by (cases a; cases b) (simp_all add: double_defs rnd_minus [unfolded double_defs, symmetric])

lemma dneg_finite [simp]: "isfinite (- a) = isfinite (a::double)"
  by (cases a) (simp_all add: double_defs)

lemma dless_neg: "- a < b \<longleftrightarrow> - b < (a::double)"
  by (cases a; cases b) (auto simp add: double_defs)

lemma dmul_one [simp]: "ieee a \<Longrightarrow> a * 1 = (a::double)"
  by (cases a) (simp_all add: double_defs ieee_Fin)

lemma dadd_mono:
  "a \<le> b \<Longrightarrow> c \<le> d \<Longrightarrow> isfinite a \<Longrightarrow> isfinite b \<Longrightarrow> isfinite c \<Longrightarrow> isfinite d \<Longrightarrow> a + c \<le> b + (d::double)"
  by (cases a; cases b; cases c; cases d)
    (simp_all add: plus_double_def less_eq_double_def [symmetric] rnd_mono)

lemma dabs_nonneg: "a \<noteq> NaN \<Longrightarrow> 0 \<le> \<bar>a::double\<bar>"
  by (cases a) (simp_all add: double_defs)

lemma dabs_finite [simp]: "isfinite \<bar>a::double\<bar> \<longleftrightarrow> isfinite a"
  by (cases a) (simp_all add: double_defs)

lemma std_min_le_double:
  "a \<noteq> NaN \<Longrightarrow> b \<noteq> NaN \<Longrightarrow> std_min a b \<le> (a::double) \<and> std_min a b \<le> b"
  by (cases a; cases b) (simp_all add: std_min_def double_defs)

lemma std_max_ge_double:
  "a \<noteq> NaN \<Longrightarrow> b \<noteq> NaN \<Longrightarrow> (a::double) \<le> std_max a b \<and> b \<le> std_max a b"
  by (cases a; cases b) (simp_all add: std_max_def double_defs)

subsection \<open>Finite operands\<close>

lemma dops_Fin:
  "Fin a + Fin b = rnd (a + b)" "Fin a - Fin b = rnd (a - b)" "Fin a * Fin b = rnd (a * b)"
  "- Fin a = Fin (- a)" "\<bar>Fin a\<bar> = Fin \<bar>a\<bar>" "b \<noteq> 0 \<Longrightarrow> Fin a / Fin b = rnd (a / b)"
  by (simp_all add: double_defs)

lemma isfinite_consts [simp]: "isfinite 0" "isfinite 1"
  by (simp_all add: zero_double_def one_double_def)

lemma dmul_ge:
  assumes "0 < a" "ieee a" "isfinite a" "1 \<le> b"
  shows "a \<le> a * (b::double)"
proof -
  obtain x where x: "a = Fin x" using assms(3) by (auto simp: isfinite_iff)
  with assms have p: "0 < x" "rnd x = Fin x" by (simp_all add: zero_double_def ieee_Fin)
  show ?thesis
  proof (cases b)
    case (Fin y)
    with assms(4) have "1 \<le> y" by (simp add: one_double_def)
    with p have "x \<le> x * y" by (simp add: mult_le_cancel_left1)
    with rnd_ge_fixed [OF p(2)] show ?thesis using x Fin by (simp add: dops_Fin)
  qed (use assms(4) x p in \<open>simp_all add: double_defs\<close>)
qed

lemma dmul_le:
  assumes "0 < a" "ieee a" "isfinite a" "b \<le> 1"
  shows "a * (b::double) \<le> a"
proof -
  obtain x where x: "a = Fin x" using assms(3) by (auto simp: isfinite_iff)
  with assms have p: "0 < x" "rnd x = Fin x" by (simp_all add: zero_double_def ieee_Fin)
  show ?thesis
  proof (cases b)
    case (Fin y)
    with assms(4) have "y \<le> 1" by (simp add: one_double_def)
    with p have "x * y \<le> x" by (simp add: mult_le_cancel_left2)
    with rnd_le_fixed [OF p(2)] show ?thesis using x Fin by (simp add: dops_Fin)
  qed (use assms(4) x p in \<open>simp_all add: double_defs\<close>)
qed

lemma dmin_le: "a \<noteq> NaN \<Longrightarrow> b \<noteq> NaN \<Longrightarrow> std_min a b \<le> a \<and> std_min a b \<le> (b::double)"
  by (cases a; cases b; auto simp: std_min_def double_defs)

lemma abs_mul_not_NaN: "0 < Fin p \<Longrightarrow> \<bar>rnd a\<bar> * Fin p \<noteq> NaN"
  by (cases "rnd a") (simp_all add: double_defs)

subsection \<open>The tolerance \<open>1e-12\<close>\<close>

definition eps12 :: double where "eps12 = lit (1 / 10 ^ 12)"

lemma eps12_bounds: "0 < eps12" "eps12 < Fin (1 / 1000)"
  by code_simp+

lemma eps12_Fin: "\<exists>e. eps12 = Fin e \<and> 0 < e \<and> e < 1 / 1000"
proof (cases eps12)
  case (Fin e)
  have "0 < Fin e" "Fin e < Fin (1 / 1000)" using eps12_bounds unfolding Fin by blast+
  then have "0 < e" "e < 1 / 1000" by (simp_all add: zero_double_def)
  with Fin show ?thesis by blast
qed (use eps12_bounds in \<open>simp_all add: double_defs\<close>)

lemma eps12_less [simp]: "1 / 1000 \<le> q \<Longrightarrow> eps12 < Fin q" "q \<le> 0 \<Longrightarrow> Fin q < eps12"
  "1 / 1000 \<le> q \<Longrightarrow> \<not> Fin q < eps12" "1 / 1000 \<le> q \<Longrightarrow> \<not> Fin q \<le> eps12" "q \<le> 0 \<Longrightarrow> \<not> eps12 < Fin q"
  "q \<le> 0 \<Longrightarrow> Fin q \<le> eps12"
proof -
  obtain e where e: "eps12 = Fin e" "0 < e" "e < 1 / 1000" using eps12_Fin by blast
  show "1 / 1000 \<le> q \<Longrightarrow> eps12 < Fin q" "q \<le> 0 \<Longrightarrow> Fin q < eps12"
    "1 / 1000 \<le> q \<Longrightarrow> \<not> Fin q < eps12" "1 / 1000 \<le> q \<Longrightarrow> \<not> Fin q \<le> eps12" "q \<le> 0 \<Longrightarrow> \<not> eps12 < Fin q"
    "q \<le> 0 \<Longrightarrow> Fin q \<le> eps12"
    unfolding e(1) dless_Fin dle_Fin using e(2,3) by linarith+
qed

lemma eps12_ieee [simp]: "ieee eps12" "isfinite eps12" "eps12 \<noteq> NaN"
proof -
  show "ieee eps12" unfolding eps12_def by (rule rnd_ieee)
  obtain e where e: "eps12 = Fin e" using eps12_Fin by blast
  show "isfinite eps12" "eps12 \<noteq> NaN" unfolding e by simp_all
qed

subsection \<open>Integral values are exact\<close>

definition dint :: "int \<Rightarrow> double" where "dint k = Fin (of_int k)"

lemma dint_ops:
  "\<bar>a + b\<bar> \<le> 2 ^ 53 \<Longrightarrow> dint a + dint b = dint (a + b)"
  "\<bar>a - b\<bar> \<le> 2 ^ 53 \<Longrightarrow> dint a - dint b = dint (a - b)"
  "\<bar>a * b\<bar> \<le> 2 ^ 53 \<Longrightarrow> dint a * dint b = dint (a * b)"
  using rnd_int [of "a + b"] rnd_int [of "a - b"] rnd_int [of "a * b"] by (simp_all add: dops_Fin dint_def)

lemma dint_simps [simp]:
  "- dint a = dint (- a)" "\<bar>dint a\<bar> = dint \<bar>a\<bar>" "dint a < dint b \<longleftrightarrow> a < b" "dint a \<le> dint b \<longleftrightarrow> a \<le> b"
  "dint a = dint b \<longleftrightarrow> a = b" "dint a \<noteq> NaN" "isfinite (dint a)" "dint 0 = 0" "dint 1 = 1"
  by (simp_all add: dint_def dops_Fin zero_double_def one_double_def)

lemma dint_zero: "dint a < 0 \<longleftrightarrow> a < 0" "0 < dint a \<longleftrightarrow> 0 < a" "dint a \<le> 0 \<longleftrightarrow> a \<le> 0" "0 \<le> dint a \<longleftrightarrow> 0 \<le> a" "dint a = 0 \<longleftrightarrow> a = 0"
  by (simp_all add: dint_def zero_double_def)

lemma dint_div_self: "n \<noteq> 0 \<Longrightarrow> dint n / dint n = 1"
  by (simp add: dops_Fin dint_def)

lemma dint_min_max: "std_min (dint a) (dint b) = dint (min a b)" "std_max (dint a) (dint b) = dint (max a b)"
  by (auto simp: std_min_def std_max_def min_def max_def)

lemma dint_eps: "dint k < eps12 \<longleftrightarrow> k \<le> 0" "eps12 < dint k \<longleftrightarrow> 1 \<le> k"
proof -
  have "(1::rat) / 1000 \<le> of_int k" if "1 \<le> k"
  proof -
    have "(1::rat) \<le> of_int k" using that by simp
    then show ?thesis by linarith
  qed
  then show "dint k < eps12 \<longleftrightarrow> k \<le> 0" "eps12 < dint k \<longleftrightarrow> 1 \<le> k"
    by (cases "1 \<le> k"; simp add: dint_def)+
qed

lemma dint_ieee: "\<bar>k\<bar> \<le> 2 ^ 53 \<Longrightarrow> ieee (dint k)"
  using rnd_int [of k] by (simp add: dint_def ieee_Fin)

lemma Fin_numeral: "Fin (numeral k) = dint (numeral k)"
  by (simp add: dint_def)

end
