(* ===== verification/Book_Types.thy ===== *)
theory Book_Types
  imports Binary64
begin

text \<open>
  The value types of the order book (\<open>src/types/price.h\<close>, \<open>src/types/order_id.h\<close> and the classes at
  the head of \<open>src/orderbook/orderbook.h\<close>): fixed-point prices, orders with their remaining quantity,
  modification requests, trades and the order-id generator.

  A \<open>Price\<close> is the raw \<open>int64_t\<close> count of 1/10000; the book only compares prices, and signed overflow
  of \<open>+\<close> and \<open>-\<close> is undefined in C++, so the raw count is an unbounded integer here. A quantity is a
  \<open>uint64_t\<close> and wraps.
\<close>

type_synonym price = int
type_synonym quantity = u64

datatype ob_order_type = Good_Till_Cancel | Fill_Or_Kill | Immediate_Or_Cancel
datatype side = Side_Buy | Side_Sell

subsection \<open>Price\<close>

definition SCALE :: int where "SCALE = 10000"

definition price_from_double :: "double \<Rightarrow> price option" where
  "price_from_double d = llround (d * double_of_i64 SCALE)"

definition price_to_double :: "price \<Rightarrow> double" where
  "price_to_double p = double_of_i64 p / double_of_i64 SCALE"

subsection \<open>OrderIdGenerator\<close>

text \<open>The process-wide counter is passed explicitly: \<open>next\<close> is \<open>fetch_add(1)\<close>.\<close>

definition order_id_next :: "u64 \<Rightarrow> order_id \<times> u64" where
  "order_id_next c = (c, c + 1)"

definition order_id_reset :: "u64 \<Rightarrow> u64" where
  "order_id_reset start = start"

subsection \<open>Orders\<close>

record order =
  ord_type :: ob_order_type
  ord_id :: order_id
  ord_side :: side
  ord_price :: price
  initial_quantity :: quantity
  remaining_quantity :: quantity

definition mk_order :: "ob_order_type \<Rightarrow> order_id \<Rightarrow> side \<Rightarrow> price \<Rightarrow> quantity \<Rightarrow> order" where
  "mk_order t i s p q = \<lparr>ord_type = t, ord_id = i, ord_side = s, ord_price = p,
     initial_quantity = q, remaining_quantity = q\<rparr>"

datatype book_error = Logic_Error order_id

definition order_fill :: "quantity \<Rightarrow> order \<Rightarrow> book_error + order" where
  "order_fill q ord =
     (if q > remaining_quantity ord then Inl (Logic_Error (ord_id ord))
      else Inr (ord\<lparr>remaining_quantity := remaining_quantity ord - q\<rparr>))"

definition get_filled_quantity :: "order \<Rightarrow> quantity" where
  "get_filled_quantity ord = initial_quantity ord - remaining_quantity ord"

definition is_filled :: "order \<Rightarrow> bool" where
  "is_filled ord \<longleftrightarrow> remaining_quantity ord = 0"

record order_modify =
  om_order_id :: order_id
  om_price :: price
  om_side :: side
  om_quantity :: quantity

definition to_order :: "ob_order_type \<Rightarrow> order_modify \<Rightarrow> order" where
  "to_order t m = mk_order t (om_order_id m) (om_side m) (om_price m) (om_quantity m)"

subsection \<open>Trades and level summaries\<close>

record trade_info =
  ti_order_id :: order_id
  ti_price :: price
  ti_quantity :: quantity

record trade =
  bid_trade :: trade_info
  ask_trade :: trade_info

record lvl_info =
  li_price :: price
  li_quantity :: quantity

record orderbook_lvl_infos =
  infos_bids :: "lvl_info list"
  infos_asks :: "lvl_info list"

subsection \<open>Facts\<close>

lemma order_fill_ok:
  "q \<le> remaining_quantity ord \<Longrightarrow>
   order_fill q ord = Inr (ord\<lparr>remaining_quantity := remaining_quantity ord - q\<rparr>)"
  by (simp add: order_fill_def)

lemma order_fill_Inr:
  "order_fill q ord = Inr ord' \<longleftrightarrow>
   q \<le> remaining_quantity ord \<and> ord' = ord\<lparr>remaining_quantity := remaining_quantity ord - q\<rparr>"
  by (auto simp: order_fill_def)

lemma mk_order_simps [simp]:
  "ord_type (mk_order t i s p q) = t" "ord_id (mk_order t i s p q) = i"
  "ord_side (mk_order t i s p q) = s" "ord_price (mk_order t i s p q) = p"
  "initial_quantity (mk_order t i s p q) = q" "remaining_quantity (mk_order t i s p q) = q"
  by (simp_all add: mk_order_def)

text \<open>A fill moves quantity from remaining to filled and never overfills.\<close>

lemma order_fill_filled:
  "order_fill q ord = Inr ord' \<Longrightarrow> get_filled_quantity ord' = get_filled_quantity ord + q"
  by (auto simp: order_fill_Inr get_filled_quantity_def)

subsection \<open>Price conversion round trip\<close>

lemma qexp_bound: "x \<noteq> 0 \<Longrightarrow> \<bar>x\<bar> < 2 powi k \<Longrightarrow> - 1021 \<le> k \<Longrightarrow> qexp x \<le> k - 53"
  using ilog2_less [of "\<bar>x\<bar>" k] by (simp add: qexp_def)

lemma rndv_error_bound:
  assumes "\<bar>x\<bar> < 2 powi k" "- 1021 \<le> k"
  shows "\<bar>rndv x - x\<bar> \<le> 2 powi (k - 54)"
proof (cases "x = 0")
  case False
  then have "qexp x - 1 \<le> k - 54" using qexp_bound [OF False assms] by simp
  then have "(2::rat) powi (qexp x - 1) \<le> 2 powi (k - 54)" by (rule powi_mono)
  with rndv_error [of x] show ?thesis by linarith
qed simp

lemma round_away_near: "\<bar>q - of_int n\<bar> < 1/2 \<Longrightarrow> round_away q = n"
proof -
  assume a: "\<bar>q - of_int n\<bar> < 1/2"
  have "\<lfloor>q + 1/2\<rfloor> = n" "\<lfloor>- q + 1/2\<rfloor> = - n"
    using a by (intro floor_unique; simp add: abs_if split: if_splits)+
  then show ?thesis by (simp add: round_away_def)
qed

lemma rnd_moderate: "\<bar>x\<bar> < 2 powi 60 \<Longrightarrow> rnd x = Fin (rndv x)"
proof -
  assume x: "\<bar>x\<bar> < 2 powi 60"
  have "\<bar>rndv x\<bar> = rndv \<bar>x\<bar>" by (rule abs_rndv)
  also have "\<dots> \<le> 2 powi 60"
    using x rndv_le_pow [of "\<bar>x\<bar>" 60] by (cases "x = 0") simp_all
  also have "\<dots> < two1024" unfolding two1024_def by (simp only: powi_less_iff)
  finally show ?thesis by (simp add: rnd_Fin_iff)
qed

lemma price_roundtrip_aux:
  assumes p: "\<bar>p\<bar> \<le> 2 ^ 50"
  shows "price_to_double p = Fin (rndv (of_int p / 10000))"
    and "\<bar>rndv (of_int p / 10000) * 10000 - of_int p\<bar> \<le> 5/32"
proof -
  let ?x = "rat_of_int p / 10000"
  have p': "\<bar>rat_of_int p\<bar> \<le> 2 ^ 50"
    using p by (metis of_int_abs of_int_le_iff of_int_numeral of_int_power)
  then have x: "\<bar>?x\<bar> < 2 powi 37" by (simp add: abs_divide)
  have "double_of_i64 p = Fin (of_int p)" "double_of_i64 SCALE = Fin 10000"
    using p by (simp_all add: double_of_i64_def rnd_int SCALE_def)
  moreover have "\<bar>?x\<bar> < 2 powi 60" using x by simp
  ultimately show "price_to_double p = Fin (rndv ?x)"
    by (simp add: price_to_double_def divide_double_def rnd_moderate)
  have "\<bar>rndv ?x - ?x\<bar> \<le> 2 powi (37 - 54)" using x by (intro rndv_error_bound) simp_all
  then have "\<bar>rndv ?x - ?x\<bar> \<le> 1 / 2 ^ 17" by (simp add: power_int_def field_simps)
  then have "\<bar>rndv ?x - ?x\<bar> * 10000 \<le> 1 / 2 ^ 17 * 10000" by (rule mult_right_mono) simp
  also have "(1::rat) / 2 ^ 17 * 10000 \<le> 5/32" by simp
  finally have "\<bar>rndv ?x - ?x\<bar> * 10000 \<le> 5/32" .
  moreover have "rndv ?x * 10000 - of_int p = (rndv ?x - ?x) * 10000" by (simp add: algebra_simps)
  then have "\<bar>rndv ?x * 10000 - of_int p\<bar> = \<bar>rndv ?x - ?x\<bar> * 10000" by (simp only: abs_mult abs_numeral)
  ultimately show "\<bar>rndv ?x * 10000 - of_int p\<bar> \<le> 5/32" by (simp only:)
qed

lemma price_roundtrip:
  assumes p: "\<bar>p\<bar> \<le> 2 ^ 50"
  shows "price_from_double (price_to_double p) = Some p"
proof -
  let ?y = "rndv (of_int p / 10000) * 10000"
  note d = price_roundtrip_aux [OF p]
  have p': "\<bar>rat_of_int p\<bar> \<le> 2 ^ 50"
    using p by (metis of_int_abs of_int_le_iff of_int_numeral of_int_power)
  have y: "\<bar>?y\<bar> < 2 powi 51" using d(2) p' by (simp add: abs_if split: if_splits)
  then have y60: "\<bar>?y\<bar> < 2 powi 60" by simp
  have "\<bar>rndv ?y - ?y\<bar> \<le> 2 powi (51 - 54)" using y by (intro rndv_error_bound) simp_all
  then have "\<bar>rndv ?y - ?y\<bar> \<le> 1/8" by (simp add: power_int_def field_simps)
  with d(2) have "\<bar>rndv ?y - of_int p\<bar> < 1/2" by (simp add: abs_if split: if_splits)
  then have "round_away (rndv ?y) = p" by (rule round_away_near)
  moreover have "double_of_i64 SCALE = Fin 10000" by (simp add: double_of_i64_def SCALE_def)
  moreover have "- (2 ^ 63) \<le> p" "p < 2 ^ 63" using p by (simp_all add: abs_if split: if_splits)
  ultimately show ?thesis
    by (simp add: price_from_double_def d(1) times_double_def rnd_moderate [OF y60] llround_def Let_def)
qed

end
