(* ===== verification/Orderbook.thy ===== *)
theory Orderbook
  imports Book_Types
begin

text \<open>
  The limit order book of \<open>src/orderbook/orderbook.cpp\<close>, one definition per member function.

  Order objects are shared (\<open>shared_ptr<order>\<close> in the level queues, in \<open>order_map_\<close> and in the
  execution adapter), so they live in a store indexed by references \<open>oref\<close>; \<open>create_order\<close> hands out
  the next reference. A level keeps the references of its resting orders in queue order: this is the
  list that the intrusive \<open>head\<close>/\<open>next\<close>/\<open>prev\<close> chain of \<open>order_node\<close>s spells out, and theory
  \<open>Price_Level\<close> proves that the chain operations implement the list operations used here. A node
  holds exactly one order while it is linked, so the reference of the order stands for the node.

  \<open>order_map\<close> is \<open>order_map_\<close>; the level vectors are lists with the best price first.
  \<open>std::lower_bound\<close> on a partitioned vector returns the end of the prefix that satisfies the
  predicate, here the length of \<open>takeWhile\<close>. The only exception of the component, the
  \<open>std::logic_error\<close> of \<open>order::fill\<close>, is the left summand of the results.
\<close>

type_synonym oref = nat

record price_level =
  lvl_price :: price
  total_qty :: quantity
  lvl_orders :: "oref list"

record orderbook =
  ob_store :: "oref \<Rightarrow> order"
  ob_next_ref :: oref
  bid_levels :: "price_level list"
  ask_levels :: "price_level list"
  order_map :: "order_id \<rightharpoonup> oref"

definition levels :: "side \<Rightarrow> orderbook \<Rightarrow> price_level list" where
  "levels s b = (case s of Side_Buy \<Rightarrow> bid_levels b | Side_Sell \<Rightarrow> ask_levels b)"

definition set_levels :: "side \<Rightarrow> price_level list \<Rightarrow> orderbook \<Rightarrow> orderbook" where
  "set_levels s ls b = (case s of Side_Buy \<Rightarrow> b\<lparr>bid_levels := ls\<rparr> | Side_Sell \<Rightarrow> b\<lparr>ask_levels := ls\<rparr>)"

definition empty_book :: orderbook where
  "empty_book = \<lparr>ob_store = (\<lambda>_. mk_order Good_Till_Cancel 0 Side_Buy 0 0), ob_next_ref = 0,
     bid_levels = [], ask_levels = [], order_map = Map.empty\<rparr>"

subsection \<open>Levels\<close>

definition lvl_append :: "(oref \<Rightarrow> order) \<Rightarrow> oref \<Rightarrow> price_level \<Rightarrow> price_level" where
  "lvl_append st n l = l\<lparr>lvl_orders := lvl_orders l @ [n],
     total_qty := total_qty l + remaining_quantity (st n)\<rparr>"

definition lvl_remove :: "(oref \<Rightarrow> order) \<Rightarrow> oref \<Rightarrow> price_level \<Rightarrow> price_level" where
  "lvl_remove st n l = l\<lparr>lvl_orders := remove1 n (lvl_orders l),
     total_qty := total_qty l - remaining_quantity (st n)\<rparr>"

definition lvl_empty :: "price_level \<Rightarrow> bool" where
  "lvl_empty l \<longleftrightarrow> lvl_orders l = []"

text \<open>The predicate of the \<open>lower_bound\<close> on each side: the level comes strictly before the price.\<close>

definition before :: "side \<Rightarrow> price \<Rightarrow> price \<Rightarrow> bool" where
  "before s p q = (case s of Side_Buy \<Rightarrow> p > q | Side_Sell \<Rightarrow> p < q)"

text \<open>The reference returned by \<open>find_or_insert_level\<close> is the index of the level.\<close>

definition find_or_insert_level :: "price_level list \<Rightarrow> price \<Rightarrow> side \<Rightarrow> price_level list \<times> nat" where
  "find_or_insert_level ls p s =
     (let i = length (takeWhile (\<lambda>l. before s (lvl_price l) p) ls) in
      if i < length ls \<and> lvl_price (ls ! i) = p then (ls, i)
      else (take i ls @ \<lparr>lvl_price = p, total_qty = 0, lvl_orders = []\<rparr> # drop i ls, i))"

definition remove_level_if_empty :: "price \<Rightarrow> price_level list \<Rightarrow> price_level list" where
  "remove_level_if_empty p ls = erase_first (\<lambda>l. lvl_price l = p \<and> lvl_empty l) ls"

definition push_nonempty :: "price_level \<Rightarrow> price_level list \<Rightarrow> price_level list" where
  "push_nonempty l ls = (if lvl_empty l then ls else l # ls)"

subsection \<open>Orders\<close>

definition create_order :: "order \<Rightarrow> orderbook \<Rightarrow> oref \<times> orderbook" where
  "create_order ord b = (ob_next_ref b,
     b\<lparr>ob_store := (ob_store b)(ob_next_ref b := ord), ob_next_ref := Suc (ob_next_ref b)\<rparr>)"

text \<open>Link an order at the back of its level: \<open>alloc_node\<close>, \<open>find_or_insert_level\<close>, \<open>append\<close>, \<open>order_map_[id] = n\<close>.\<close>

definition rest_order :: "oref \<Rightarrow> orderbook \<Rightarrow> orderbook" where
  "rest_order n b =
     (let ord = ob_store b n; s = ord_side ord;
          (ls, i) = find_or_insert_level (levels s b) (ord_price ord) s
      in (set_levels s (ls[i := lvl_append (ob_store b) n (ls ! i)]) b)
           \<lparr>order_map := (order_map b)(ord_id ord \<mapsto> n)\<rparr>)"

definition cancel_order :: "order_id \<Rightarrow> orderbook \<Rightarrow> orderbook" where
  "cancel_order oid b =
     (case order_map b oid of None \<Rightarrow> b
      | Some n \<Rightarrow>
         let ord = ob_store b n; s = ord_side ord; p = ord_price ord;
             ls = update_first (\<lambda>l. lvl_price l = p) (lvl_remove (ob_store b) n) (levels s b)
         in (set_levels s (remove_level_if_empty p ls) b)\<lparr>order_map := (order_map b)(oid := None)\<rparr>)"

definition can_match :: "side \<Rightarrow> price \<Rightarrow> orderbook \<Rightarrow> bool" where
  "can_match s p b =
     (case s of Side_Buy \<Rightarrow> (case ask_levels b of [] \<Rightarrow> False | l # _ \<Rightarrow> p \<ge> lvl_price l)
      | Side_Sell \<Rightarrow> (case bid_levels b of [] \<Rightarrow> False | l # _ \<Rightarrow> p \<le> lvl_price l))"

subsection \<open>Matching\<close>

datatype match_result = Match_Break | Match_Next orderbook "trade list" | Match_Throw book_error

text \<open>After a trade: the level total goes down, a filled order is unlinked and leaves the index.\<close>

definition settle :: "(oref \<Rightarrow> order) \<Rightarrow> oref \<Rightarrow> quantity \<Rightarrow> price_level \<Rightarrow> (order_id \<rightharpoonup> oref)
    \<Rightarrow> price_level \<times> (order_id \<rightharpoonup> oref)" where
  "settle st n q l m =
     (let l1 = l\<lparr>total_qty := total_qty l - q\<rparr> in
      if is_filled (st n) then (lvl_remove st n l1, m(ord_id (st n) := None)) else (l1, m))"

definition match_trade :: "price_level \<Rightarrow> price_level list \<Rightarrow> oref \<Rightarrow> price_level \<Rightarrow> price_level list \<Rightarrow> oref
    \<Rightarrow> orderbook \<Rightarrow> match_result" where
  "match_trade bl bls bn al als an b =
     (let st = ob_store b;
          q = std_min (remaining_quantity (st bn)) (remaining_quantity (st an)) in
      case order_fill q (st bn) of Inl e \<Rightarrow> Match_Throw e
      | Inr bo \<Rightarrow>
         (let st1 = st(bn := bo) in
          case order_fill q (st1 an) of Inl e \<Rightarrow> Match_Throw e
          | Inr ao \<Rightarrow>
             (let st2 = st1(an := ao);
                  tr = \<lparr>bid_trade = \<lparr>ti_order_id = ord_id (st2 bn), ti_price = ord_price (st2 bn), ti_quantity = q\<rparr>,
                        ask_trade = \<lparr>ti_order_id = ord_id (st2 an), ti_price = ord_price (st2 an), ti_quantity = q\<rparr>\<rparr>;
                  (bl', m1) = settle st2 bn q bl (order_map b);
                  (al', m2) = settle st2 an q al m1
              in Match_Next (b\<lparr>ob_store := st2, order_map := m2,
                   bid_levels := push_nonempty bl' bls, ask_levels := push_nonempty al' als\<rparr>) [tr])))"

text \<open>One turn of the \<open>while\<close> loop of \<open>match_orders\<close>.\<close>

definition match_step :: "orderbook \<Rightarrow> match_result" where
  "match_step b =
     (case bid_levels b of [] \<Rightarrow> Match_Break | bl # bls \<Rightarrow>
      (case ask_levels b of [] \<Rightarrow> Match_Break | al # als \<Rightarrow>
       if \<not> lvl_price bl \<ge> lvl_price al then Match_Break else
       (case lvl_orders bl of [] \<Rightarrow> Match_Break | bn # _ \<Rightarrow>
        (case lvl_orders al of [] \<Rightarrow> Match_Break | an # _ \<Rightarrow>
         if order_map b (ord_id (ob_store b bn)) = None then
           Match_Next (b\<lparr>bid_levels := push_nonempty (lvl_remove (ob_store b) bn bl) bls\<rparr>) []
         else if order_map b (ord_id (ob_store b an)) = None then
           Match_Next (b\<lparr>ask_levels := push_nonempty (lvl_remove (ob_store b) an al) als\<rparr>) []
         else match_trade bl bls bn al als an b))))"

definition side_count :: "price_level list \<Rightarrow> nat" where
  "side_count ls = (\<Sum>l\<leftarrow>ls. length (lvl_orders l))"

definition linked_count :: "orderbook \<Rightarrow> nat" where
  "linked_count b = side_count (bid_levels b) + side_count (ask_levels b)"

lemma side_count_simps [simp]:
  "side_count [] = 0" "side_count (l # ls) = length (lvl_orders l) + side_count ls"
  by (simp_all add: side_count_def)

lemma side_count_push [simp]: "side_count (push_nonempty l ls) = length (lvl_orders l) + side_count ls"
  by (simp add: push_nonempty_def lvl_empty_def)

lemma settle_orders: "fst (settle st n q l m) = l' \<Longrightarrow>
    lvl_orders l' = (if is_filled (st n) then remove1 n (lvl_orders l) else lvl_orders l)"
  by (auto simp: settle_def Let_def lvl_remove_def)

lemma match_trade_decreases:
  assumes "match_trade bl bls bn al als an b = Match_Next b' ts"
    and "lvl_orders bl = bn # bns" "lvl_orders al = an # ans"
    and "bid_levels b = bl # bls" "ask_levels b = al # als"
  shows "linked_count b' < linked_count b"
  using assms
  by (auto simp: match_trade_def linked_count_def settle_def is_filled_def lvl_remove_def order_fill_Inr
      Let_def min_def split: sum.splits prod.splits if_splits)

lemma match_step_decreases:
  assumes "match_step b = Match_Next b' ts"
  shows "linked_count b' < linked_count b"
  using assms match_trade_decreases
  by (fastforce simp: match_step_def linked_count_def lvl_remove_def split: list.splits if_splits)

function match_loop :: "orderbook \<Rightarrow> trade list \<Rightarrow> book_error + (orderbook \<times> trade list)" where
  "match_loop b acc =
     (case match_step b of
        Match_Break \<Rightarrow> Inr (b, acc)
      | Match_Next b' ts \<Rightarrow> match_loop b' (acc @ ts)
      | Match_Throw e \<Rightarrow> Inl e)"
  by pat_completeness auto
termination
  by (relation "measure (\<lambda>(b, acc). linked_count b)") (auto intro: match_step_decreases)

declare match_loop.simps [simp del]

text \<open>The lambda \<open>cancel_aggressive\<close>: drop stale heads, cancel the head when it must not rest.\<close>

function cancel_aggressive :: "side \<Rightarrow> orderbook \<Rightarrow> orderbook" where
  "cancel_aggressive s b =
     (case levels s b of [] \<Rightarrow> b
      | l # ls \<Rightarrow>
         (case lvl_orders l of [] \<Rightarrow> cancel_aggressive s (set_levels s ls b)
          | n # _ \<Rightarrow>
             if order_map b (ord_id (ob_store b n)) = None then
               cancel_aggressive s (set_levels s (push_nonempty (lvl_remove (ob_store b) n l) ls) b)
             else if ord_type (ob_store b n) = Fill_Or_Kill \<or> ord_type (ob_store b n) = Immediate_Or_Cancel then
               cancel_order (ord_id (ob_store b n)) b
             else b))"
  by pat_completeness auto
termination
  by (relation "measure (\<lambda>(s, b). \<Sum>l\<leftarrow>levels s b. Suc (length (lvl_orders l)))")
    (auto simp: levels_def set_levels_def push_nonempty_def lvl_empty_def lvl_remove_def split: side.splits)

declare cancel_aggressive.simps [simp del]

definition match_orders :: "orderbook \<Rightarrow> book_error + (orderbook \<times> trade list)" where
  "match_orders b =
     (case match_loop b [] of Inl e \<Rightarrow> Inl e
      | Inr (b', ts) \<Rightarrow> Inr (cancel_aggressive Side_Sell (cancel_aggressive Side_Buy b'), ts))"

subsection \<open>Adding, modifying\<close>

definition opposite :: "side \<Rightarrow> side" where
  "opposite s = (case s of Side_Buy \<Rightarrow> Side_Sell | Side_Sell \<Rightarrow> Side_Buy)"

definition crosses :: "side \<Rightarrow> price \<Rightarrow> price \<Rightarrow> bool" where
  "crosses s p q = (case s of Side_Buy \<Rightarrow> q \<le> p | Side_Sell \<Rightarrow> q \<ge> p)"

fun available_loop :: "side \<Rightarrow> price \<Rightarrow> quantity \<Rightarrow> price_level list \<Rightarrow> quantity" where
  "available_loop s p acc [] = acc"
| "available_loop s p acc (l # ls) =
     available_loop s p (if crosses s p (lvl_price l) then acc + total_qty l else acc) ls"

text \<open>The tests of \<open>add_order\<close> that turn an order away before it is linked.\<close>

definition turned_away :: "order \<Rightarrow> orderbook \<Rightarrow> bool" where
  "turned_away ord b \<longleftrightarrow>
     (order_map b (ord_id ord) \<noteq> None) \<or>
     (ord_type ord = Fill_Or_Kill \<and>
       (\<not> can_match (ord_side ord) (ord_price ord) b \<or>
        available_loop (ord_side ord) (ord_price ord) 0 (levels (opposite (ord_side ord)) b)
          < remaining_quantity ord)) \<or>
     (ord_type ord = Immediate_Or_Cancel \<and> \<not> can_match (ord_side ord) (ord_price ord) b)"

definition add_order :: "oref \<Rightarrow> orderbook \<Rightarrow> book_error + (orderbook \<times> trade list)" where
  "add_order n b =
     (if turned_away (ob_store b n) b then Inr (b, []) else match_orders (rest_order n b))"

definition match_order :: "order_modify \<Rightarrow> orderbook \<Rightarrow> book_error + (orderbook \<times> trade list)" where
  "match_order m b =
     (case order_map b (om_order_id m) of None \<Rightarrow> Inr (b, [])
      | Some n \<Rightarrow>
         let t = ord_type (ob_store b n);
             (r, b2) = create_order (to_order t m) (cancel_order (om_order_id m) b)
         in add_order r b2)"

definition modify_order :: "order_id \<Rightarrow> price \<Rightarrow> quantity \<Rightarrow> orderbook \<Rightarrow> bool \<times> orderbook" where
  "modify_order oid p q b =
     (case order_map b oid of None \<Rightarrow> (False, b)
      | Some n \<Rightarrow>
         let s = ord_side (ob_store b n); t = ord_type (ob_store b n);
             (r, b2) = create_order (mk_order t oid s p q) (cancel_order oid b)
         in (True, rest_order r b2))"

subsection \<open>Queries and level-2 data\<close>

definition ob_size :: "orderbook \<Rightarrow> nat" where
  "ob_size b = card (dom (order_map b))"

definition level_infos :: "price_level list \<Rightarrow> lvl_info list" where
  "level_infos ls = map (\<lambda>l. \<lparr>li_price = lvl_price l, li_quantity = total_qty l\<rparr>)
     (filter (\<lambda>l. total_qty l > 0) ls)"

definition get_order_infos :: "orderbook \<Rightarrow> orderbook_lvl_infos" where
  "get_order_infos b = \<lparr>infos_bids = level_infos (bid_levels b), infos_asks = level_infos (ask_levels b)\<rparr>"

definition clear :: "orderbook \<Rightarrow> orderbook" where
  "clear b = b\<lparr>order_map := Map.empty, bid_levels := [], ask_levels := []\<rparr>"

text \<open>A synthetic good-till-cancel order carries the depth of one level; its id comes from the generator.\<close>

definition place_depth :: "side \<Rightarrow> price \<Rightarrow> quantity \<Rightarrow> orderbook \<times> u64 \<Rightarrow> orderbook \<times> u64" where
  "place_depth s p q = (\<lambda>(b, c).
     let (oid, c') = order_id_next c;
         (r, b2) = create_order (mk_order Good_Till_Cancel oid s p q) b
     in (rest_order r b2, c'))"

fun snapshot_side :: "side \<Rightarrow> (price \<times> quantity) list \<Rightarrow> orderbook \<times> u64 \<Rightarrow> orderbook \<times> u64" where
  "snapshot_side s [] bc = bc"
| "snapshot_side s ((p, q) # xs) bc =
     (if q = 0 then snapshot_side s xs bc else snapshot_side s xs (place_depth s p q bc))"

definition apply_l2_snapshot :: "(price \<times> quantity) list \<Rightarrow> (price \<times> quantity) list \<Rightarrow> orderbook \<times> u64
    \<Rightarrow> orderbook \<times> u64" where
  "apply_l2_snapshot bids asks = (\<lambda>(b, c).
     snapshot_side Side_Sell asks (snapshot_side Side_Buy bids (clear b, c)))"

text \<open>The inner \<open>while (lvl.head)\<close> of \<open>apply_l2_update\<close>: unlink and unindex every order of the level.\<close>

fun drain_level :: "(oref \<Rightarrow> order) \<Rightarrow> oref list \<Rightarrow> price_level \<times> (order_id \<rightharpoonup> oref)
    \<Rightarrow> price_level \<times> (order_id \<rightharpoonup> oref)" where
  "drain_level st [] lm = lm"
| "drain_level st (n # ns) (l, m) = drain_level st ns (lvl_remove st n l, m(ord_id (st n) := None))"

definition wipe_level :: "side \<Rightarrow> price \<Rightarrow> orderbook \<Rightarrow> orderbook" where
  "wipe_level s p b =
     (case find (\<lambda>l. lvl_price l = p) (levels s b) of None \<Rightarrow> b
      | Some l \<Rightarrow>
         let (l', m) = drain_level (ob_store b) (lvl_orders l) (l, order_map b)
         in (set_levels s (update_first (\<lambda>l. lvl_price l = p) (\<lambda>_. l') (levels s b)) b)\<lparr>order_map := m\<rparr>)"

definition apply_l2_update :: "side \<Rightarrow> price \<Rightarrow> quantity \<Rightarrow> orderbook \<times> u64 \<Rightarrow> orderbook \<times> u64" where
  "apply_l2_update s p q = (\<lambda>(b, c).
     let b1 = wipe_level s p b;
         b2 = set_levels s (remove_level_if_empty p (levels s b1)) b1
     in if q > 0 then place_depth s p q (b2, c) else (b2, c))"

end
