(* ===== verification/Orderbook_Inv.thy ===== *)
theory Orderbook_Inv
  imports Orderbook
begin

text \<open>
  The representation invariant of the order book and its preservation by every operation.

  \<open>book_ok\<close> says: on each side the levels are strictly ordered by price, best first; no level is
  empty; a level's \<open>total_qty\<close> is the sum (as machine words) of what its orders have left; every
  linked order is on the side and at the price its own fields say; and \<open>order_map\<close> is exactly the
  index of the linked orders by id. Under the invariant the stale-node branches of the matching loop
  are dead, \<open>order::fill\<close> never throws, and matching ends with the best bid below the best ask.
\<close>

definition lvl_ok :: "(oref \<Rightarrow> order) \<Rightarrow> side \<Rightarrow> price_level \<Rightarrow> bool" where
  "lvl_ok st s l \<longleftrightarrow> lvl_orders l \<noteq> [] \<and> distinct (lvl_orders l) \<and>
     total_qty l = (\<Sum>n\<leftarrow>lvl_orders l. remaining_quantity (st n)) \<and>
     (\<forall>n\<in>set (lvl_orders l). ord_side (st n) = s \<and> ord_price (st n) = lvl_price l)"

definition price_sorted :: "side \<Rightarrow> price_level list \<Rightarrow> bool" where
  "price_sorted s ls \<longleftrightarrow> sorted_wrt (\<lambda>l l'. before s (lvl_price l) (lvl_price l')) ls"

definition side_ok :: "(oref \<Rightarrow> order) \<Rightarrow> side \<Rightarrow> price_level list \<Rightarrow> bool" where
  "side_ok st s ls \<longleftrightarrow> price_sorted s ls \<and> (\<forall>l\<in>set ls. lvl_ok st s l)"

definition refs :: "price_level list \<Rightarrow> oref list" where
  "refs ls = concat (map lvl_orders ls)"

definition linked :: "orderbook \<Rightarrow> oref set" where
  "linked b = set (refs (bid_levels b)) \<union> set (refs (ask_levels b))"

definition index_ok :: "(order_id \<rightharpoonup> oref) \<Rightarrow> oref set \<Rightarrow> (oref \<Rightarrow> order_id) \<Rightarrow> bool" where
  "index_ok m L ident \<longleftrightarrow> (\<forall>i n. m i = Some n \<longleftrightarrow> n \<in> L \<and> ident n = i)"

definition book_ok :: "orderbook \<Rightarrow> bool" where
  "book_ok b \<longleftrightarrow> side_ok (ob_store b) Side_Buy (bid_levels b) \<and> side_ok (ob_store b) Side_Sell (ask_levels b) \<and>
     index_ok (order_map b) (linked b) (\<lambda>n. ord_id (ob_store b n)) \<and> (\<forall>n\<in>linked b. n < ob_next_ref b)"

definition uncrossed :: "orderbook \<Rightarrow> bool" where
  "uncrossed b = (case (bid_levels b, ask_levels b) of
     (bl # _, al # _) \<Rightarrow> lvl_price bl < lvl_price al | _ \<Rightarrow> True)"

subsection \<open>Levels and sides\<close>

lemma refs_simps [simp]: "refs [] = []" "refs (l # ls) = lvl_orders l @ refs ls" "refs (xs @ ys) = refs xs @ refs ys"
  by (simp_all add: refs_def)

lemma refs_push [simp]: "refs (push_nonempty l ls) = lvl_orders l @ refs ls"
  by (simp add: push_nonempty_def lvl_empty_def)

lemma in_refs: "n \<in> set (refs ls) \<longleftrightarrow> (\<exists>l\<in>set ls. n \<in> set (lvl_orders l))"
  by (auto simp: refs_def)

lemma before_irrefl [simp]: "\<not> before s p p"
  by (simp add: before_def split: side.split)

lemma before_trans: "before s p q \<Longrightarrow> before s q r \<Longrightarrow> before s p r"
  by (simp add: before_def split: side.splits)

lemma before_total: "p \<noteq> q \<Longrightarrow> \<not> before s p q \<Longrightarrow> before s q p"
  by (auto simp: before_def split: side.splits)

lemma price_sorted_simps [simp]:
  "price_sorted s []"
  "price_sorted s (l # ls) \<longleftrightarrow> (\<forall>l'\<in>set ls. before s (lvl_price l) (lvl_price l')) \<and> price_sorted s ls"
  by (auto simp: price_sorted_def)

lemma price_sorted_append:
  "price_sorted s (xs @ ys) \<longleftrightarrow> price_sorted s xs \<and> price_sorted s ys \<and>
     (\<forall>x\<in>set xs. \<forall>y\<in>set ys. before s (lvl_price x) (lvl_price y))"
  by (auto simp: price_sorted_def sorted_wrt_append)

lemma price_sorted_neq:
  assumes "price_sorted s (ys @ l # zs)" "l' \<in> set ys \<union> set zs"
  shows "lvl_price l' \<noteq> lvl_price l"
proof -
  from assms have "before s (lvl_price l') (lvl_price l) \<or> before s (lvl_price l) (lvl_price l')"
    by (auto simp: price_sorted_append)
  then show ?thesis by (metis before_irrefl)
qed

lemma side_okD: "side_ok st s ls \<Longrightarrow> n \<in> set (refs ls) \<Longrightarrow> ord_side (st n) = s"
  by (auto simp: side_ok_def lvl_ok_def in_refs)

lemma side_ok_price: "side_ok st s ls \<Longrightarrow> l \<in> set ls \<Longrightarrow> n \<in> set (lvl_orders l) \<Longrightarrow> ord_price (st n) = lvl_price l"
  by (simp add: side_ok_def lvl_ok_def)

lemma linked_sides: "linked b = set (refs (levels s b)) \<union> set (refs (levels (opposite s) b))"
  by (cases s) (auto simp: linked_def levels_def opposite_def)

lemma levels_set_levels [simp]:
  "levels s (set_levels s ls b) = ls"
  "levels (opposite s) (set_levels s ls b) = levels (opposite s) b"
  "ob_store (set_levels s ls b) = ob_store b" "order_map (set_levels s ls b) = order_map b"
  "ob_next_ref (set_levels s ls b) = ob_next_ref b"
  by (cases s; simp add: levels_def set_levels_def opposite_def)+

lemma levels_index [simp]: "levels s (b\<lparr>order_map := m\<rparr>) = levels s b"
  by (cases s) (simp_all add: levels_def)

lemma book_ok_sides:
  "book_ok b \<longleftrightarrow> side_ok (ob_store b) s (levels s b) \<and> side_ok (ob_store b) (opposite s) (levels (opposite s) b) \<and>
     index_ok (order_map b) (linked b) (\<lambda>n. ord_id (ob_store b n)) \<and> (\<forall>n\<in>linked b. n < ob_next_ref b)"
  by (cases s) (auto simp: book_ok_def levels_def opposite_def)

text \<open>Rewriting one level keeps a side well formed when the other levels' orders are untouched.\<close>

lemma lvl_ok_cong:
  "(\<And>n. n \<in> set (lvl_orders l) \<Longrightarrow> st' n = st n) \<Longrightarrow> lvl_ok st' s l = lvl_ok st s l"
  by (auto simp: lvl_ok_def cong: map_cong sum_list_map_cong)

lemma side_ok_cong: "(\<And>n. n \<in> set (refs ls) \<Longrightarrow> st' n = st n) \<Longrightarrow> side_ok st' s ls = side_ok st s ls"
proof -
  assume a: "\<And>n. n \<in> set (refs ls) \<Longrightarrow> st' n = st n"
  have "lvl_ok st' s l = lvl_ok st s l" if "l \<in> set ls" for l
    using that a by (intro lvl_ok_cong) (auto simp: in_refs)
  then show ?thesis by (simp add: side_ok_def)
qed

lemma side_ok_replace:
  assumes "side_ok st s (ys @ l # zs)" "lvl_price l' = lvl_price l"
    and "lvl_orders l' = [] \<or> lvl_ok st' s l'"
    and "\<And>n. n \<in> set (refs (ys @ zs)) \<Longrightarrow> st' n = st n"
  shows "side_ok st' s (ys @ push_nonempty l' zs)"
proof -
  have "side_ok st s (ys @ zs)" using assms(1) by (auto simp: side_ok_def price_sorted_append)
  then have "side_ok st' s (ys @ zs)" using assms(4) by (subst side_ok_cong) auto
  with assms(1-3) show ?thesis
    by (auto simp: side_ok_def price_sorted_append push_nonempty_def lvl_empty_def)
qed

lemma level_of:
  assumes "side_ok st s ls" "n \<in> set (refs ls)"
  obtains ys l zs where "ls = ys @ l # zs" "n \<in> set (lvl_orders l)" "lvl_price l = ord_price (st n)"
    "lvl_ok st s l" "\<forall>l'\<in>set ys \<union> set zs. lvl_price l' \<noteq> lvl_price l"
proof -
  from assms(2) obtain l where "l \<in> set ls" and n: "n \<in> set (lvl_orders l)" by (auto simp: in_refs)
  then obtain ys zs where ls: "ls = ys @ l # zs" by (meson split_list)
  show thesis
  proof (rule that [OF ls n])
    show "lvl_price l = ord_price (st n)" using side_ok_price [OF assms(1) _ n] ls by simp
    show "lvl_ok st s l" using assms(1) ls by (simp add: side_ok_def)
    have "price_sorted s (ys @ l # zs)" using assms(1) ls by (simp add: side_ok_def)
    then show "\<forall>l'\<in>set ys \<union> set zs. lvl_price l' \<noteq> lvl_price l"
      using price_sorted_neq by blast
  qed
qed

lemma distinct_other_levels:
  assumes "side_ok st s (ys @ l # zs)" "n \<in> set (lvl_orders l)"
  shows "n \<notin> set (refs (ys @ zs))"
proof
  assume "n \<in> set (refs (ys @ zs))"
  then obtain l' where l': "l' \<in> set ys \<union> set zs" "n \<in> set (lvl_orders l')" by (auto simp: in_refs)
  then have "lvl_price l' = lvl_price l"
    using side_ok_price [OF assms(1), of l' n] side_ok_price [OF assms(1), of l n] assms(2) by auto
  moreover have "price_sorted s (ys @ l # zs)" using assms(1) by (simp add: side_ok_def)
  ultimately show False using price_sorted_neq l'(1) by blast
qed

subsection \<open>The index\<close>

lemma index_inj: "index_ok m L ident \<Longrightarrow> n \<in> L \<Longrightarrow> n' \<in> L \<Longrightarrow> ident n = ident n' \<Longrightarrow> n = n'"
  unfolding index_ok_def by (metis option.sel)

lemma index_remove:
  assumes "index_ok m L ident" "n \<in> L"
  shows "index_ok (m(ident n := None)) (L - {n}) ident"
  unfolding index_ok_def
proof (intro allI)
  fix i x
  show "((m(ident n := None)) i = Some x) = (x \<in> L - {n} \<and> ident x = i)"
  proof (cases "i = ident n")
    case True
    with index_inj [OF assms(1,2), of x] show ?thesis by auto
  next
    case False
    with assms(1) show ?thesis by (auto simp: index_ok_def)
  qed
qed

lemma index_insert:
  assumes "index_ok m L ident" "m (ident n) = None"
  shows "index_ok (m(ident n \<mapsto> n)) (insert n L) ident"
  unfolding index_ok_def
proof (intro allI)
  fix i x
  have ne: "ident y \<noteq> ident n" if "y \<in> L" for y
  proof -
    have "m (ident y) = Some y" using assms(1) that by (simp add: index_ok_def)
    with assms(2) show ?thesis by auto
  qed
  have "(m i = Some x) = (x \<in> L \<and> ident x = i)" using assms(1) by (simp add: index_ok_def)
  with ne [of x] show "((m(ident n \<mapsto> n)) i = Some x) = (x \<in> insert n L \<and> ident x = i)"
    by auto
qed

lemma index_cong:
  "(\<And>n. n \<in> L \<Longrightarrow> ident' n = ident n) \<Longrightarrow> index_ok m L ident' = index_ok m L ident"
  unfolding index_ok_def by metis

lemma index_linked: "book_ok b \<Longrightarrow> n \<in> linked b \<Longrightarrow> order_map b (ord_id (ob_store b n)) = Some n"
  by (simp add: book_ok_def index_ok_def)

lemma linked_index: "book_ok b \<Longrightarrow> order_map b i = Some n \<Longrightarrow> n \<in> linked b \<and> ord_id (ob_store b n) = i"
  by (simp add: book_ok_def index_ok_def)

lemma linked_side:
  assumes "book_ok b" "n \<in> linked b"
  shows "n \<in> set (refs (levels (ord_side (ob_store b n)) b))"
    "n \<notin> set (refs (levels (opposite (ord_side (ob_store b n))) b))"
proof -
  let ?s = "ord_side (ob_store b n)"
  have so: "side_ok (ob_store b) (opposite ?s) (levels (opposite ?s) b)"
    using assms(1) book_ok_sides [of b ?s] by simp
  have ne: "opposite ?s \<noteq> ?s" by (cases ?s) (simp_all add: opposite_def)
  show no: "n \<notin> set (refs (levels (opposite ?s) b))" using side_okD [OF so, of n] ne by metis
  with assms(2) linked_sides [of b ?s] show "n \<in> set (refs (levels ?s b))" by blast
qed

subsection \<open>Linking an order\<close>

lemma find_or_insert_split:
  assumes srt: "price_sorted s ls" and eq: "find_or_insert_level ls p s = (ls', i)"
  obtains ys l zs where "ls'[i := f (ls' ! i)] = ys @ f l # zs" "lvl_price l = p"
    "ls = ys @ l # zs \<or> ls = ys @ zs \<and> l = \<lparr>lvl_price = p, total_qty = 0, lvl_orders = []\<rparr>"
    "\<forall>y\<in>set ys. before s (lvl_price y) p" "\<forall>z\<in>set zs. before s p (lvl_price z)"
proof -
  define ys where "ys = takeWhile (\<lambda>l. before s (lvl_price l) p) ls"
  define ds where "ds = dropWhile (\<lambda>l. before s (lvl_price l) p) ls"
  have ls: "ls = ys @ ds" by (simp add: ys_def ds_def)
  have ys: "\<forall>y\<in>set ys. before s (lvl_price y) p" by (auto simp: ys_def dest: set_takeWhileD)
  have hd: "ds \<noteq> [] \<Longrightarrow> \<not> before s (lvl_price (hd ds)) p" unfolding ds_def by (rule hd_dropWhile)
  have "take (length ys) ls = ys" "drop (length ys) ls = ds" using ls by (metis append_eq_conv_conj)+
  then have fi: "(ls', i) = (if length ys < length ls \<and> lvl_price (ls ! length ys) = p then (ls, length ys)
      else (ys @ \<lparr>lvl_price = p, total_qty = 0, lvl_orders = []\<rparr> # ds, length ys))"
    using eq unfolding find_or_insert_level_def Let_def ys_def [symmetric] by metis
  show thesis
  proof (cases "\<exists>l zs. ds = l # zs \<and> lvl_price l = p")
    case True
    then obtain l zs where ds: "ds = l # zs" "lvl_price l = p" by blast
    with fi ls have "ls' = ls" "i = length ys" by simp_all
    with ls ds srt ys show thesis
      by (intro that [of ys l zs]) (auto simp: price_sorted_append nth_append list_update_append)
  next
    case False
    have "lvl_price (ls ! length ys) \<noteq> p" if "length ys < length ls"
      using that False ls by (cases ds) (auto simp: nth_append)
    with fi have l': "ls' = ys @ \<lparr>lvl_price = p, total_qty = 0, lvl_orders = []\<rparr> # ds" "i = length ys"
      by (auto split: if_splits)
    have "before s p (lvl_price z)" if "z \<in> set ds" for z
    proof -
      from that obtain l zs where ds: "ds = l # zs" by (cases ds) auto
      with hd False have lp: "before s p (lvl_price l)" by (intro before_total) auto
      from ds that srt ls have "z = l \<or> before s (lvl_price l) (lvl_price z)" by (auto simp: price_sorted_append)
      with lp show ?thesis by (metis before_trans)
    qed
    with l' ls ys show thesis
      by (intro that [of ys "\<lparr>lvl_price = p, total_qty = 0, lvl_orders = []\<rparr>" ds])
        (auto simp: nth_append list_update_append)
  qed
qed

lemma lvl_append_ok:
  assumes "lvl_orders l = [] \<and> total_qty l = 0 \<or> lvl_ok st s l" "n \<notin> set (lvl_orders l)"
    and "ord_side (st n) = s" "ord_price (st n) = lvl_price l"
  shows "lvl_ok st s (lvl_append st n l)"
  using assms by (auto simp: lvl_ok_def lvl_append_def)

lemma rest_levels_ok:
  assumes ok: "side_ok st s ls" and n: "n \<notin> set (refs ls)" "ord_side (st n) = s"
    and eq: "find_or_insert_level ls (ord_price (st n)) s = (ls', i)"
  shows "side_ok st s (ls'[i := lvl_append st n (ls' ! i)])"
    and "set (refs (ls'[i := lvl_append st n (ls' ! i)])) = insert n (set (refs ls))"
proof -
  have srt: "price_sorted s ls" using ok by (simp add: side_ok_def)
  obtain ys l zs where r: "ls'[i := lvl_append st n (ls' ! i)] = ys @ lvl_append st n l # zs"
    and l: "lvl_price l = ord_price (st n)"
    and c: "ls = ys @ l # zs \<or> ls = ys @ zs \<and> l = \<lparr>lvl_price = ord_price (st n), total_qty = 0, lvl_orders = []\<rparr>"
    and ys: "\<forall>y\<in>set ys. before s (lvl_price y) (ord_price (st n))"
    and zs: "\<forall>z\<in>set zs. before s (ord_price (st n)) (lvl_price z)"
    by (rule find_or_insert_split [OF srt eq, of "lvl_append st n"])
  have "lvl_ok st s (lvl_append st n l)"
    using c ok n l by (intro lvl_append_ok) (auto simp: side_ok_def)
  moreover have "price_sorted s (ys @ lvl_append st n l # zs)"
    using c srt ys zs l by (auto simp: price_sorted_append lvl_append_def intro: before_trans)
  ultimately show "side_ok st s (ls'[i := lvl_append st n (ls' ! i)])"
    using c ok r by (auto simp: side_ok_def)
  show "set (refs (ls'[i := lvl_append st n (ls' ! i)])) = insert n (set (refs ls))"
    unfolding r using c by (auto simp: lvl_append_def)
qed

lemma rest_order_frame [simp]:
  "ob_store (rest_order n b) = ob_store b" "ob_next_ref (rest_order n b) = ob_next_ref b"
  "order_map (rest_order n b) = (order_map b)(ord_id (ob_store b n) \<mapsto> n)"
  "levels (opposite (ord_side (ob_store b n))) (rest_order n b) = levels (opposite (ord_side (ob_store b n))) b"
  by (simp_all add: rest_order_def Let_def split: prod.split)

lemma rest_order_ok:
  assumes ok: "book_ok b" and new: "order_map b (ord_id (ob_store b n)) = None" and bnd: "n < ob_next_ref b"
  shows "book_ok (rest_order n b)" "linked (rest_order n b) = insert n (linked b)"
proof -
  let ?st = "ob_store b" and ?s = "ord_side (ob_store b n)"
  have nl: "n \<notin> linked b" using index_linked [OF ok, of n] new by auto
  then have nr: "n \<notin> set (refs (levels ?s b))" using linked_sides [of b ?s] by blast
  obtain ls i where f: "find_or_insert_level (levels ?s b) (ord_price (?st n)) ?s = (ls, i)" by fastforce
  have so: "side_ok ?st ?s (levels ?s b)" using ok book_ok_sides [of b ?s] by simp
  note r = rest_levels_ok [OF so nr refl f]
  have lv: "levels ?s (rest_order n b) = ls[i := lvl_append ?st n (ls ! i)]"
    by (simp add: rest_order_def Let_def f)
  show li: "linked (rest_order n b) = insert n (linked b)"
    using linked_sides [of "rest_order n b" ?s] linked_sides [of b ?s] r(2) lv by simp
  have "index_ok ((order_map b)(ord_id (?st n) \<mapsto> n)) (insert n (linked b)) (\<lambda>n. ord_id (?st n))"
    using ok new by (intro index_insert) (simp_all add: book_ok_def)
  with r(1) lv li ok bnd show "book_ok (rest_order n b)"
    using book_ok_sides [of "rest_order n b" ?s] book_ok_sides [of b ?s] by simp
qed

subsection \<open>Cancelling\<close>

lemma lvl_remove_ok:
  assumes "lvl_ok st s l" "n \<in> set (lvl_orders l)"
  shows "lvl_orders (lvl_remove st n l) = [] \<or> lvl_ok st s (lvl_remove st n l)"
  using assms by (auto simp: lvl_ok_def lvl_remove_def sum_list_remove1 dest: in_set_remove1 notin_set_remove1)

lemma lvl_remove_simps [simp]:
  "lvl_price (lvl_remove st n l) = lvl_price l" "lvl_orders (lvl_remove st n l) = remove1 n (lvl_orders l)"
  by (simp_all add: lvl_remove_def)

lemma update_first_at: "p y \<Longrightarrow> \<forall>z\<in>set ys. \<not> p z \<Longrightarrow> update_first p f (ys @ y # zs) = ys @ f y # zs"
  by (induction ys) auto

lemma remove_level_at:
  assumes "lvl_price l = p" "\<forall>l'\<in>set ys \<union> set zs. lvl_price l' \<noteq> p"
  shows "remove_level_if_empty p (ys @ l # zs) = ys @ push_nonempty l zs"
proof -
  have "erase_first (\<lambda>l. lvl_price l = p \<and> lvl_empty l) zs = zs" using assms by (intro erase_first_notin) auto
  with assms show ?thesis
    unfolding remove_level_if_empty_def push_nonempty_def by (induction ys) auto
qed

lemma cancel_order_split:
  assumes ok: "book_ok b" and n: "order_map b oid = Some n"
  obtains ys l zs where "levels (ord_side (ob_store b n)) b = ys @ l # zs" "n \<in> set (lvl_orders l)"
    "lvl_ok (ob_store b) (ord_side (ob_store b n)) l"
    "cancel_order oid b = (set_levels (ord_side (ob_store b n)) (ys @ push_nonempty (lvl_remove (ob_store b) n l) zs) b)
       \<lparr>order_map := (order_map b)(oid := None)\<rparr>"
proof -
  let ?s = "ord_side (ob_store b n)"
  have nl: "n \<in> linked b" using linked_index [OF ok n] by simp
  have so: "side_ok (ob_store b) ?s (levels ?s b)" using ok book_ok_sides [of b ?s] by simp
  from so linked_side(1) [OF ok nl] obtain ys l zs where sp: "levels ?s b = ys @ l # zs" "n \<in> set (lvl_orders l)"
    "lvl_price l = ord_price (ob_store b n)" "lvl_ok (ob_store b) ?s l"
    "\<forall>l'\<in>set ys \<union> set zs. lvl_price l' \<noteq> lvl_price l"
    by (rule level_of)
  have "cancel_order oid b = (set_levels ?s (ys @ push_nonempty (lvl_remove (ob_store b) n l) zs) b)
       \<lparr>order_map := (order_map b)(oid := None)\<rparr>"
    using sp(3,5) unfolding cancel_order_def n sp(1)
    by (simp add: Let_def sp(1) update_first_at remove_level_at)
  with sp that show thesis by blast
qed

lemma cancel_order_frame [simp]:
  "ob_store (cancel_order oid b) = ob_store b" "ob_next_ref (cancel_order oid b) = ob_next_ref b"
  "order_map (cancel_order oid b) = (order_map b)(oid := None)"
  by (simp_all add: cancel_order_def Let_def fun_upd_idem split: option.split)

lemma cancel_order_ok:
  assumes ok: "book_ok b"
  shows "book_ok (cancel_order oid b)" "linked (cancel_order oid b) = linked b - set_option (order_map b oid)"
proof -
  have *: "book_ok (cancel_order oid b) \<and> linked (cancel_order oid b) = linked b - {n}"
    if n: "order_map b oid = Some n" for n
  proof -
    let ?s = "ord_side (ob_store b n)" and ?st = "ob_store b"
    have nl: "n \<in> linked b" "ord_id (?st n) = oid" using linked_index [OF ok n] by simp_all
    obtain ys l zs where sp: "levels ?s b = ys @ l # zs" "n \<in> set (lvl_orders l)" "lvl_ok ?st ?s l"
      and c: "cancel_order oid b = (set_levels ?s (ys @ push_nonempty (lvl_remove ?st n l) zs) b)
        \<lparr>order_map := (order_map b)(oid := None)\<rparr>"
      by (rule cancel_order_split [OF ok n])
    have so: "side_ok ?st ?s (ys @ l # zs)" "side_ok ?st (opposite ?s) (levels (opposite ?s) b)"
      using ok book_ok_sides [of b ?s] sp(1) by simp_all
    have lv: "levels ?s (cancel_order oid b) = ys @ push_nonempty (lvl_remove ?st n l) zs"
      "levels (opposite ?s) (cancel_order oid b) = levels (opposite ?s) b" using c by simp_all
    have s1: "side_ok ?st ?s (ys @ push_nonempty (lvl_remove ?st n l) zs)"
      using so(1) sp(2,3) lvl_remove_ok by (intro side_ok_replace [of ?st _ _ l]) auto
    have "set (remove1 n (lvl_orders l)) = set (lvl_orders l) - {n}" using sp(3) by (simp add: lvl_ok_def)
    then have li: "linked (cancel_order oid b) = linked b - {n}"
      using distinct_other_levels [OF so(1) sp(2)] linked_side(2) [OF ok nl(1)]
      unfolding linked_sides [of _ ?s] lv sp(1) by auto
    have "index_ok ((order_map b)(oid := None)) (linked b - {n}) (\<lambda>n. ord_id (?st n))"
      using index_remove [of "order_map b" "linked b" "\<lambda>n. ord_id (?st n)" n] ok nl by (simp add: book_ok_def)
    with s1 so(2) lv li ok show ?thesis
      using book_ok_sides [of "cancel_order oid b" ?s] book_ok_sides [of b ?s] by auto
  qed
  have "cancel_order oid b = b" if "order_map b oid = None" using that by (simp add: cancel_order_def)
  with * ok show "book_ok (cancel_order oid b)" "linked (cancel_order oid b) = linked b - set_option (order_map b oid)"
    by (cases "order_map b oid"; simp)+
qed

subsection \<open>Matching\<close>

definition reduce :: "quantity \<Rightarrow> order \<Rightarrow> order" where
  "reduce q ord = ord\<lparr>remaining_quantity := remaining_quantity ord - q\<rparr>"

lemma reduce_simps [simp]:
  "ord_type (reduce q ord) = ord_type ord" "ord_id (reduce q ord) = ord_id ord" "ord_side (reduce q ord) = ord_side ord"
  "ord_price (reduce q ord) = ord_price ord" "initial_quantity (reduce q ord) = initial_quantity ord"
  "remaining_quantity (reduce q ord) = remaining_quantity ord - q"
  by (simp_all add: reduce_def)

lemma settle_side:
  assumes ok: "side_ok st s (l # ls)" and ns: "lvl_orders l = n # ns"
    and st2: "st2 n = reduce q (st n)" "\<And>k. k \<in> set (refs (l # ls)) \<Longrightarrow> k \<noteq> n \<Longrightarrow> st2 k = st k"
    and eq: "settle st2 n q l m = (l', m')"
  shows "side_ok st2 s (push_nonempty l' ls)"
    and "set (refs (push_nonempty l' ls)) = set (refs (l # ls)) - {k. k = n \<and> is_filled (st2 n)}"
    and "refs (push_nonempty l' ls) = (if is_filled (st2 n) then tl (refs (l # ls)) else refs (l # ls))"
    and "m' = (if is_filled (st2 n) then m(ord_id (st n) := None) else m)"
proof -
  have l: "lvl_ok st s l" using ok by (simp add: side_ok_def)
  have nn: "n \<notin> set ns" using l ns by (simp add: lvl_ok_def)
  have nls: "n \<notin> set (refs ls)" using distinct_other_levels [of st s "[]" l ls n] ok ns by simp
  have e: "l' = (let l1 = l\<lparr>total_qty := total_qty l - q\<rparr> in if is_filled (st2 n) then lvl_remove st2 n l1 else l1)"
    and m': "m' = (if is_filled (st2 n) then m(ord_id (st n) := None) else m)"
    using eq st2(1) by (auto simp: settle_def Let_def split: if_splits)
  have kn: "st2 k = st k" if "k \<in> set ns" for k using that st2(2) [of k] ns nn by auto
  have sm: "(\<Sum>k\<leftarrow>ns. remaining_quantity (st2 k)) = (\<Sum>k\<leftarrow>ns. remaining_quantity (st k))"
    using kn by (intro sum_list_map_cong) simp
  have "lvl_ok st2 s (l\<lparr>total_qty := total_qty l - q\<rparr>)"
    using l ns nn sm st2(1) kn by (simp add: lvl_ok_def)
  then have "lvl_orders l' = [] \<or> lvl_ok st2 s l'"
    using e ns lvl_remove_ok [of st2 s "l\<lparr>total_qty := total_qty l - q\<rparr>" n] by (auto simp: Let_def)
  moreover have "st2 k = st k" if "k \<in> set (refs ls)" for k using that st2(2) [of k] nls by auto
  moreover have "lvl_price l' = lvl_price l" using e by (simp add: Let_def)
  ultimately show "side_ok st2 s (push_nonempty l' ls)"
    using side_ok_replace [of st s "[]" l ls l' st2] ok by simp
  show "m' = (if is_filled (st2 n) then m(ord_id (st n) := None) else m)" by (rule m')
  show "set (refs (push_nonempty l' ls)) = set (refs (l # ls)) - {k. k = n \<and> is_filled (st2 n)}"
    using e ns nn nls by (auto simp: Let_def)
  show "refs (push_nonempty l' ls) = (if is_filled (st2 n) then tl (refs (l # ls)) else refs (l # ls))"
    using e ns by (auto simp: Let_def)
qed

lemma sides_disjoint:
  assumes "book_ok b"
  shows "set (refs (bid_levels b)) \<inter> set (refs (ask_levels b)) = {}"
  using assms side_okD [of "ob_store b" Side_Buy "bid_levels b"] side_okD [of "ob_store b" Side_Sell "ask_levels b"]
  by (fastforce simp: book_ok_def)

lemma index_filter:
  assumes "index_ok m L ident" "n \<in> L"
  shows "index_ok (if c then m(ident n := None) else m) (L - {k. k = n \<and> c}) ident"
  using assms index_remove [OF assms] by auto

definition fill_of :: "(oref \<Rightarrow> order) \<Rightarrow> oref \<Rightarrow> oref \<Rightarrow> quantity" where
  "fill_of st bn an = min (remaining_quantity (st bn)) (remaining_quantity (st an))"

definition trade_of :: "(oref \<Rightarrow> order) \<Rightarrow> oref \<Rightarrow> oref \<Rightarrow> trade" where
  "trade_of st bn an =
    \<lparr>bid_trade = \<lparr>ti_order_id = ord_id (st bn), ti_price = ord_price (st bn), ti_quantity = fill_of st bn an\<rparr>,
     ask_trade = \<lparr>ti_order_id = ord_id (st an), ti_price = ord_price (st an), ti_quantity = fill_of st bn an\<rparr>\<rparr>"

definition traded_store :: "(oref \<Rightarrow> order) \<Rightarrow> oref \<Rightarrow> oref \<Rightarrow> (oref \<Rightarrow> order)" where
  "traded_store st bn an = st(bn := reduce (fill_of st bn an) (st bn), an := reduce (fill_of st bn an) (st an))"

lemma match_trade_ok:
  assumes ok: "book_ok b"
    and bl: "bid_levels b = bl # bls" "lvl_orders bl = bn # bns"
    and al: "ask_levels b = al # als" "lvl_orders al = an # ans"
  obtains b' where "match_trade bl bls bn al als an b = Match_Next b' [trade_of (ob_store b) bn an]"
    "ob_store b' = traded_store (ob_store b) bn an" "ob_next_ref b' = ob_next_ref b" "book_ok b'"
    "refs (bid_levels b') = (if is_filled (ob_store b' bn) then tl (refs (bid_levels b)) else refs (bid_levels b))"
    "refs (ask_levels b') = (if is_filled (ob_store b' an) then tl (refs (ask_levels b)) else refs (ask_levels b))"
proof -
  let ?st = "ob_store b" and ?q = "fill_of (ob_store b) bn an" and ?st2 = "traded_store (ob_store b) bn an"
  have rb: "bn \<in> set (refs (bid_levels b))" "an \<in> set (refs (ask_levels b))" using bl al by simp_all
  then have ne: "bn \<noteq> an" and bd: "set (refs (bid_levels b)) \<inter> set (refs (ask_levels b)) = {}"
    using sides_disjoint [OF ok] by auto
  obtain bl' m1 where sb: "settle ?st2 bn ?q bl (order_map b) = (bl', m1)" by fastforce
  obtain al' m2 where sa: "settle ?st2 an ?q al m1 = (al', m2)" by fastforce
  define b' where "b' = b\<lparr>ob_store := ?st2, order_map := m2, bid_levels := push_nonempty bl' bls, ask_levels := push_nonempty al' als\<rparr>"
  have mt: "match_trade bl bls bn al als an b = Match_Next b' [trade_of ?st bn an]"
    using ne sb sa
    by (simp add: match_trade_def Let_def order_fill_def fill_of_def traded_store_def reduce_def trade_of_def b'_def)
  have so: "side_ok ?st Side_Buy (bl # bls)" "side_ok ?st Side_Sell (al # als)"
    and ix: "index_ok (order_map b) (linked b) (\<lambda>n. ord_id (?st n))"
    using ok bl al by (simp_all add: book_ok_def)
  have st2: "?st2 bn = reduce ?q (?st bn)" "?st2 an = reduce ?q (?st an)"
    "\<And>k. k \<noteq> bn \<Longrightarrow> k \<noteq> an \<Longrightarrow> ?st2 k = ?st k"
    using ne by (simp_all add: traded_store_def)
  have ida: "ord_id (?st2 n) = ord_id (?st n)" for n by (simp add: traded_store_def)
  have kb: "?st2 k = ?st k" if "k \<in> set (refs (bl # bls))" "k \<noteq> bn" for k
    using that st2(3) [of k] bd rb(2) bl(1) by (metis IntI empty_iff)
  have ka: "?st2 k = ?st k" if "k \<in> set (refs (al # als))" "k \<noteq> an" for k
    using that st2(3) [of k] bd rb(1) al(1) by (metis IntI empty_iff)
  note B = settle_side [OF so(1) bl(2) st2(1) kb sb]
  note A = settle_side [OF so(2) al(2) st2(2) ka sa]
  let ?L1 = "linked b - {k. k = bn \<and> is_filled (?st2 bn)}"
  have i1: "index_ok m1 ?L1 (\<lambda>n. ord_id (?st n))"
    using index_filter [OF ix, of bn "is_filled (?st2 bn)"] rb B(4) by (simp add: linked_def)
  have i2: "index_ok m2 (?L1 - {k. k = an \<and> is_filled (?st2 an)}) (\<lambda>n. ord_id (?st n))"
    using index_filter [OF i1, of an "is_filled (?st2 an)"] rb A(4) ne by (auto simp: linked_def)
  have li: "linked b' = ?L1 - {k. k = an \<and> is_filled (?st2 an)}"
    using B(2) A(2) bd rb bl al by (auto simp: linked_def b'_def)
  have "book_ok b'"
    using B(1) A(1) i2 li ok ida by (auto simp: book_ok_def b'_def)
  with mt B(3) A(3) bl al show thesis by (intro that [of b']) (simp_all add: b'_def)
qed

text \<open>
  The trades between the two best orders, until the book is uncrossed: what the matching loop does
  on a well-formed book, as a relation.
\<close>

inductive matched :: "orderbook \<Rightarrow> trade list \<Rightarrow> orderbook \<Rightarrow> bool" where
  matched_done: "uncrossed b \<Longrightarrow> matched b [] b"
| matched_trade: "\<lbrakk>refs (bid_levels b) = bn # bns; refs (ask_levels b) = an # ans;
     ord_price (ob_store b bn) \<ge> ord_price (ob_store b an);
     ob_store b1 = traded_store (ob_store b) bn an; ob_next_ref b1 = ob_next_ref b;
     refs (bid_levels b1) = (if is_filled (ob_store b1 bn) then bns else bn # bns);
     refs (ask_levels b1) = (if is_filled (ob_store b1 an) then ans else an # ans);
     book_ok b1; matched b1 ts b2\<rbrakk>
   \<Longrightarrow> matched b (trade_of (ob_store b) bn an # ts) b2"

lemma book_nonempty_levels:
  assumes "book_ok b"
  shows "bid_levels b = bl # bls \<Longrightarrow> \<exists>n ns. lvl_orders bl = n # ns \<and> ord_price (ob_store b n) = lvl_price bl"
    and "ask_levels b = al # als \<Longrightarrow> \<exists>n ns. lvl_orders al = n # ns \<and> ord_price (ob_store b n) = lvl_price al"
  using assms by (cases "lvl_orders bl"; cases "lvl_orders al"; auto simp: book_ok_def side_ok_def lvl_ok_def)+

lemma match_step_ok:
  assumes ok: "book_ok b"
  obtains (brk) "match_step b = Match_Break" "uncrossed b"
  | (trd) bn bns an ans b1 where "match_step b = Match_Next b1 [trade_of (ob_store b) bn an]"
    "refs (bid_levels b) = bn # bns" "refs (ask_levels b) = an # ans"
    "ord_price (ob_store b bn) \<ge> ord_price (ob_store b an)"
    "ob_store b1 = traded_store (ob_store b) bn an" "ob_next_ref b1 = ob_next_ref b"
    "refs (bid_levels b1) = (if is_filled (ob_store b1 bn) then bns else bn # bns)"
    "refs (ask_levels b1) = (if is_filled (ob_store b1 an) then ans else an # ans)" "book_ok b1"
proof (cases "uncrossed b")
  case True
  then have "match_step b = Match_Break"
    by (auto simp: match_step_def uncrossed_def split: list.splits)
  with True brk show thesis by blast
next
  case False
  then obtain bl bls al als where lv: "bid_levels b = bl # bls" "ask_levels b = al # als"
    and cr: "lvl_price al \<le> lvl_price bl" by (auto simp: uncrossed_def split: list.splits)
  obtain bn bns where bn: "lvl_orders bl = bn # bns" "ord_price (ob_store b bn) = lvl_price bl"
    using book_nonempty_levels(1) [OF ok lv(1)] by blast
  obtain an ans where an: "lvl_orders al = an # ans" "ord_price (ob_store b an) = lvl_price al"
    using book_nonempty_levels(2) [OF ok lv(2)] by blast
  have "bn \<in> linked b" "an \<in> linked b" using lv bn an by (simp_all add: linked_def)
  then have "order_map b (ord_id (ob_store b bn)) = Some bn" "order_map b (ord_id (ob_store b an)) = Some an"
    using index_linked [OF ok] by simp_all
  then have ms: "match_step b = match_trade bl bls bn al als an b"
    using lv bn an cr by (simp add: match_step_def)
  obtain b' where "match_trade bl bls bn al als an b = Match_Next b' [trade_of (ob_store b) bn an]"
    "ob_store b' = traded_store (ob_store b) bn an" "ob_next_ref b' = ob_next_ref b" "book_ok b'"
    "refs (bid_levels b') = (if is_filled (ob_store b' bn) then tl (refs (bid_levels b)) else refs (bid_levels b))"
    "refs (ask_levels b') = (if is_filled (ob_store b' an) then tl (refs (ask_levels b)) else refs (ask_levels b))"
    by (rule match_trade_ok [OF ok lv(1) bn(1) lv(2) an(1)])
  with ms lv bn an cr show thesis by (intro trd [of b' bn an]) simp_all
qed

lemma match_loop_matched:
  assumes "book_ok b"
  shows "\<exists>b' ts. match_loop b acc = Inr (b', acc @ ts) \<and> matched b ts b' \<and> book_ok b'"
  using assms
proof (induction b acc rule: match_loop.induct)
  case (1 b acc)
  from \<open>book_ok b\<close> show ?case
  proof (cases rule: match_step_ok)
    case brk
    then show ?thesis using 1(2) by (subst match_loop.simps) (auto intro: matched_done)
  next
    case (trd bn bns an ans b1)
    from 1(1) [OF trd(1) trd(9)] obtain b' ts where
      "match_loop b1 (acc @ [trade_of (ob_store b) bn an]) = Inr (b', (acc @ [trade_of (ob_store b) bn an]) @ ts)"
      "matched b1 ts b'" "book_ok b'" by blast
    with trd show ?thesis
      by (subst match_loop.simps) (auto intro!: exI [of _ b'] matched_trade)
  qed
qed

end
