(* ===== verification/Orderbook_Match.thy ===== *)
theory Orderbook_Match
  imports Orderbook_Inv
begin

text \<open>
  What matching does to a well-formed book, by rule induction on \<open>matched\<close>: each side is consumed
  from the front (price first, then arrival), quantities are conserved order by order, every trade is
  at crossing prices, and matching ends uncrossed. From these follow the contracts of \<open>add_order\<close>,
  \<open>match_order\<close> and \<open>modify_order\<close>, fill-or-kill and immediate-or-cancel included.
\<close>

text \<open>The quantity that the trades of a list move for one order id.\<close>

definition traded :: "order_id \<Rightarrow> trade list \<Rightarrow> nat" where
  "traded i ts = (\<Sum>t\<leftarrow>ts. (if ti_order_id (bid_trade t) = i then unat (ti_quantity (bid_trade t)) else 0) +
     (if ti_order_id (ask_trade t) = i then unat (ti_quantity (ask_trade t)) else 0))"

definition volume :: "trade list \<Rightarrow> nat" where
  "volume ts = (\<Sum>t\<leftarrow>ts. unat (ti_quantity (bid_trade t)))"

definition open_qty :: "(oref \<Rightarrow> order) \<Rightarrow> oref set \<Rightarrow> nat" where
  "open_qty st N = (\<Sum>n\<in>N. unat (remaining_quantity (st n)))"

text \<open>One side after matching: a prefix of the queue is filled, the orders behind the new front are untouched.\<close>

definition consumed :: "(oref \<Rightarrow> order) \<Rightarrow> oref list \<Rightarrow> (oref \<Rightarrow> order) \<Rightarrow> oref list \<Rightarrow> bool" where
  "consumed st xs st' ys \<longleftrightarrow> (\<exists>k\<le>length xs. ys = drop k xs \<and> (\<forall>n\<in>set (take k xs). remaining_quantity (st' n) = 0) \<and>
     (\<forall>n\<in>set (drop (Suc k) xs). st' n = st n))"

definition same_terms :: "order \<Rightarrow> order \<Rightarrow> bool" where
  "same_terms a b \<longleftrightarrow> ord_type a = ord_type b \<and> ord_id a = ord_id b \<and> ord_side a = ord_side b \<and>
     ord_price a = ord_price b \<and> initial_quantity a = initial_quantity b"

subsection \<open>Trades\<close>

lemma traded_simps [simp]:
  "traded i [] = 0"
  "traded i (t # ts) = (if ti_order_id (bid_trade t) = i then unat (ti_quantity (bid_trade t)) else 0) +
     (if ti_order_id (ask_trade t) = i then unat (ti_quantity (ask_trade t)) else 0) + traded i ts"
  by (simp_all add: traded_def)

lemma volume_simps [simp]: "volume [] = 0" "volume (t # ts) = unat (ti_quantity (bid_trade t)) + volume ts"
  by (simp_all add: volume_def)

lemma trade_of_simps [simp]:
  "ti_order_id (bid_trade (trade_of st bn an)) = ord_id (st bn)" "ti_order_id (ask_trade (trade_of st bn an)) = ord_id (st an)"
  "ti_price (bid_trade (trade_of st bn an)) = ord_price (st bn)" "ti_price (ask_trade (trade_of st bn an)) = ord_price (st an)"
  "ti_quantity (bid_trade (trade_of st bn an)) = fill_of st bn an" "ti_quantity (ask_trade (trade_of st bn an)) = fill_of st bn an"
  by (simp_all add: trade_of_def)

lemma fill_of_le: "fill_of st bn an \<le> remaining_quantity (st bn)" "fill_of st bn an \<le> remaining_quantity (st an)"
  by (simp_all add: fill_of_def)

lemma traded_store_other [simp]: "k \<noteq> bn \<Longrightarrow> k \<noteq> an \<Longrightarrow> traded_store st bn an k = st k"
  by (simp add: traded_store_def)

lemma same_terms_refl [simp]: "same_terms a a"
  by (simp add: same_terms_def)

lemma same_terms_trans: "same_terms a b \<Longrightarrow> same_terms b c \<Longrightarrow> same_terms a c"
  by (simp add: same_terms_def)

lemma traded_store_terms: "same_terms (traded_store st bn an n) (st n)"
  by (simp add: same_terms_def traded_store_def)

lemma traded_store_remaining:
  "bn \<noteq> an \<Longrightarrow> unat (remaining_quantity (traded_store st bn an n)) =
     unat (remaining_quantity (st n)) - (if n = bn \<or> n = an then unat (fill_of st bn an) else 0)"
  using fill_of_le [of st bn an] by (auto simp: traded_store_def unat_sub_le)

lemma fill_of_unat_le:
  "unat (fill_of st bn an) \<le> unat (remaining_quantity (st bn))" "unat (fill_of st bn an) \<le> unat (remaining_quantity (st an))"
  using fill_of_le word_le_nat_alt by blast+

lemma consumed_refl: "consumed st xs st xs"
  by (auto simp: consumed_def intro!: exI [of _ 0])

lemma consumed_step:
  assumes d: "distinct (x # xs)" and st1: "\<And>n. n \<in> set xs \<Longrightarrow> st1 n = st n"
    and c: "consumed st1 (if is_filled (st1 x) then xs else x # xs) st2 ys"
    and fr: "is_filled (st1 x) \<Longrightarrow> st2 x = st1 x"
  shows "consumed st (x # xs) st2 ys"
proof (cases "is_filled (st1 x)")
  case True
  with c obtain k where k: "k \<le> length xs" "ys = drop k xs" "\<forall>n\<in>set (take k xs). remaining_quantity (st2 n) = 0"
    "\<forall>n\<in>set (drop (Suc k) xs). st2 n = st1 n" by (auto simp: consumed_def)
  have "\<forall>n\<in>set (drop (Suc k) xs). st2 n = st n" using k(4) st1 by (metis in_set_dropD)
  with k True fr show ?thesis unfolding consumed_def is_filled_def
    by (intro exI [of _ "Suc k"]) auto
next
  case False
  with c obtain k where k: "k \<le> length (x # xs)" "ys = drop k (x # xs)"
    "\<forall>n\<in>set (take k (x # xs)). remaining_quantity (st2 n) = 0"
    "\<forall>n\<in>set (drop k xs). st2 n = st1 n" by (auto simp: consumed_def)
  have "\<forall>n\<in>set (drop k xs). st2 n = st n" using k(4) st1 by (metis in_set_dropD)
  with k show ?thesis unfolding consumed_def by (intro exI [of _ k]) auto
qed

subsection \<open>Matching\<close>

lemma side_distinct: "side_ok st s ls \<Longrightarrow> distinct (refs ls)"
proof (induction ls)
  case (Cons l ls)
  then have "set (lvl_orders l) \<inter> set (refs ls) = {}"
    using distinct_other_levels [of st s "[]" l ls] by auto
  with Cons show ?case by (auto simp: side_ok_def lvl_ok_def)
qed simp

lemma book_distinct:
  "book_ok b \<Longrightarrow> distinct (refs (bid_levels b))" "book_ok b \<Longrightarrow> distinct (refs (ask_levels b))"
  by (auto simp: book_ok_def intro: side_distinct)

lemma matched_uncrossed: "matched b ts b' \<Longrightarrow> uncrossed b'"
  by (induction rule: matched.induct) simp_all

lemma matched_next_ref [simp]: "matched b ts b' \<Longrightarrow> ob_next_ref b' = ob_next_ref b"
  by (induction rule: matched.induct) simp_all

lemma matched_terms: "matched b ts b' \<Longrightarrow> same_terms (ob_store b' n) (ob_store b n)"
  by (induction rule: matched.induct) (auto intro: same_terms_trans traded_store_terms)

lemma matched_prices: "matched b ts b' \<Longrightarrow> t \<in> set ts \<Longrightarrow>
    ti_price (bid_trade t) \<ge> ti_price (ask_trade t) \<and> ti_quantity (bid_trade t) = ti_quantity (ask_trade t)"
  by (induction rule: matched.induct) auto

lemma matched_trade_linked:
  assumes "refs (bid_levels b) = bn # bns" "refs (ask_levels b) = an # ans"
    and "refs (bid_levels b1) = (if c then bns else bn # bns)" "refs (ask_levels b1) = (if d then ans else an # ans)"
  shows "linked b1 \<subseteq> linked b" "bn \<in> linked b" "an \<in> linked b"
  using assms by (auto simp: linked_def)

lemma matched_linked: "matched b ts b' \<Longrightarrow> linked b' \<subseteq> linked b"
proof (induction rule: matched.induct)
  case (matched_trade b bn bns an ans b1 ts b2)
  with matched_trade_linked(1) [OF matched_trade.hyps(1,2,6,7)] show ?case by blast
qed simp

lemma matched_frame: "matched b ts b' \<Longrightarrow> n \<notin> linked b \<Longrightarrow> ob_store b' n = ob_store b n"
proof (induction rule: matched.induct)
  case (matched_trade b bn bns an ans b1 ts b2)
  have "n \<notin> linked b1" "n \<noteq> bn" "n \<noteq> an"
    using matched_trade_linked [OF matched_trade.hyps(1,2,6,7)] matched_trade.prems by auto
  with matched_trade.IH matched_trade.hyps(4) show ?case by simp
qed simp

text \<open>The two orders of a step and the sides they are on.\<close>

lemma matched_heads:
  assumes "book_ok b" "refs (bid_levels b) = bn # bns" "refs (ask_levels b) = an # ans"
  shows "bn \<noteq> an" "an \<notin> set bns" "bn \<notin> set ans" "distinct (bn # bns)" "distinct (an # ans)"
    "set bns \<inter> set ans = {}"
  using book_distinct [OF assms(1)] sides_disjoint [OF assms(1)] assms(2,3) by auto

lemma matched_filled_frame:
  assumes "book_ok b" "refs (bid_levels b) = bn # bns" "refs (ask_levels b) = an # ans"
    and "refs (bid_levels b1) = (if is_filled (ob_store b1 bn) then bns else bn # bns)"
    and "refs (ask_levels b1) = (if is_filled (ob_store b1 an) then ans else an # ans)"
    and m: "matched b1 ts b2"
  shows "is_filled (ob_store b1 bn) \<Longrightarrow> ob_store b2 bn = ob_store b1 bn"
    and "is_filled (ob_store b1 an) \<Longrightarrow> ob_store b2 an = ob_store b1 an"
  using matched_frame [OF m, of bn] matched_frame [OF m, of an] matched_heads [OF assms(1-3)] assms(4,5)
  by (auto simp: linked_def split: if_splits)

lemma matched_consumed:
  "matched b ts b' \<Longrightarrow> book_ok b \<Longrightarrow>
   consumed (ob_store b) (refs (levels s b)) (ob_store b') (refs (levels s b'))"
proof (induction rule: matched.induct)
  case (matched_trade b bn bns an ans b1 ts b2)
  note hd = matched_heads [OF matched_trade.prems matched_trade.hyps(1,2)]
  note fr = matched_filled_frame [OF matched_trade.prems matched_trade.hyps(1,2,6,7,9)]
  have c: "consumed (ob_store b1) (refs (levels s b1)) (ob_store b2) (refs (levels s b2))"
    using matched_trade.IH matched_trade.hyps(8) by simp
  have "ob_store b1 k = ob_store b k" if "k \<in> set bns \<union> set ans" for k
    using that hd matched_trade.hyps(4) by (auto intro!: traded_store_other)
  then show ?case
    using consumed_step [OF hd(4), of "ob_store b1" "ob_store b" "ob_store b2" "refs (levels s b2)"]
      consumed_step [OF hd(5), of "ob_store b1" "ob_store b" "ob_store b2" "refs (levels s b2)"]
      c fr matched_trade.hyps(1,2,6,7) by (cases s) (simp_all add: levels_def)
qed (simp add: consumed_refl)

lemma matched_untraded:
  "matched b ts b' \<Longrightarrow> (\<And>n. n \<in> linked b \<Longrightarrow> ord_id (ob_store b n) \<noteq> i) \<Longrightarrow> traded i ts = 0"
proof (induction rule: matched.induct)
  case (matched_trade b bn bns an ans b1 ts b2)
  note li = matched_trade_linked [OF matched_trade.hyps(1,2,6,7)]
  have "ord_id (ob_store b1 n) = ord_id (ob_store b n)" for n
    using traded_store_terms matched_trade.hyps(4) by (simp add: same_terms_def)
  with matched_trade.IH matched_trade.prems li show ?case by auto
qed simp

lemma matched_conserved:
  "matched b ts b' \<Longrightarrow> book_ok b \<Longrightarrow> n \<in> linked b \<Longrightarrow>
   unat (remaining_quantity (ob_store b n)) = unat (remaining_quantity (ob_store b' n)) + traded (ord_id (ob_store b n)) ts"
proof (induction rule: matched.induct)
  case (matched_trade b bn bns an ans b1 ts b2)
  note li = matched_trade_linked [OF matched_trade.hyps(1,2,6,7)]
  note hd = matched_heads [OF matched_trade.prems(1) matched_trade.hyps(1,2)]
  have id: "ord_id (ob_store b1 k) = ord_id (ob_store b k)" for k
    using traded_store_terms matched_trade.hyps(4) by (simp add: same_terms_def)
  have ix: "index_ok (order_map b) (linked b) (\<lambda>n. ord_id (ob_store b n))"
    using matched_trade.prems(1) by (simp add: book_ok_def)
  have eq: "ord_id (ob_store b k) = ord_id (ob_store b n) \<longleftrightarrow> k = n" if "k \<in> linked b" for k
    using index_inj [OF ix] that matched_trade.prems(2) by auto
  have rest: "unat (remaining_quantity (ob_store b1 n)) =
      unat (remaining_quantity (ob_store b2 n)) + traded (ord_id (ob_store b n)) ts"
  proof (cases "n \<in> linked b1")
    case True
    with matched_trade.IH matched_trade.hyps(8) id show ?thesis by simp
  next
    case False
    have "traded (ord_id (ob_store b n)) ts = 0"
    proof (rule matched_untraded [OF matched_trade.hyps(9)])
      fix k assume "k \<in> linked b1"
      with li(1) eq False show "ord_id (ob_store b1 k) \<noteq> ord_id (ob_store b n)" unfolding id by blast
    qed
    with matched_frame [OF matched_trade.hyps(9) False] show ?thesis by simp
  qed
  have "unat (remaining_quantity (ob_store b n)) = unat (remaining_quantity (ob_store b1 n)) +
      (if n = bn \<or> n = an then unat (fill_of (ob_store b) bn an) else 0)"
    using traded_store_remaining [OF hd(1), of "ob_store b" n] fill_of_unat_le [of "ob_store b" bn an] matched_trade.hyps(4)
    by auto
  with rest eq [OF li(2)] eq [OF li(3)] hd(1) show ?case by auto
qed simp

lemma matched_single:
  "matched b ts b' \<Longrightarrow> book_ok b \<Longrightarrow> n \<in> linked b \<Longrightarrow>
   (\<And>k m. k \<in> set (refs (bid_levels b)) \<Longrightarrow> m \<in> set (refs (ask_levels b)) \<Longrightarrow>
     ord_price (ob_store b m) \<le> ord_price (ob_store b k) \<Longrightarrow> k = n \<or> m = n) \<Longrightarrow>
   traded (ord_id (ob_store b n)) ts = volume ts"
proof (induction rule: matched.induct)
  case (matched_trade b bn bns an ans b1 ts b2)
  note li = matched_trade_linked [OF matched_trade.hyps(1,2,6,7)]
  note hd = matched_heads [OF matched_trade.prems(1) matched_trade.hyps(1,2)]
  have tm: "ord_id (ob_store b1 k) = ord_id (ob_store b k)" "ord_price (ob_store b1 k) = ord_price (ob_store b k)" for k
    using traded_store_terms matched_trade.hyps(4) by (simp_all add: same_terms_def)
  have ix: "index_ok (order_map b) (linked b) (\<lambda>n. ord_id (ob_store b n))"
    using matched_trade.prems(1) by (simp add: book_ok_def)
  have nn: "n = bn \<or> n = an"
    using matched_trade.prems(3) [of bn an] matched_trade.hyps(1-3) by auto
  have ids: "ord_id (ob_store b bn) \<noteq> ord_id (ob_store b an)"
    using index_inj [OF ix li(2,3)] hd(1) by blast
  have sub: "set (refs (bid_levels b1)) \<subseteq> set (refs (bid_levels b))" "set (refs (ask_levels b1)) \<subseteq> set (refs (ask_levels b))"
    using matched_trade.hyps(1,2,6,7) by auto
  have "traded (ord_id (ob_store b n)) ts = volume ts"
  proof (cases "n \<in> linked b1")
    case True
    have "traded (ord_id (ob_store b1 n)) ts = volume ts"
    proof (rule matched_trade.IH [OF matched_trade.hyps(8) True])
      fix k m assume "k \<in> set (refs (bid_levels b1))" "m \<in> set (refs (ask_levels b1))"
        "ord_price (ob_store b1 m) \<le> ord_price (ob_store b1 k)"
      with sub show "k = n \<or> m = n" by (intro matched_trade.prems(3)) (auto simp: tm)
    qed
    then show ?thesis by (simp add: tm)
  next
    case False
    have "ts = []"
    proof (rule ccontr)
      assume "ts \<noteq> []"
      with matched_trade.hyps(9) obtain k ks m ms where km: "refs (bid_levels b1) = k # ks" "refs (ask_levels b1) = m # ms"
        "ord_price (ob_store b1 m) \<le> ord_price (ob_store b1 k)" by (auto elim: matched.cases)
      with sub have "k = n \<or> m = n" by (intro matched_trade.prems(3)) (auto simp: tm)
      with km False show False by (auto simp: linked_def)
    qed
    then show ?thesis by simp
  qed
  with nn ids show ?case by auto
qed simp

lemma open_qty_remove:
  "finite N \<Longrightarrow> remaining_quantity (st n) = 0 \<Longrightarrow> open_qty st (N - {n}) = open_qty st N"
  by (cases "n \<in> N") (simp_all add: open_qty_def sum.remove)

lemma open_qty_traded:
  assumes "finite N" "bn \<noteq> an" "(bn \<in> N) \<noteq> (an \<in> N)"
  shows "open_qty st N = open_qty (traded_store st bn an) N + unat (fill_of st bn an)"
proof -
  obtain k where k: "k \<in> N" "k = bn \<or> k = an" "\<And>x. x \<in> N - {k} \<Longrightarrow> x \<noteq> bn \<and> x \<noteq> an" using assms(3) by blast
  have "open_qty (traded_store st bn an) (N - {k}) = open_qty st (N - {k})"
    unfolding open_qty_def using k(3) by (intro sum.cong) auto
  moreover have "unat (remaining_quantity (st k)) = unat (remaining_quantity (traded_store st bn an k)) + unat (fill_of st bn an)"
    using traded_store_remaining [OF assms(2), of st k] fill_of_unat_le [of st bn an] k(2) by auto
  ultimately show ?thesis using k(1) assms(1) by (simp add: open_qty_def sum.remove [of N k])
qed

lemma front_set:
  "distinct (x # xs) \<Longrightarrow> ys = (if c then xs else x # xs) \<Longrightarrow> set ys = set (x # xs) \<or> set ys = set (x # xs) - {x} \<and> c"
  by simp

lemma matched_volume:
  "matched b ts b' \<Longrightarrow> book_ok b \<Longrightarrow>
   open_qty (ob_store b) (set (refs (levels s b))) = open_qty (ob_store b') (set (refs (levels s b))) + volume ts"
proof (induction rule: matched.induct)
  case (matched_trade b bn bns an ans b1 ts b2)
  note hd = matched_heads [OF matched_trade.prems matched_trade.hyps(1,2)]
  note fr = matched_filled_frame [OF matched_trade.prems matched_trade.hyps(1,2,6,7,9)]
  let ?N = "set (refs (levels s b))" and ?N1 = "set (refs (levels s b1))"
  have "(bn \<in> ?N) \<noteq> (an \<in> ?N)" using hd matched_trade.hyps(1,2) by (cases s) (auto simp: levels_def)
  then have "open_qty (ob_store b) ?N = open_qty (ob_store b1) ?N + unat (fill_of (ob_store b) bn an)"
    unfolding matched_trade.hyps(4) by (intro open_qty_traded hd(1)) simp
  moreover have "?N1 = ?N \<or> (\<exists>k. ?N1 = ?N - {k} \<and> remaining_quantity (ob_store b1 k) = 0 \<and> ob_store b2 k = ob_store b1 k)"
  proof (cases s)
    case Side_Buy
    then show ?thesis using front_set [OF hd(4) matched_trade.hyps(6)] fr(1) matched_trade.hyps(1)
      by (metis levels_def side.case(1) is_filled_def)
  next
    case Side_Sell
    then show ?thesis using front_set [OF hd(5) matched_trade.hyps(7)] fr(2) matched_trade.hyps(2)
      by (metis levels_def side.case(2) is_filled_def)
  qed
  then have "open_qty (ob_store b1) ?N = open_qty (ob_store b1) ?N1" "open_qty (ob_store b2) ?N = open_qty (ob_store b2) ?N1"
    by (metis open_qty_remove finite_set)+
  ultimately show ?case using matched_trade.IH matched_trade.hyps(8) by simp
qed simp

lemma matched_remaining_le:
  assumes "matched b ts b'" "book_ok b"
  shows "unat (remaining_quantity (ob_store b' n)) \<le> unat (remaining_quantity (ob_store b n))"
  using matched_conserved [OF assms, of n] matched_frame [OF assms(1), of n] by (cases "n \<in> linked b") auto

lemma matched_gone:
  assumes "matched b ts b'" "book_ok b" "n \<in> linked b" "n \<notin> linked b'"
  shows "remaining_quantity (ob_store b' n) = 0"
proof -
  obtain s where n: "n \<in> set (refs (levels s b))" using assms(3) linked_sides [of b Side_Buy] by auto
  have n': "n \<notin> set (refs (levels s b'))" using assms(4) linked_sides [of b' s] by auto
  obtain k where "refs (levels s b') = drop k (refs (levels s b))"
    "\<forall>n\<in>set (take k (refs (levels s b))). remaining_quantity (ob_store b' n) = 0"
    using matched_consumed [OF assms(1,2), of s] by (auto simp: consumed_def)
  with n n' show ?thesis by (metis Un_iff append_take_drop_id set_append)
qed

subsection \<open>The whole of \<open>match_orders\<close>\<close>

lemma level_head:
  assumes "side_ok st s (l # ls)" "k \<in> set (refs (l # ls))"
  shows "ord_price (st k) = lvl_price l \<or> before s (lvl_price l) (ord_price (st k))"
proof -
  from assms(2) obtain l' where l': "l' \<in> set (l # ls)" "k \<in> set (lvl_orders l')" by (auto simp: in_refs)
  then have "ord_price (st k) = lvl_price l'" using side_ok_price [OF assms(1)] by blast
  moreover have "l' = l \<or> before s (lvl_price l) (lvl_price l')" using l'(1) assms(1) by (auto simp: side_ok_def)
  ultimately show ?thesis by auto
qed

text \<open>Uncrossed at the best levels is uncrossed for every pair of resting orders.\<close>

lemma uncrossed_orders:
  assumes ok: "book_ok b"
  shows "uncrossed b \<longleftrightarrow> (\<forall>k\<in>set (refs (bid_levels b)). \<forall>m\<in>set (refs (ask_levels b)).
    ord_price (ob_store b k) < ord_price (ob_store b m))" (is "_ = ?R")
proof (cases "bid_levels b = [] \<or> ask_levels b = []")
  case False
  then obtain bl bls al als where lv: "bid_levels b = bl # bls" "ask_levels b = al # als"
    by (meson neq_Nil_conv)
  have so: "side_ok (ob_store b) Side_Buy (bl # bls)" "side_ok (ob_store b) Side_Sell (al # als)"
    using ok lv by (simp_all add: book_ok_def)
  have "ord_price (ob_store b k) \<le> lvl_price bl" if "k \<in> set (refs (bl # bls))" for k
    using level_head [OF so(1) that] by (auto simp: before_def)
  moreover have "lvl_price al \<le> ord_price (ob_store b m)" if "m \<in> set (refs (al # als))" for m
    using level_head [OF so(2) that] by (auto simp: before_def)
  ultimately have "?R" if "lvl_price bl < lvl_price al" using that unfolding lv by fastforce
  moreover have "lvl_price bl < lvl_price al" if "?R"
    using that book_nonempty_levels(1) [OF ok lv(1)] book_nonempty_levels(2) [OF ok lv(2)] unfolding lv by fastforce
  ultimately show ?thesis by (auto simp: uncrossed_def lv)
qed (auto simp: uncrossed_def split: list.split)

definition aggressive :: "order \<Rightarrow> bool" where
  "aggressive ord \<longleftrightarrow> ord_type ord = Fill_Or_Kill \<or> ord_type ord = Immediate_Or_Cancel"

lemma cancel_aggressive_head:
  assumes ok: "book_ok b"
  shows "cancel_aggressive s b = (case refs (levels s b) of [] \<Rightarrow> b
    | n # _ \<Rightarrow> if aggressive (ob_store b n) then cancel_order (ord_id (ob_store b n)) b else b)"
proof (cases "levels s b")
  case Nil
  then show ?thesis by (simp add: cancel_aggressive.simps)
next
  case (Cons l ls)
  have "lvl_ok (ob_store b) s l" using ok book_ok_sides [of b s] Cons by (simp add: side_ok_def)
  then obtain n ns where ns: "lvl_orders l = n # ns" by (cases "lvl_orders l") (auto simp: lvl_ok_def)
  then have "order_map b (ord_id (ob_store b n)) = Some n"
    using index_linked [OF ok, of n] linked_sides [of b s] Cons by simp
  with Cons ns show ?thesis by (simp add: cancel_aggressive.simps aggressive_def)
qed

lemma cancel_aggressive_cases:
  assumes "book_ok b"
  obtains "cancel_aggressive s b = b" "refs (levels s b) = [] \<or> \<not> aggressive (ob_store b (hd (refs (levels s b))))"
  | n ns where "cancel_aggressive s b = cancel_order (ord_id (ob_store b n)) b" "refs (levels s b) = n # ns"
    "aggressive (ob_store b n)" "order_map b (ord_id (ob_store b n)) = Some n"
proof (cases "refs (levels s b)")
  case Nil
  then show thesis using that(1) cancel_aggressive_head [OF assms, of s] by simp
next
  case (Cons n ns)
  then have "order_map b (ord_id (ob_store b n)) = Some n"
    using index_linked [OF assms, of n] linked_sides [of b s] by simp
  with Cons that cancel_aggressive_head [OF assms, of s] show thesis
    by (cases "aggressive (ob_store b n)") auto
qed

lemma cancel_aggressive_ok:
  assumes ok: "book_ok b"
  shows "book_ok (cancel_aggressive s b)" "ob_store (cancel_aggressive s b) = ob_store b"
    "ob_next_ref (cancel_aggressive s b) = ob_next_ref b"
    "linked (cancel_aggressive s b) = linked b -
       {n. refs (levels s b) \<noteq> [] \<and> n = hd (refs (levels s b)) \<and> aggressive (ob_store b n)}"
  using ok cancel_order_ok [OF ok]
  by (cases rule: cancel_aggressive_cases [OF ok, of s]; auto)+

end
