(* ===== verification/Orderbook_Props.thy ===== *)
theory Orderbook_Props
  imports Orderbook_Match
begin

text \<open>
  The contracts of the public operations of the order book, on top of the invariant
  (\<open>Orderbook_Inv\<close>) and the facts about matching (\<open>Orderbook_Match\<close>).
\<close>

text \<open>Only good-till-cancel orders rest: what \<open>add_order\<close> keeps, and \<open>modify_order\<close> relies on.\<close>

definition all_gtc :: "orderbook \<Rightarrow> bool" where
  "all_gtc b \<longleftrightarrow> (\<forall>n\<in>linked b. ord_type (ob_store b n) = Good_Till_Cancel)"

text \<open>The abstract book: for each side and price, the queue of resting orders in time order.\<close>

definition queue :: "side \<Rightarrow> price \<Rightarrow> orderbook \<Rightarrow> oref list" where
  "queue s p b = filter (\<lambda>n. ord_price (ob_store b n) = p) (refs (levels s b))"

definition drop_aggressive :: "(oref \<Rightarrow> order) \<Rightarrow> oref list \<Rightarrow> oref list" where
  "drop_aggressive st ns = (case ns of [] \<Rightarrow> [] | n # ns' \<Rightarrow> if aggressive (st n) then ns' else ns)"

subsection \<open>Cancelling\<close>

lemma opposite_simps [simp]: "opposite (opposite s) = s" "opposite s \<noteq> s" "opposite Side_Buy = Side_Sell" "opposite Side_Sell = Side_Buy"
  by (cases s; simp add: opposite_def)+

lemma opposite_neq: "s \<noteq> opposite s"
  by (cases s) simp_all

lemma side_opposite: "t = s \<or> t = opposite s"
  by (cases s; cases t) simp_all

lemma cancel_order_refs:
  assumes ok: "book_ok b" and n: "order_map b oid = Some n"
  shows "refs (levels t (cancel_order oid b)) = removeAll n (refs (levels t b))"
proof -
  let ?s = "ord_side (ob_store b n)" and ?st = "ob_store b"
  have nl: "n \<in> linked b" using linked_index [OF ok n] by simp
  obtain ys l zs where sp: "levels ?s b = ys @ l # zs" "n \<in> set (lvl_orders l)" "lvl_ok ?st ?s l"
    and c: "cancel_order oid b = (set_levels ?s (ys @ push_nonempty (lvl_remove ?st n l) zs) b)
      \<lparr>order_map := (order_map b)(oid := None)\<rparr>"
    by (rule cancel_order_split [OF ok n])
  have "side_ok ?st ?s (ys @ l # zs)" using ok book_ok_sides [of b ?s] sp(1) by simp
  then have "n \<notin> set (refs ys)" "n \<notin> set (refs zs)" using distinct_other_levels [OF _ sp(2)] by simp_all
  moreover have "remove1 n (lvl_orders l) = removeAll n (lvl_orders l)"
    using sp(3) by (simp add: lvl_ok_def distinct_remove1_removeAll)
  ultimately show ?thesis
    using side_opposite [of t ?s] linked_side(2) [OF ok nl] by (auto simp: c sp(1) removeAll_append)
qed

lemma uncrossed_sub:
  assumes "book_ok b" "book_ok b'" "uncrossed b" "\<And>s. set (refs (levels s b')) \<subseteq> set (refs (levels s b))"
    and "\<And>n. ord_price (ob_store b' n) = ord_price (ob_store b n)"
  shows "uncrossed b'"
  using assms(3,5) assms(4) [of Side_Buy] assms(4) [of Side_Sell]
  unfolding uncrossed_orders [OF assms(1)] uncrossed_orders [OF assms(2)] by (simp add: levels_def) blast

lemma cancel_order_refs_sub: "book_ok b \<Longrightarrow> set (refs (levels t (cancel_order oid b))) \<subseteq> set (refs (levels t b))"
  using cancel_order_refs [of b oid _ t] by (cases "order_map b oid") (auto simp: cancel_order_def)

lemma cancel_uncrossed: "book_ok b \<Longrightarrow> uncrossed b \<Longrightarrow> uncrossed (cancel_order oid b)"
  by (rule uncrossed_sub [of b]) (simp_all add: cancel_order_ok cancel_order_refs_sub)

lemma cancel_aggressive_refs:
  assumes ok: "book_ok b"
  shows "refs (levels t (cancel_aggressive s b)) =
    (if t = s then drop_aggressive (ob_store b) (refs (levels s b)) else refs (levels t b))"
proof (cases rule: cancel_aggressive_cases [OF ok, of s])
  case 1
  then show ?thesis by (cases "refs (levels s b)") (auto simp: drop_aggressive_def)
next
  case (2 n ns)
  have d: "distinct (refs (levels s b))" "side_ok (ob_store b) s (levels s b)" "side_ok (ob_store b) (opposite s) (levels (opposite s) b)"
    using ok book_ok_sides [of b s] side_distinct by auto
  then have "n \<notin> set ns" "n \<notin> set (refs (levels (opposite s) b))"
    using 2(2) side_okD [OF d(2), of n] side_okD [OF d(3), of n] opposite_neq [of s] by auto
  with 2 cancel_order_refs [OF ok 2(4), of t] side_opposite [of t s] show ?thesis
    by (auto simp: drop_aggressive_def)
qed

lemma cancel_aggressive_refs_sub:
  "book_ok b \<Longrightarrow> set (refs (levels t (cancel_aggressive s b))) \<subseteq> set (refs (levels t b))"
  by (cases "refs (levels s b)") (auto simp: cancel_aggressive_refs drop_aggressive_def)

lemma cancel_aggressive_uncrossed: "book_ok b \<Longrightarrow> uncrossed b \<Longrightarrow> uncrossed (cancel_aggressive s b)"
  by (rule uncrossed_sub [of b]) (simp_all add: cancel_aggressive_ok cancel_aggressive_refs_sub)

subsection \<open>The abstract book\<close>

lemma queue_split:
  assumes "side_ok st s (ys @ l # zs)"
  shows "filter (\<lambda>n. ord_price (st n) = lvl_price l) (refs ys) = []"
    "filter (\<lambda>n. ord_price (st n) = lvl_price l) (refs zs) = []"
    "filter (\<lambda>n. ord_price (st n) = lvl_price l) (lvl_orders l) = lvl_orders l"
proof -
  have srt: "price_sorted s (ys @ l # zs)" using assms by (simp add: side_ok_def)
  have "ord_price (st n) \<noteq> lvl_price l" if n: "n \<in> set (refs ys) \<union> set (refs zs)" for n
  proof -
    from n obtain l' where l': "l' \<in> set ys \<union> set zs" "n \<in> set (lvl_orders l')" by (auto simp: in_refs)
    then show ?thesis using price_sorted_neq [OF srt l'(1)] side_ok_price [OF assms, of l' n] by auto
  qed
  then show "filter (\<lambda>n. ord_price (st n) = lvl_price l) (refs ys) = []"
    "filter (\<lambda>n. ord_price (st n) = lvl_price l) (refs zs) = []"
    by (simp_all add: filter_empty_conv)
  show "filter (\<lambda>n. ord_price (st n) = lvl_price l) (lvl_orders l) = lvl_orders l"
    using assms by (simp add: side_ok_def lvl_ok_def)
qed

lemma rest_order_queue:
  assumes ok: "book_ok b" and n: "n \<notin> linked b"
  shows "queue s p (rest_order n b) = queue s p b @
    (if ord_side (ob_store b n) = s \<and> ord_price (ob_store b n) = p then [n] else [])"
proof (cases "ord_side (ob_store b n) = s")
  case False
  then show ?thesis using side_opposite [of s "ord_side (ob_store b n)"] by (auto simp: queue_def)
next
  case True
  let ?st = "ob_store b" and ?q = "ord_price (ob_store b n)"
  have so: "side_ok ?st s (levels s b)" using ok book_ok_sides [of b s] by simp
  have nr: "n \<notin> set (refs (levels s b))" using n linked_sides [of b s] by simp
  obtain ls i where f: "find_or_insert_level (levels s b) ?q s = (ls, i)" by fastforce
  have srt: "price_sorted s (levels s b)" using so by (simp add: side_ok_def)
  obtain ys l zs where r: "ls[i := lvl_append ?st n (ls ! i)] = ys @ lvl_append ?st n l # zs" and l: "lvl_price l = ?q"
    and c: "levels s b = ys @ l # zs \<or> levels s b = ys @ zs \<and> l = \<lparr>lvl_price = ?q, total_qty = 0, lvl_orders = []\<rparr>"
    by (rule find_or_insert_split [OF srt f, of "lvl_append ?st n"])
  have lv: "levels s (rest_order n b) = ys @ lvl_append ?st n l # zs"
    using True by (simp add: rest_order_def Let_def f r)
  have so': "side_ok ?st s (ys @ lvl_append ?st n l # zs)" using rest_levels_ok(1) [OF so nr True f] r by simp
  have old: "refs (levels s b) = refs ys @ lvl_orders l @ refs zs" using c by auto
  have "refs (levels s (rest_order n b)) = refs ys @ (lvl_orders l @ [n]) @ refs zs" using lv by (simp add: lvl_append_def)
  with queue_split(1,2) [OF so'] True old l show ?thesis
    by (cases "?q = p") (auto simp: queue_def lvl_append_def)
qed

lemma cancel_order_queue:
  assumes "book_ok b" "order_map b oid = Some n"
  shows "queue s p (cancel_order oid b) = removeAll n (queue s p b)"
  using cancel_order_refs [OF assms, of s] by (simp add: queue_def removeAll_filter_not_eq conj_commute)

lemma create_order_ok:
  assumes ok: "book_ok b" and c: "create_order ord b = (r, b2)"
  shows "r = ob_next_ref b" "r \<notin> linked b" "linked b2 = linked b" "order_map b2 = order_map b" "levels s b2 = levels s b"
    "ob_store b2 = (ob_store b)(r := ord)" "ob_next_ref b2 = Suc (ob_next_ref b)" "book_ok b2" "queue s p b2 = queue s p b"
proof -
  have e: "r = ob_next_ref b" "b2 = b\<lparr>ob_store := (ob_store b)(r := ord), ob_next_ref := Suc (ob_next_ref b)\<rparr>"
    using c by (auto simp: create_order_def)
  then show "r = ob_next_ref b" and li: "linked b2 = linked b" "order_map b2 = order_map b" "ob_store b2 = (ob_store b)(r := ord)"
    "ob_next_ref b2 = Suc (ob_next_ref b)" by (simp_all add: linked_def)
  show lv: "levels t b2 = levels t b" for t using e by (cases t) (simp_all add: levels_def)
  show nl: "r \<notin> linked b" using ok e(1) by (auto simp: book_ok_def)
  have st: "ob_store b2 k = ob_store b k" if "k \<in> linked b" for k using that nl e(2) by auto
  have nr: "k \<in> linked b" if "k \<in> set (refs (levels t b))" for k t using that linked_sides [of b t] by simp
  have sd: "side_ok (ob_store b2) t (levels t b)" for t
    using side_ok_cong [of "levels t b" "ob_store b2" "ob_store b" t] st nr ok book_ok_sides [of b t] by simp
  have "index_ok (order_map b) (linked b) (\<lambda>n. ord_id (ob_store b2 n))"
    using ok index_cong [of "linked b" "\<lambda>n. ord_id (ob_store b2 n)" "\<lambda>n. ord_id (ob_store b n)"] st by (simp add: book_ok_def)
  moreover have "\<forall>n\<in>linked b. n < Suc (ob_next_ref b)" using ok unfolding book_ok_def by (simp add: less_Suc_eq)
  ultimately show "book_ok b2" using sd lv li unfolding book_ok_sides [of b2 Side_Buy] by simp
  show "queue s p b2 = queue s p b" unfolding queue_def lv using st nr by (intro filter_cong) auto
qed

subsection \<open>Adding\<close>

lemma match_orders_ok:
  assumes ok: "book_ok b"
  obtains b' ts b1 where "match_orders b = Inr (b', ts)" "matched b ts b1" "book_ok b1"
    "b' = cancel_aggressive Side_Sell (cancel_aggressive Side_Buy b1)"
    "book_ok b'" "uncrossed b'" "ob_store b' = ob_store b1" "ob_next_ref b' = ob_next_ref b" "linked b' \<subseteq> linked b"
    "\<forall>t. refs (levels t b') = drop_aggressive (ob_store b1) (refs (levels t b1))"
proof -
  obtain b1 ts where m: "match_loop b [] = Inr (b1, ts)" "matched b ts b1" "book_ok b1"
    using match_loop_matched [OF ok, of "[]"] by auto
  let ?b2 = "cancel_aggressive Side_Buy b1"
  have k2: "book_ok ?b2" using m(3) by (simp add: cancel_aggressive_ok)
  have u: "uncrossed ?b2" using m cancel_aggressive_uncrossed matched_uncrossed by blast
  show thesis
  proof (rule that [OF _ m(2,3) refl])
    show "match_orders b = Inr (cancel_aggressive Side_Sell ?b2, ts)" by (simp add: match_orders_def m)
    show "linked (cancel_aggressive Side_Sell ?b2) \<subseteq> linked b"
      using matched_linked [OF m(2)] cancel_aggressive_ok(4) [OF k2] cancel_aggressive_ok(4) [OF m(3)] by blast
    show "\<forall>t. refs (levels t (cancel_aggressive Side_Sell ?b2)) = drop_aggressive (ob_store b1) (refs (levels t b1))"
    proof
      show "refs (levels t (cancel_aggressive Side_Sell ?b2)) = drop_aggressive (ob_store b1) (refs (levels t b1))" for t
        using cancel_aggressive_refs [OF k2, of t] cancel_aggressive_refs [OF m(3), of _ Side_Buy] cancel_aggressive_ok(2) [OF m(3)]
        by (cases t) simp_all
    qed
  qed (use k2 u m cancel_aggressive_ok cancel_aggressive_uncrossed in auto)
qed

lemma add_order_cases:
  assumes ok: "book_ok b" and n: "n < ob_next_ref b"
  obtains (away) "turned_away (ob_store b n) b" "add_order n b = Inr (b, [])"
  | (link) b' ts b1 where "\<not> turned_away (ob_store b n) b" "add_order n b = Inr (b', ts)"
    "book_ok (rest_order n b)" "linked (rest_order n b) = insert n (linked b)" "n \<notin> linked b"
    "matched (rest_order n b) ts b1" "book_ok b1" "b' = cancel_aggressive Side_Sell (cancel_aggressive Side_Buy b1)"
    "book_ok b'" "uncrossed b'" "ob_store b' = ob_store b1" "ob_next_ref b' = ob_next_ref b" "linked b' \<subseteq> insert n (linked b)"
    "\<forall>t. refs (levels t b') = drop_aggressive (ob_store b1) (refs (levels t b1))"
proof (cases "turned_away (ob_store b n) b")
  case True
  with away show thesis by (simp add: add_order_def)
next
  case False
  then have new: "order_map b (ord_id (ob_store b n)) = None" by (auto simp: turned_away_def)
  note r = rest_order_ok [OF ok new n]
  have nl: "n \<notin> linked b" using new index_linked [OF ok, of n] by auto
  obtain b' ts b1 where m: "match_orders (rest_order n b) = Inr (b', ts)" "matched (rest_order n b) ts b1" "book_ok b1"
    "b' = cancel_aggressive Side_Sell (cancel_aggressive Side_Buy b1)"
    "book_ok b'" "uncrossed b'" "ob_store b' = ob_store b1" "ob_next_ref b' = ob_next_ref (rest_order n b)"
    "linked b' \<subseteq> linked (rest_order n b)"
    "\<forall>t. refs (levels t b') = drop_aggressive (ob_store b1) (refs (levels t b1))"
    by (rule match_orders_ok [OF r(1)])
  have "add_order n b = Inr (b', ts)" using False m(1) by (simp add: add_order_def)
  with False r nl m show thesis by (intro link [of b' ts b1]) simp_all
qed

lemma book_best:
  assumes "book_ok b"
  shows "bid_levels b = bl # bls \<Longrightarrow> \<exists>k\<in>set (refs (bid_levels b)). ord_price (ob_store b k) = lvl_price bl"
    and "ask_levels b = al # als \<Longrightarrow> \<exists>k\<in>set (refs (ask_levels b)). ord_price (ob_store b k) = lvl_price al"
  using book_nonempty_levels(1) [OF assms] book_nonempty_levels(2) [OF assms] by fastforce+

text \<open>An order that crosses an uncrossed book becomes the front of its own side.\<close>

lemma uncrossed_before:
  assumes ok: "book_ok b" and u: "uncrossed b" and c: "can_match s p b" and l: "l \<in> set (levels s b)"
  shows "before s p (lvl_price l)"
proof -
  have so: "side_ok (ob_store b) s (levels s b)" using ok book_ok_sides [of b s] by simp
  then have "lvl_ok (ob_store b) s l" using l by (simp add: side_ok_def)
  then obtain k where k0: "k \<in> set (lvl_orders l)" "ord_price (ob_store b k) = lvl_price l"
    unfolding lvl_ok_def by (metis list.set_sel(1))
  then have k: "k \<in> set (refs (levels s b))" "ord_price (ob_store b k) = lvl_price l" using l by (auto simp: in_refs)
  show ?thesis
  proof (cases s)
    case Side_Buy
    with c obtain al als where al: "ask_levels b = al # als" "lvl_price al \<le> p" by (auto simp: can_match_def split: list.splits)
    then obtain m where "m \<in> set (refs (ask_levels b))" "ord_price (ob_store b m) = lvl_price al"
      using book_best(2) [OF ok] by blast
    with u k al(2) Side_Buy show ?thesis by (fastforce simp: uncrossed_orders [OF ok] levels_def before_def)
  next
    case Side_Sell
    with c obtain bl bls where bl: "bid_levels b = bl # bls" "p \<le> lvl_price bl" by (auto simp: can_match_def split: list.splits)
    then obtain m where "m \<in> set (refs (bid_levels b))" "ord_price (ob_store b m) = lvl_price bl"
      using book_best(1) [OF ok] by blast
    with u k bl(2) Side_Sell show ?thesis by (fastforce simp: uncrossed_orders [OF ok] levels_def before_def)
  qed
qed

lemma rest_order_front:
  assumes "book_ok b" "uncrossed b" "can_match (ord_side (ob_store b n)) (ord_price (ob_store b n)) b"
  shows "refs (levels (ord_side (ob_store b n)) (rest_order n b)) = n # refs (levels (ord_side (ob_store b n)) b)"
proof -
  let ?s = "ord_side (ob_store b n)" and ?p = "ord_price (ob_store b n)"
  have bf: "before ?s ?p (lvl_price l)" if "l \<in> set (levels ?s b)" for l using uncrossed_before [OF assms that] .
  have nb: "\<not> before ?s (lvl_price l) ?p \<and> lvl_price l \<noteq> ?p" if "l \<in> set (levels ?s b)" for l
    using bf [OF that] before_trans before_irrefl by metis
  have "find_or_insert_level (levels ?s b) ?p ?s = (\<lparr>lvl_price = ?p, total_qty = 0, lvl_orders = []\<rparr> # levels ?s b, 0)"
    using nb by (cases "levels ?s b") (auto simp: find_or_insert_level_def)
  then show ?thesis by (simp add: rest_order_def Let_def lvl_append_def)
qed

lemma rest_order_single:
  assumes "book_ok b" "uncrossed b" "n \<notin> linked b"
    and "k \<in> set (refs (bid_levels (rest_order n b)))" "m \<in> set (refs (ask_levels (rest_order n b)))"
    and "linked (rest_order n b) = insert n (linked b)" "book_ok (rest_order n b)"
    and "ord_price (ob_store b m) \<le> ord_price (ob_store b k)"
  shows "k = n \<or> m = n"
proof (rule ccontr)
  assume "\<not> ?thesis"
  then have "k \<in> linked b" "m \<in> linked b" using assms(4-6) by (auto simp: linked_def)
  moreover have "ord_side (ob_store b k) = Side_Buy" "ord_side (ob_store b m) = Side_Sell"
    using assms(4,5,7) side_okD [of "ob_store b"] by (auto simp: book_ok_def)
  ultimately have "k \<in> set (refs (bid_levels b))" "m \<in> set (refs (ask_levels b))"
    using linked_side(1) [OF assms(1), of k] linked_side(1) [OF assms(1), of m] by (simp_all add: levels_def)
  with assms(2,8) show False by (auto simp: uncrossed_orders [OF assms(1)] dest!: bspec)
qed

lemma drop_aggressive_Cons: "drop_aggressive st (n # ns) = (if aggressive (st n) then ns else n # ns)"
  by (simp add: drop_aggressive_def)

lemma drop_aggressive_sub: "n \<in> set (drop_aggressive st ns) \<Longrightarrow> n \<in> set ns"
  by (cases ns) (auto simp: drop_aggressive_def split: if_splits)

lemma add_order_consumed:
  assumes "book_ok b" "all_gtc b" "n < ob_next_ref b" "add_order n b = Inr (b', ts)"
  shows "consumed (ob_store b) (refs (levels (opposite (ord_side (ob_store b n))) b))
    (ob_store b') (refs (levels (opposite (ord_side (ob_store b n))) b'))"
  using assms(1,3)
proof (cases rule: add_order_cases)
  case away
  with assms(4) show ?thesis by (simp add: consumed_refl)
next
  case (link b'' ts' b1)
  let ?t = "opposite (ord_side (ob_store b n))"
  have eq: "b'' = b'" using link(2) assms(4) by simp
  have c: "consumed (ob_store b) (refs (levels ?t b)) (ob_store b1) (refs (levels ?t b1))"
    using matched_consumed [OF link(6,3), of ?t] by simp
  then have sub: "set (refs (levels ?t b1)) \<subseteq> linked b"
    unfolding consumed_def linked_sides [of b ?t] by (metis Un_iff in_set_dropD subsetI)
  have "\<not> aggressive (ob_store b1 k)" if "k \<in> set (refs (levels ?t b1))" for k
    using that sub assms(2) matched_terms [OF link(6), of k] by (auto simp: all_gtc_def aggressive_def same_terms_def)
  then have "drop_aggressive (ob_store b1) (refs (levels ?t b1)) = refs (levels ?t b1)"
    by (simp add: drop_aggressive_def split: list.split)
  with c link(11,14) eq show ?thesis by simp
qed

lemma add_order_aggressive:
  assumes "book_ok b" "uncrossed b" "all_gtc b" "n < ob_next_ref b" "add_order n b = Inr (b', ts)"
    and agg: "aggressive (ob_store b n)"
  shows "n \<notin> linked b'"
  using assms(1,4)
proof (cases rule: add_order_cases)
  case away
  with assms(3,5) agg show ?thesis by (auto simp: all_gtc_def aggressive_def)
next
  case (link b'' ts' b1)
  let ?s = "ord_side (ob_store b n)"
  have eq: "b'' = b'" using link(2) assms(5) by simp
  have cm: "can_match ?s (ord_price (ob_store b n)) b" using link(1) agg by (auto simp: turned_away_def aggressive_def)
  have "consumed (ob_store b) (n # refs (levels ?s b)) (ob_store b1) (refs (levels ?s b1))"
    using matched_consumed [OF link(6,3), of ?s] rest_order_front [OF assms(1,2) cm] by simp
  then obtain k where k: "refs (levels ?s b1) = drop k (n # refs (levels ?s b))" by (auto simp: consumed_def)
  have a1: "aggressive (ob_store b1 n)" using agg matched_terms [OF link(6), of n] by (simp add: aggressive_def same_terms_def)
  have nn: "n \<notin> set (refs (levels t b))" for t using link(5) linked_sides [of b t] by blast
  have "set (drop_aggressive (ob_store b1) (drop k (n # refs (levels ?s b)))) \<subseteq> set (refs (levels ?s b))"
    using a1 drop_aggressive_sub [of _ "ob_store b1"] by (cases k) (auto simp: drop_aggressive_Cons dest: in_set_dropD)
  then have "n \<notin> set (refs (levels ?s b'))" using k nn [of ?s] link(14) eq by auto
  moreover have "n \<notin> set (refs (levels (opposite ?s) b'))"
    using link(9,11) eq side_okD [of "ob_store b'" "opposite ?s" "levels (opposite ?s) b'" n] book_ok_sides [of b' ?s]
      matched_terms [OF link(6), of n] opposite_neq [of ?s] by (auto simp: same_terms_def)
  ultimately show ?thesis using linked_sides [of b' ?s] by simp
qed

lemma add_order_frame:
  assumes "book_ok b" "n < ob_next_ref b" "add_order n b = Inr (b', ts)"
  shows "linked b' \<subseteq> insert n (linked b)" "same_terms (ob_store b' k) (ob_store b k)" "ob_next_ref b' = ob_next_ref b"
  using assms(3) matched_terms by (cases rule: add_order_cases [OF assms(1,2)]; force)+

text \<open>Fill-or-kill: the depth on the other side that crosses, counted without wrap-around.\<close>

lemma unat_sum_list:
  "(\<Sum>x\<leftarrow>xs. unat (f x :: u64)) < 2 ^ 64 \<Longrightarrow> unat (\<Sum>x\<leftarrow>xs. f x) = (\<Sum>x\<leftarrow>xs. unat (f x))"
  by (induction xs) (simp_all add: unat_word_ariths)

lemma level_open_qty:
  assumes "lvl_ok st s l" "open_qty st (set (lvl_orders l)) < 2 ^ 64"
  shows "unat (total_qty l) = open_qty st (set (lvl_orders l))"
proof -
  have "open_qty st (set (lvl_orders l)) = (\<Sum>n\<leftarrow>lvl_orders l. unat (remaining_quantity (st n)))"
    using assms(1) by (simp add: open_qty_def lvl_ok_def sum_list_distinct_conv_sum_set)
  with assms unat_sum_list show ?thesis by (simp add: lvl_ok_def)
qed

lemma open_qty_union: "finite A \<Longrightarrow> finite B \<Longrightarrow> A \<inter> B = {} \<Longrightarrow> open_qty st (A \<union> B) = open_qty st A + open_qty st B"
  by (simp add: open_qty_def sum.union_disjoint)

lemma available_open:
  assumes "side_ok st t ls" "unat acc + open_qty st (set (refs ls)) < 2 ^ 64"
  shows "unat (available_loop s p acc ls) =
    unat acc + open_qty st {m \<in> set (refs ls). crosses s p (ord_price (st m))}"
  using assms
proof (induction ls arbitrary: acc)
  case Nil
  then show ?case by (simp add: open_qty_def)
next
  case (Cons l ls)
  let ?A = "set (lvl_orders l)" and ?C = "{m \<in> set (refs ls). crosses s p (ord_price (st m))}"
  have so: "side_ok st t ls" "lvl_ok st t l" using Cons.prems(1) by (auto simp: side_ok_def)
  have dj: "?A \<inter> set (refs ls) = {}" using distinct_other_levels [of st t "[]" l ls] Cons.prems(1) by auto
  have sp: "open_qty st (set (refs (l # ls))) = open_qty st ?A + open_qty st (set (refs ls))"
    using dj by (simp add: open_qty_union)
  have tq: "unat (total_qty l) = open_qty st ?A" using level_open_qty [OF so(2)] sp Cons.prems(2) by simp
  have pr: "\<forall>m\<in>?A. ord_price (st m) = lvl_price l" using so(2) by (simp add: lvl_ok_def)
  show ?case
  proof (cases "crosses s p (lvl_price l)")
    case True
    have "{m \<in> set (refs (l # ls)). crosses s p (ord_price (st m))} = ?A \<union> ?C" using pr True by auto
    moreover have "open_qty st (?A \<union> ?C) = open_qty st ?A + open_qty st ?C" using dj by (intro open_qty_union) auto
    moreover have un: "unat (acc + total_qty l) = unat acc + open_qty st ?A"
      using tq sp Cons.prems(2) by (simp add: unat_word_ariths)
    ultimately show ?thesis using True Cons.IH [OF so(1), of "acc + total_qty l"] sp Cons.prems(2) by simp
  next
    case False
    have "{m \<in> set (refs (l # ls)). crosses s p (ord_price (st m))} = ?C" using pr False by auto
    with False Cons.IH [OF so(1), of acc] sp Cons.prems(2) show ?thesis by simp
  qed
qed

lemma uncrossed_pair:
  assumes ok: "book_ok b" and u: "uncrossed b" and l: "n \<in> linked b" "m \<in> linked b"
    and s: "ord_side (ob_store b m) = opposite (ord_side (ob_store b n))"
  shows "\<not> crosses (ord_side (ob_store b n)) (ord_price (ob_store b n)) (ord_price (ob_store b m))"
proof -
  have *: "ord_price (ob_store b x) < ord_price (ob_store b y)"
    if "x \<in> set (refs (bid_levels b))" "y \<in> set (refs (ask_levels b))" for x y
    using u that unfolding uncrossed_orders [OF ok] by blast
  show ?thesis
    using linked_side(1) [OF ok l(1)] linked_side(1) [OF ok l(2)] s * [of n m] * [of m n]
    by (cases "ord_side (ob_store b n)") (simp_all add: levels_def crosses_def)
qed

text \<open>If the order is not filled by matching, then every crossing order of the other side is.\<close>

lemma matched_unfilled:
  assumes m: "matched b ts b1" and ok: "book_ok b" "book_ok b1" and n: "n \<in> linked b" and nz: "remaining_quantity (ob_store b1 n) \<noteq> 0"
    and s: "s = ord_side (ob_store b n)" and k: "k \<in> set (refs (levels (opposite s) b))"
      "crosses s (ord_price (ob_store b n)) (ord_price (ob_store b k))"
  shows "remaining_quantity (ob_store b1 k) = 0"
proof -
  have nl: "n \<in> linked b1" using matched_gone [OF m ok(1) n] nz by auto
  have kl: "k \<in> linked b" using k(1) linked_sides [of b "opposite s"] by simp
  have "ord_side (ob_store b k) = opposite s"
    using side_okD [of "ob_store b" "opposite s" "levels (opposite s) b" k] k(1) ok(1) book_ok_sides [of b "opposite s"] by simp
  moreover have "ord_side (ob_store b1 x) = ord_side (ob_store b x)" "ord_price (ob_store b1 x) = ord_price (ob_store b x)" for x
    using matched_terms [OF m, of x] by (simp_all add: same_terms_def)
  ultimately have "k \<notin> linked b1"
    using uncrossed_pair [OF ok(2) matched_uncrossed [OF m] nl, of k] k(2) s by metis
  then show ?thesis using matched_gone [OF m ok(1) kl] by simp
qed

lemma open_qty_split: "finite T \<Longrightarrow> C \<subseteq> T \<Longrightarrow> open_qty st T = open_qty st C + open_qty st (T - C)"
  using sum.subset_diff [of C T "\<lambda>n. unat (remaining_quantity (st n))"] by (simp add: open_qty_def)

lemma add_order_fok:
  assumes ok: "book_ok b" and u: "uncrossed b" and bnd: "n < ob_next_ref b" and r: "add_order n b = Inr (b', ts)"
    and fok: "ord_type (ob_store b n) = Fill_Or_Kill"
    and small: "open_qty (ob_store b) (set (refs (levels (opposite (ord_side (ob_store b n))) b))) < 2 ^ 64"
  shows "b' = b \<and> ts = [] \<or> remaining_quantity (ob_store b' n) = 0"
  using ok bnd
proof (cases rule: add_order_cases)
  case away
  with r show ?thesis by simp
next
  case (link b'' ts' b1)
  let ?st = "ob_store b" and ?st1 = "ob_store b1" and ?s = "ord_side (ob_store b n)" and ?p = "ord_price (ob_store b n)"
  let ?T = "set (refs (levels (opposite ?s) b))"
  let ?C = "{m \<in> ?T. crosses ?s ?p (ord_price (?st m))}"
  have eq: "b'' = b'" "ts' = ts" using link(2) r by simp_all
  have so: "side_ok ?st (opposite ?s) (levels (opposite ?s) b)" using ok book_ok_sides [of b ?s] by simp
  have nl: "n \<in> linked (rest_order n b)" using link(4) by simp
  have "unat (available_loop ?s ?p 0 (levels (opposite ?s) b)) = open_qty ?st ?C"
    using available_open [OF so, of 0 ?s ?p] small by simp
  moreover have "\<not> available_loop ?s ?p 0 (levels (opposite ?s) b) < remaining_quantity (?st n)"
    using link(1) fok unfolding turned_away_def by blast
  ultimately have avail: "unat (remaining_quantity (?st n)) \<le> open_qty ?st ?C"
    by (simp add: word_less_nat_alt not_less)
  have "traded (ord_id (?st n)) ts' = volume ts'"
    using matched_single [OF link(6,3) nl] rest_order_single [OF ok u link(5) _ _ link(4,3)]
    unfolding rest_order_frame(1) by blast
  then have cons: "unat (remaining_quantity (?st n)) = unat (remaining_quantity (?st1 n)) + volume ts'"
    using matched_conserved [OF link(6,3) nl] by simp
  have "remaining_quantity (?st1 n) = 0"
  proof (rule ccontr)
    assume nz: "remaining_quantity (?st1 n) \<noteq> 0"
    have "remaining_quantity (?st1 m) = 0" if "m \<in> ?C" for m
      using matched_unfilled [OF link(6,3,7) nl nz refl, of m] that by simp
    then have "open_qty ?st1 ?C = 0" by (simp add: open_qty_def)
    moreover have "open_qty ?st1 (?T - ?C) \<le> open_qty ?st (?T - ?C)"
      unfolding open_qty_def using matched_remaining_le [OF link(6,3)] by (intro sum_mono) simp
    moreover have "open_qty ?st ?T = open_qty ?st ?C + open_qty ?st (?T - ?C)" by (rule open_qty_split) auto
    moreover have "open_qty ?st1 ?T = open_qty ?st1 ?C + open_qty ?st1 (?T - ?C)" by (rule open_qty_split) auto
    moreover have "open_qty ?st ?T = open_qty ?st1 ?T + volume ts'"
      using matched_volume [OF link(6,3), of "opposite ?s"] by simp
    ultimately have "open_qty ?st ?C \<le> volume ts'" by linarith
    with avail cons have "unat (remaining_quantity (?st1 n)) = 0" by linarith
    with nz show False by (simp add: unat_eq_zero)
  qed
  with link(11) eq show ?thesis by simp
qed

subsection \<open>Level-2 data\<close>

definition l2_wiped :: "side \<Rightarrow> price \<Rightarrow> orderbook \<Rightarrow> orderbook" where
  "l2_wiped s p b = (let b1 = wipe_level s p b in set_levels s (remove_level_if_empty p (levels s b1)) b1)"

lemma drain_level_all:
  "drain_level st ns (l, m) = (l', m') \<Longrightarrow> lvl_orders l = ns \<Longrightarrow>
   lvl_orders l' = [] \<and> lvl_price l' = lvl_price l \<and> m' = (\<lambda>i. if \<exists>n\<in>set ns. ord_id (st n) = i then None else m i)"
proof (induction ns arbitrary: l m)
  case (Cons n ns)
  then show ?case by (auto simp: fun_eq_iff)
qed auto

lemma index_remove_set:
  assumes "index_ok m L ident" "N \<subseteq> L"
  shows "index_ok (\<lambda>i. if \<exists>n\<in>N. ident n = i then None else m i) (L - N) ident"
  unfolding index_ok_def
proof (intro allI)
  fix i x
  have "(m i = Some x) = (x \<in> L \<and> ident x = i)" using assms(1) by (simp add: index_ok_def)
  moreover have "x \<in> N" if "x \<in> L" "n \<in> N" "ident n = ident x" for n
    using index_inj [OF assms(1), of n x] that assms(2) by auto
  ultimately show "((if \<exists>n\<in>N. ident n = i then None else m i) = Some x) = (x \<in> L - N \<and> ident x = i)" by auto
qed

lemma find_level:
  assumes "price_sorted s ls"
  obtains (no) "find (\<lambda>l. lvl_price l = p) ls = None" "\<forall>l\<in>set ls. lvl_price l \<noteq> p"
  | (at) ys l zs where "find (\<lambda>l. lvl_price l = p) ls = Some l" "ls = ys @ l # zs" "lvl_price l = p"
    "\<forall>l'\<in>set ys \<union> set zs. lvl_price l' \<noteq> p"
proof (cases "find (\<lambda>l. lvl_price l = p) ls")
  case None
  with no show thesis by (auto simp: find_None_iff)
next
  case (Some l)
  then have l: "l \<in> set ls" "lvl_price l = p" by (auto simp: find_Some_iff)
  then obtain ys zs where sp: "ls = ys @ l # zs" by (meson split_list)
  have ps: "price_sorted s (ys @ l # zs)" using assms sp by simp
  have "\<forall>l'\<in>set ys \<union> set zs. lvl_price l' \<noteq> p" using price_sorted_neq [OF ps] l(2) by simp
  then show thesis using at [OF Some sp l(2)] by simp
qed

lemma l2_wiped_ok:
  assumes ok: "book_ok b"
  shows "book_ok (l2_wiped s p b)" "ob_store (l2_wiped s p b) = ob_store b" "ob_next_ref (l2_wiped s p b) = ob_next_ref b"
    "linked (l2_wiped s p b) \<subseteq> linked b" "order_map b i = None \<Longrightarrow> order_map (l2_wiped s p b) i = None"
    "queue t q (l2_wiped s p b) = (if t = s \<and> q = p then [] else queue t q b)"
proof -
  let ?st = "ob_store b" and ?b = "l2_wiped s p b"
  have so: "side_ok ?st s (levels s b)" "side_ok ?st (opposite s) (levels (opposite s) b)"
    using ok book_ok_sides [of b s] by simp_all
  then have srt: "price_sorted s (levels s b)" by (simp add: side_ok_def)
  have "book_ok ?b \<and> ob_store ?b = ?st \<and> ob_next_ref ?b = ob_next_ref b \<and> linked ?b \<subseteq> linked b \<and>
    (order_map b i = None \<longrightarrow> order_map ?b i = None) \<and> queue t q ?b = (if t = s \<and> q = p then [] else queue t q b)"
    using srt
  proof (cases rule: find_level [of _ _ p])
    case no
    have "remove_level_if_empty p (levels s b) = levels s b"
      unfolding remove_level_if_empty_def using no(2) by (intro erase_first_notin) auto
    then have "?b = b" using no(1) by (cases s) (simp_all add: l2_wiped_def wipe_level_def set_levels_def levels_def)
    moreover have "queue s p b = []"
      using no(2) side_ok_price [OF so(1)] by (fastforce simp: queue_def filter_empty_conv in_refs)
    ultimately show ?thesis using ok by simp
  next
    case (at ys l zs)
    let ?N = "set (lvl_orders l)"
    obtain l' m where d: "drain_level ?st (lvl_orders l) (l, order_map b) = (l', m)" by fastforce
    note dl = drain_level_all [OF d refl]
    have b: "?b = (set_levels s (ys @ zs) b)\<lparr>order_map := m\<rparr>"
      using at dl d by (cases s) (simp_all add: l2_wiped_def wipe_level_def Let_def update_first_at remove_level_at
          push_nonempty_def lvl_empty_def set_levels_def levels_def)
    have so': "side_ok ?st s (ys @ l # zs)" using so(1) at(2) by simp
    have s1: "side_ok ?st s (ys @ zs)" using so' by (auto simp: side_ok_def price_sorted_append)
    have dj: "n \<notin> set (refs (ys @ zs))" if "n \<in> ?N" for n using distinct_other_levels [OF so' that] .
    have op: "n \<notin> set (refs (levels (opposite s) b))" if "n \<in> ?N" for n
      using side_okD [OF so', of n] side_okD [OF so(2), of n] opposite_neq [of s] that by auto
    have lb: "linked b = ?N \<union> set (refs (ys @ zs)) \<union> set (refs (levels (opposite s) b))"
      "linked ?b = set (refs (ys @ zs)) \<union> set (refs (levels (opposite s) b))"
      using linked_sides [of b s] linked_sides [of ?b s] at(2) b by auto
    then have li: "linked ?b = linked b - ?N" "?N \<subseteq> linked b" using dj op by blast+
    have "index_ok m (linked b - ?N) (\<lambda>n. ord_id (?st n))"
      using index_remove_set [of "order_map b" "linked b" "\<lambda>n. ord_id (?st n)" ?N] ok li(2) dl by (simp add: book_ok_def)
    then have "book_ok ?b" using s1 so(2) li ok unfolding book_ok_sides [of _ s] by (simp add: b)
    moreover have "queue t q ?b = (if t = s \<and> q = p then [] else queue t q b)"
      using queue_split [OF so'] at(2,3) side_opposite [of t s] opposite_neq [of s] so'
      by (auto simp: queue_def b side_ok_def lvl_ok_def)
    ultimately show ?thesis using li dl by (auto simp: b)
  qed
  then show "book_ok ?b" "ob_store ?b = ?st" "ob_next_ref ?b = ob_next_ref b" "linked ?b \<subseteq> linked b"
    "order_map b i = None \<Longrightarrow> order_map ?b i = None" "queue t q ?b = (if t = s \<and> q = p then [] else queue t q b)"
    by simp_all
qed

lemma place_depth_ok:
  assumes ok: "book_ok b" and fresh: "order_map b c = None" and r: "place_depth s p q (b, c) = (b', c')"
  shows "book_ok b'" "c' = c + 1" "order_map b' = (order_map b)(c \<mapsto> ob_next_ref b)"
    "queue t x b' = queue t x b @ (if t = s \<and> x = p then [ob_next_ref b] else [])"
    "ob_store b' = (ob_store b)(ob_next_ref b := mk_order Good_Till_Cancel c s p q)" "ob_next_ref b' = Suc (ob_next_ref b)"
    "linked b' = insert (ob_next_ref b) (linked b)"
proof -
  let ?o = "mk_order Good_Till_Cancel c s p q"
  obtain b2 where c2: "create_order ?o b = (ob_next_ref b, b2)" by (simp add: create_order_def)
  note k = create_order_ok [OF ok c2]
  have b': "b' = rest_order (ob_next_ref b) b2" "c' = c + 1"
    using r c2 by (auto simp: place_depth_def order_id_next_def)
  have st: "ob_store b2 (ob_next_ref b) = ?o" using k(6) by simp
  have ro: "book_ok (rest_order (ob_next_ref b) b2)" "linked (rest_order (ob_next_ref b) b2) = insert (ob_next_ref b) (linked b2)"
    using rest_order_ok [OF k(8), of "ob_next_ref b"] k(4,7) st fresh by simp_all
  then show "book_ok b'" "c' = c + 1" "linked b' = insert (ob_next_ref b) (linked b)" using b' k(3) by simp_all
  show "order_map b' = (order_map b)(c \<mapsto> ob_next_ref b)" "ob_store b' = (ob_store b)(ob_next_ref b := ?o)"
    "ob_next_ref b' = Suc (ob_next_ref b)" using b' k st by simp_all
  show "queue t x b' = queue t x b @ (if t = s \<and> x = p then [ob_next_ref b] else [])"
    using rest_order_queue [OF k(8), of "ob_next_ref b" t x] k(2,3) k(9) [of t x] st b' by auto
qed

lemma level_infos_ok:
  assumes "side_ok st s ls"
  shows "sorted_wrt (\<lambda>i j. before s (li_price i) (li_price j)) (level_infos ls)"
    and "i \<in> set (level_infos ls) \<Longrightarrow> 0 < li_quantity i \<and>
      li_quantity i = (\<Sum>n\<leftarrow>filter (\<lambda>n. ord_price (st n) = li_price i) (refs ls). remaining_quantity (st n))"
proof -
  have "sorted_wrt (\<lambda>l l'. before s (lvl_price l) (lvl_price l')) ls" using assms by (simp add: side_ok_def price_sorted_def)
  then show "sorted_wrt (\<lambda>i j. before s (li_price i) (li_price j)) (level_infos ls)"
    by (simp add: level_infos_def sorted_wrt_map sorted_wrt_filter)
  assume "i \<in> set (level_infos ls)"
  then obtain l where l: "l \<in> set ls" "0 < total_qty l" "i = \<lparr>li_price = lvl_price l, li_quantity = total_qty l\<rparr>"
    by (auto simp: level_infos_def)
  then obtain ys zs where sp: "ls = ys @ l # zs" by (meson split_list)
  have "total_qty l = (\<Sum>n\<leftarrow>lvl_orders l. remaining_quantity (st n))" using assms l(1) by (simp add: side_ok_def lvl_ok_def)
  then show "0 < li_quantity i \<and>
      li_quantity i = (\<Sum>n\<leftarrow>filter (\<lambda>n. ord_price (st n) = li_price i) (refs ls). remaining_quantity (st n))"
    using queue_split [of st s ys l zs] assms sp l by simp
qed

end
