(* ===== verification/Orderbook_Spec.thy ===== *)
theory Orderbook_Spec
  imports Orderbook_Props
begin

text \<open>
  The order book's correctness statements, with a sample book on which each is exercised.

  \<open>sample_book\<close> has two bids of 10 and 5 at 100, asks of 7 at 102 and of 4 at 103, and three orders that
  are created but not linked: a good-till-cancel buy of 9 at 102, a fill-or-kill buy of 11 at 103 and an
  immediate-or-cancel buy of 20 at 103.
\<close>

definition sample_store :: "oref \<Rightarrow> order" where
  "sample_store n =
    (if n = 0 then mk_order Good_Till_Cancel 1 Side_Buy 100 10
     else if n = 1 then mk_order Good_Till_Cancel 2 Side_Buy 100 5
     else if n = 2 then mk_order Good_Till_Cancel 3 Side_Sell 102 7
     else if n = 3 then mk_order Good_Till_Cancel 4 Side_Sell 103 4
     else if n = 4 then mk_order Good_Till_Cancel 5 Side_Buy 102 9
     else if n = 5 then mk_order Fill_Or_Kill 6 Side_Buy 103 11
     else mk_order Immediate_Or_Cancel 7 Side_Buy 103 20)"

definition sample_book :: orderbook where
  "sample_book = \<lparr>ob_store = sample_store, ob_next_ref = 7,
     bid_levels = [\<lparr>lvl_price = 100, total_qty = 15, lvl_orders = [0, 1]\<rparr>],
     ask_levels = [\<lparr>lvl_price = 102, total_qty = 7, lvl_orders = [2]\<rparr>, \<lparr>lvl_price = 103, total_qty = 4, lvl_orders = [3]\<rparr>],
     order_map = [1 \<mapsto> 0, 2 \<mapsto> 1, 3 \<mapsto> 2, 4 \<mapsto> 3]\<rparr>"

text \<open>The open quantity at a price, and the quantity a level-2 list gives for it.\<close>

definition depth_at :: "side \<Rightarrow> price \<Rightarrow> orderbook \<Rightarrow> quantity" where
  "depth_at s p b = (\<Sum>n\<leftarrow>queue s p b. remaining_quantity (ob_store b n))"

definition listed :: "price \<Rightarrow> (price \<times> quantity) list \<Rightarrow> quantity" where
  "listed p xs = (\<Sum>(x, q)\<leftarrow>xs. if x = p then q else 0)"

text \<open>The ids in the index are the first \<open>k\<close> ones drawn from the generator since it stood at \<open>c\<close>.\<close>

definition ids_drawn :: "u64 \<Rightarrow> nat \<Rightarrow> orderbook \<Rightarrow> bool" where
  "ids_drawn c k b \<longleftrightarrow> dom (order_map b) \<subseteq> (\<lambda>j. c + of_nat j) ` {..<k}"

text \<open>The public operations as steps of the book and the process-wide id generator. Every caller takes the ids of its orders
  from the generator: \<open>engine.cpp\<close> (2091), \<open>market_maker.cpp\<close> and the level-2 operations themselves. So an order
  is added under an id handed out before, at any earlier time (\<open>step_add\<close>), and ids are also drawn by others, for other books or
  for orders that never arrive (\<open>step_draw\<close>). The generator counts in 64 bits; the bounds of the steps that draw say that it
  does not wrap around. Nothing is required of the book.\<close>

inductive book_step :: "orderbook \<times> u64 \<Rightarrow> orderbook \<times> u64 \<Rightarrow> bool" where
  step_draw: "unat c + 1 < 2 ^ 64 \<Longrightarrow> order_id_next c = (i, c') \<Longrightarrow> book_step (b, c) (b, c')"
| step_add: "ord_id ord < c \<Longrightarrow> create_order ord b = (n, b1) \<Longrightarrow> add_order n b1 = Inr (b2, ts) \<Longrightarrow> book_step (b, c) (b2, c)"
| step_cancel: "book_step (b, c) (cancel_order oid b, c)"
| step_match: "match_order m b = Inr (b', ts) \<Longrightarrow> book_step (b, c) (b', c)"
| step_modify: "modify_order oid p q b = (r, b') \<Longrightarrow> book_step (b, c) (b', c)"
| step_clear: "book_step (b, c) (clear b, c)"
| step_snapshot: "unat c + length bids + length asks < 2 ^ 64 \<Longrightarrow> apply_l2_snapshot bids asks (b, c) = bc \<Longrightarrow> book_step (b, c) bc"
| step_update: "unat c + 1 < 2 ^ 64 \<Longrightarrow> apply_l2_update s p q (b, c) = bc \<Longrightarrow> book_step (b, c) bc"

lemma sample_ok: "book_ok sample_book"
  by (auto simp: book_ok_def sample_book_def sample_store_def side_ok_def lvl_ok_def index_ok_def linked_def before_def
      split: if_splits)

lemma sample_gtc: "all_gtc sample_book" "uncrossed sample_book"
  by (auto simp: all_gtc_def uncrossed_def sample_book_def sample_store_def linked_def)

lemma sample_runs:
  "case add_order 4 sample_book of Inr (b', ts) \<Rightarrow> remaining_quantity (ob_store b' 4) = 2 \<and> refs (ask_levels b') = [3] | _ \<Rightarrow> False"
  "case add_order 5 sample_book of Inr (b', ts) \<Rightarrow> ts \<noteq> [] | _ \<Rightarrow> False"
  "case add_order 6 sample_book of Inr (b', ts) \<Rightarrow> remaining_quantity (ob_store b' 6) = 9 | _ \<Rightarrow> False"
  by code_simp+

lemma sample_add:
  obtains b' ts where "add_order 4 sample_book = Inr (b', ts)" "remaining_quantity (ob_store b' 4) = 2"
    "refs (ask_levels b') = [3]"
  using sample_runs(1) by (auto split: sum.splits prod.splits)

lemma sample_fok:
  obtains b' ts where "add_order 5 sample_book = Inr (b', ts)" "ts \<noteq> []"
  using sample_runs(2) by (auto split: sum.splits prod.splits)

lemma sample_ioc:
  obtains b' ts where "add_order 6 sample_book = Inr (b', ts)" "remaining_quantity (ob_store b' 6) = 9"
  using sample_runs(3) by (auto split: sum.splits prod.splits)

lemma sample_simps [simp]:
  "ob_next_ref sample_book = 7" "ob_store sample_book = sample_store"
  "levels Side_Sell sample_book = ask_levels sample_book" "levels Side_Buy sample_book = bid_levels sample_book"
  "refs (ask_levels sample_book) = [2, 3]" "refs (bid_levels sample_book) = [0, 1]"
  "linked sample_book = {0, 1, 2, 3}" "order_map sample_book 2 = Some 1"
  by (auto simp: sample_book_def levels_def linked_def)

subsection \<open>Properties of adding\<close>

text \<open>C7: \<open>add_order\<close> always returns (the overfill exception of \<open>order::fill\<close> is never raised), it keeps
  the book well formed, and it leaves an uncrossed book uncrossed.\<close>

theorem add_order_returns:
  assumes "book_ok b" "n < ob_next_ref b"
  shows "\<exists>b' ts. add_order n b = Inr (b', ts) \<and> book_ok b' \<and> (uncrossed b \<longrightarrow> uncrossed b') \<and>
    linked b' \<subseteq> insert n (linked b)"
  by (cases rule: add_order_cases [OF assms]) (use assms in auto)

theorem add_order_returns_witness:
  "\<exists>b' ts. add_order 4 sample_book = Inr (b', ts) \<and> book_ok b' \<and> uncrossed b'"
  using add_order_returns [OF sample_ok, of 4] sample_gtc by auto

text \<open>C1: Quantity is conserved order by order: what an order had left before \<open>add_order\<close> is what it has
  left afterwards plus what the returned trades report under its id, for the resting orders and for the new one.\<close>

theorem add_order_conserves:
  assumes "book_ok b" "n < ob_next_ref b" "add_order n b = Inr (b', ts)" "k \<in> insert n (linked b)"
  shows "unat (remaining_quantity (ob_store b k)) =
    unat (remaining_quantity (ob_store b' k)) + traded (ord_id (ob_store b k)) ts"
  using assms(1,2)
proof (cases rule: add_order_cases)
  case away
  with assms(3) show ?thesis by simp
next
  case (link b'' ts' b1)
  have "k \<in> linked (rest_order n b)" using link(4) assms(4) by simp
  then have "unat (remaining_quantity (ob_store b k)) =
      unat (remaining_quantity (ob_store b1 k)) + traded (ord_id (ob_store b k)) ts'"
    using matched_conserved [OF link(6,3), of k] by simp
  with link assms(3) show ?thesis by simp
qed

theorem add_order_conserves_witness:
  "\<exists>b' ts. add_order 4 sample_book = Inr (b', ts) \<and> remaining_quantity (ob_store b' 4) = 2 \<and> traded 5 ts = 7"
proof (rule sample_add)
  fix b' ts assume r: "add_order 4 sample_book = Inr (b', ts)" "remaining_quantity (ob_store b' 4) = 2"
  have "unat (remaining_quantity (sample_store 4)) = unat (remaining_quantity (ob_store b' 4)) + traded (ord_id (sample_store 4)) ts"
    using add_order_conserves [OF sample_ok _ r(1), of 4] by simp
  with r show ?thesis by (simp add: sample_store_def)
qed

text \<open>C3: Price-time priority. On a book whose resting orders are all good-till-cancel (so that none is cancelled after matching), matching
  consumes the other side of the book from its front: the queue left is what remains after dropping a prefix, every order of
  the prefix is completely filled, and all orders behind the new front are untouched.\<close>

theorem add_order_priority:
  assumes "book_ok b" "all_gtc b" "n < ob_next_ref b" "add_order n b = Inr (b', ts)"
  shows "consumed (ob_store b) (refs (levels (opposite (ord_side (ob_store b n))) b))
    (ob_store b') (refs (levels (opposite (ord_side (ob_store b n))) b'))"
  using assms by (rule add_order_consumed)

theorem add_order_priority_witness:
  "\<exists>b' ts. add_order 4 sample_book = Inr (b', ts) \<and> refs (ask_levels b') = [3] \<and>
     consumed sample_store [2, 3] (ob_store b') [3]"
proof (rule sample_add)
  fix b' ts assume r: "add_order 4 sample_book = Inr (b', ts)" "refs (ask_levels b') = [3]"
  have "ord_side (sample_store 4) = Side_Buy" by (simp add: sample_store_def)
  with r show ?thesis
    using add_order_priority [OF sample_ok sample_gtc(1) _ r(1)] by (simp add: levels_def)
qed

text \<open>A fill-or-kill or immediate-or-cancel order never rests: after \<open>add_order\<close> it is not in the book, and
  the book still holds good-till-cancel orders only.\<close>

theorem add_order_never_rests:
  assumes "book_ok b" "uncrossed b" "all_gtc b" "n < ob_next_ref b" "add_order n b = Inr (b', ts)"
    and "aggressive (ob_store b n)"
  shows "n \<notin> linked b' \<and> all_gtc b'"
proof -
  have n: "n \<notin> linked b'" using assms by (rule add_order_aggressive)
  have "linked b' \<subseteq> insert n (linked b)" "\<And>k. ord_type (ob_store b' k) = ord_type (ob_store b k)"
    using add_order_frame [OF assms(1,4,5)] by (auto simp: same_terms_def)
  with n assms(3) show ?thesis by (auto simp: all_gtc_def)
qed

theorem add_order_never_rests_witness:
  "\<exists>b' ts. add_order 6 sample_book = Inr (b', ts) \<and> remaining_quantity (ob_store b' 6) = 9 \<and> 6 \<notin> linked b' \<and> all_gtc b'"
proof (rule sample_ioc)
  fix b' ts assume r: "add_order 6 sample_book = Inr (b', ts)" "remaining_quantity (ob_store b' 6) = 9"
  have "aggressive (ob_store sample_book 6)" by (simp add: aggressive_def sample_store_def)
  with add_order_never_rests [OF sample_ok sample_gtc(2,1) _ r(1)] r show ?thesis by simp
qed

text \<open>C15: Fill-or-kill is all or nothing on an uncrossed book: while the other side's open quantity fits in 64 bits, the order is
  either turned away with the book unchanged and no trade, or filled completely. Adding and cancelling keep a book
  uncrossed; \<open>modify_order\<close> does not match and can leave it crossed, and then the promise fails (\<open>fill_or_kill_cut_short\<close>).\<close>

theorem add_order_fill_or_kill:
  assumes "book_ok b" "uncrossed b" "n < ob_next_ref b" "add_order n b = Inr (b', ts)"
    and "ord_type (ob_store b n) = Fill_Or_Kill"
    and "open_qty (ob_store b) (set (refs (levels (opposite (ord_side (ob_store b n))) b))) < 2 ^ 64"
  shows "b' = b \<and> ts = [] \<or> remaining_quantity (ob_store b' n) = 0"
  using assms by (rule add_order_fok)

theorem add_order_fill_or_kill_witness:
  "\<exists>b' ts. add_order 5 sample_book = Inr (b', ts) \<and> ts \<noteq> [] \<and> remaining_quantity (ob_store b' 5) = 0"
proof (rule sample_fok)
  fix b' ts assume r: "add_order 5 sample_book = Inr (b', ts)" "ts \<noteq> []"
  have "ord_type (ob_store sample_book 5) = Fill_Or_Kill"
    "open_qty (ob_store sample_book) (set (refs (levels (opposite (ord_side (ob_store sample_book 5))) sample_book))) < 2 ^ 64"
    by (simp_all add: sample_store_def open_qty_def)
  with add_order_fill_or_kill [OF sample_ok sample_gtc(2) _ r(1)] r show ?thesis by simp
qed

text \<open>A sell of 7 at 102 and a buy of 3 at 100 rest; the buy is modified to 105 and now stands in front of the sell. A fill-or-kill buy of 7
  at 103 counts the 7 as available, but the modified buy takes 3 of them first: the order is filled for 4, and 3 are killed.\<close>

definition crossing_run :: "book_error + (orderbook \<times> trade list)" where
  "crossing_run =
     (let (r1, b1) = create_order (mk_order Good_Till_Cancel 1 Side_Sell 102 7) empty_book in
      case add_order r1 b1 of Inl e \<Rightarrow> Inl e | Inr (b2, _) \<Rightarrow>
      let (r3, b3) = create_order (mk_order Good_Till_Cancel 2 Side_Buy 100 3) b2 in
      case add_order r3 b3 of Inl e \<Rightarrow> Inl e | Inr (b4, _) \<Rightarrow>
      let (r5, b5) = create_order (mk_order Fill_Or_Kill 3 Side_Buy 103 7) (snd (modify_order 2 105 3 b4)) in add_order r5 b5)"

lemma fill_or_kill_cut_short:
  "case crossing_run of Inl e \<Rightarrow> False
   | Inr (b, ts) \<Rightarrow> traded 2 ts = 3 \<and> traded 3 ts = 4 \<and> order_map b 3 = None"
  by code_simp

text \<open>C18: Every trade is between a bid and an ask that cross, and both legs carry the same quantity.\<close>

theorem add_order_trades_cross:
  assumes "book_ok b" "n < ob_next_ref b" "add_order n b = Inr (b', ts)" "t \<in> set ts"
  shows "ti_price (bid_trade t) \<ge> ti_price (ask_trade t) \<and> ti_quantity (bid_trade t) = ti_quantity (ask_trade t)"
  using assms(1,2)
proof (cases rule: add_order_cases)
  case away
  with assms(3,4) show ?thesis by simp
next
  case (link b'' ts' b1)
  with assms(3,4) matched_prices [OF link(6), of t] show ?thesis by simp
qed

theorem add_order_trades_cross_witness:
  "\<exists>b' ts t. add_order 5 sample_book = Inr (b', ts) \<and> t \<in> set ts \<and> ti_price (bid_trade t) \<ge> ti_price (ask_trade t)"
proof (rule sample_fok)
  fix b' ts assume r: "add_order 5 sample_book = Inr (b', ts)" "ts \<noteq> []"
  then have t: "hd ts \<in> set ts" by simp
  have "ti_price (bid_trade (hd ts)) \<ge> ti_price (ask_trade (hd ts))"
    using add_order_trades_cross [OF sample_ok _ r(1) t] by simp
  with r t show ?thesis by blast
qed

subsection \<open>Cancelling, modifying and level-2 data\<close>

lemma queue_linked: "k \<in> set (queue s p b) \<Longrightarrow> k \<in> linked b"
  using linked_sides [of b s] by (auto simp: queue_def)

text \<open>C21: \<open>cancel_order\<close> removes exactly the orders with that id: the id leaves the index, and in every queue the
  other orders keep their places. An unknown id changes nothing.\<close>

theorem cancel_order_exact:
  assumes "book_ok b"
  shows "book_ok (cancel_order oid b) \<and> order_map (cancel_order oid b) = (order_map b)(oid := None) \<and>
    queue s p (cancel_order oid b) = filter (\<lambda>k. ord_id (ob_store b k) \<noteq> oid) (queue s p b)"
proof -
  have "filter (\<lambda>k. ord_id (ob_store b k) \<noteq> oid) (queue s p b) = queue s p (cancel_order oid b)"
  proof (cases "order_map b oid")
    case None
    then have "ord_id (ob_store b k) \<noteq> oid" if "k \<in> set (queue s p b)" for k
      using index_linked [OF assms queue_linked [OF that]] by auto
    with None show ?thesis by (simp add: cancel_order_def)
  next
    case (Some n)
    have "ord_id (ob_store b k) \<noteq> oid \<longleftrightarrow> n \<noteq> k" if "k \<in> set (queue s p b)" for k
      using index_linked [OF assms queue_linked [OF that]] linked_index [OF assms Some] Some by (metis option.inject)
    then have "filter (\<lambda>k. ord_id (ob_store b k) \<noteq> oid) (queue s p b) = filter (\<lambda>k. n \<noteq> k) (queue s p b)"
      by (intro filter_cong refl)
    then show ?thesis unfolding cancel_order_queue [OF assms Some] removeAll_filter_not_eq .
  qed
  with cancel_order_ok(1) [OF assms] show ?thesis by simp
qed

theorem cancel_order_exact_witness:
  "book_ok (cancel_order 2 sample_book) \<and> queue Side_Buy 100 (cancel_order 2 sample_book) = [0]"
  using cancel_order_exact [OF sample_ok, of 2 Side_Buy 100] by (simp add: queue_def sample_store_def)

text \<open>\<open>modify_order\<close> on a resting order replaces it by a new order of the same id, side and type with the
  given price and quantity, at the back of the queue of its new price; all other orders keep their places.\<close>

theorem modify_order_replaces:
  assumes "book_ok b" "order_map b oid = Some n"
  shows "\<exists>b'. modify_order oid p q b = (True, b') \<and> book_ok b' \<and>
    ob_store b' (ob_next_ref b) = mk_order (ord_type (ob_store b n)) oid (ord_side (ob_store b n)) p q \<and>
    order_map b' = (order_map b)(oid \<mapsto> ob_next_ref b) \<and>
    (\<forall>t x. queue t x b' = removeAll n (queue t x b) @
       (if ord_side (ob_store b n) = t \<and> p = x then [ob_next_ref b] else []))"
proof -
  let ?o = "mk_order (ord_type (ob_store b n)) oid (ord_side (ob_store b n)) p q" and ?c = "cancel_order oid b" and ?r = "ob_next_ref b"
  obtain b2 where c2: "create_order ?o ?c = (?r, b2)" by (simp add: create_order_def)
  note ck = cancel_order_ok(1) [OF assms(1), of oid]
  note k = create_order_ok [OF ck c2]
  have st: "ob_store b2 ?r = ?o" using k(6) by simp
  have m: "modify_order oid p q b = (True, rest_order ?r b2)" using assms(2) c2 by (simp add: modify_order_def)
  have "book_ok (rest_order ?r b2)" using rest_order_ok(1) [OF k(8), of ?r] k(4,7) st by simp
  moreover have "queue t x (rest_order ?r b2) = removeAll n (queue t x b) @
      (if ord_side (ob_store b n) = t \<and> p = x then [?r] else [])" for t x
    using rest_order_queue [OF k(8), of ?r t x] k(2,3) k(9) [of t x] st cancel_order_queue [OF assms, of t x] by simp
  ultimately show ?thesis using m k(4) st by auto
qed

theorem modify_order_replaces_witness:
  "\<exists>b'. modify_order 1 100 3 sample_book = (True, b') \<and> queue Side_Buy 100 b' = [1, 7]"
proof -
  have "order_map sample_book 1 = Some 0" by (simp add: sample_book_def)
  from modify_order_replaces [OF sample_ok this, of 100 3] obtain b' where "modify_order 1 100 3 sample_book = (True, b')"
    "queue Side_Buy 100 b' = removeAll 0 (queue Side_Buy 100 sample_book) @ [7]" by (auto simp: sample_store_def)
  moreover have "queue Side_Buy 100 sample_book = [0, 1]" by (simp add: queue_def sample_store_def)
  ultimately show ?thesis by simp
qed

text \<open>\<open>get_order_infos\<close> reports each side best price first, with positive quantities only, and each quantity
  is the sum of what the orders resting at that price have left.\<close>

theorem get_order_infos_correct:
  assumes "book_ok b"
  shows "sorted_wrt (\<lambda>i j. li_price i > li_price j) (infos_bids (get_order_infos b)) \<and>
    sorted_wrt (\<lambda>i j. li_price i < li_price j) (infos_asks (get_order_infos b)) \<and>
    (\<forall>i\<in>set (infos_bids (get_order_infos b)). 0 < li_quantity i \<and>
       li_quantity i = (\<Sum>n\<leftarrow>queue Side_Buy (li_price i) b. remaining_quantity (ob_store b n))) \<and>
    (\<forall>i\<in>set (infos_asks (get_order_infos b)). 0 < li_quantity i \<and>
       li_quantity i = (\<Sum>n\<leftarrow>queue Side_Sell (li_price i) b. remaining_quantity (ob_store b n)))"
proof -
  have so: "side_ok (ob_store b) s (levels s b)" for s using assms book_ok_sides [of b s] by simp
  have "sorted_wrt (\<lambda>i j. before s (li_price i) (li_price j)) (level_infos (levels s b)) \<and>
      (\<forall>i\<in>set (level_infos (levels s b)). 0 < li_quantity i \<and>
        li_quantity i = (\<Sum>n\<leftarrow>queue s (li_price i) b. remaining_quantity (ob_store b n)))" for s
    unfolding queue_def using level_infos_ok [OF so] by blast
  from this [of Side_Buy] this [of Side_Sell] show ?thesis
    unfolding get_order_infos_def levels_def before_def side.case orderbook_lvl_infos.simps by blast
qed

theorem get_order_infos_correct_witness:
  "map li_quantity (infos_asks (get_order_infos sample_book)) = [7, 4] \<and>
   list_all (\<lambda>i. 0 < li_quantity i) (infos_asks (get_order_infos sample_book))"
  using get_order_infos_correct [OF sample_ok] by (simp add: get_order_infos_def level_infos_def sample_book_def)

text \<open>\<open>apply_l2_update\<close> replaces the whole queue at one price by a single order with the given quantity
  (nothing for quantity zero) and leaves every other queue alone, if the id it draws is not in use.\<close>

theorem apply_l2_update_sets:
  assumes "book_ok b" "order_map b c = None" "apply_l2_update s p q (b, c) = (b', c')"
  shows "book_ok b' \<and> queue s p b' = (if q > 0 then [ob_next_ref b] else []) \<and>
    (q > 0 \<longrightarrow> ob_store b' (ob_next_ref b) = mk_order Good_Till_Cancel c s p q) \<and>
    (\<forall>t x. (t, x) \<noteq> (s, p) \<longrightarrow> queue t x b' = queue t x b)"
proof -
  note w = l2_wiped_ok [OF assms(1), where s = s and p = p]
  have e: "(if q > 0 then place_depth s p q (l2_wiped s p b, c) else (l2_wiped s p b, c)) = (b', c')"
    using assms(3) by (simp only: apply_l2_update_def l2_wiped_def Let_def prod.case)
  show ?thesis
  proof (cases "q > 0")
    case True
    note P = place_depth_ok [OF w(1) w(5) [OF assms(2)], of s p q b' c']
    have r: "place_depth s p q (l2_wiped s p b, c) = (b', c')" using e True by simp
    show ?thesis using P(1,4,5) [OF r] w(3,6) True by simp
  next
    case False
    then show ?thesis using e w(1,6) by simp
  qed
qed

theorem apply_l2_update_sets_witness:
  "\<exists>b' c'. apply_l2_update Side_Buy 100 8 (sample_book, 9) = (b', c') \<and> queue Side_Buy 100 b' = [7] \<and>
     queue Side_Sell 102 b' = queue Side_Sell 102 sample_book"
proof -
  obtain b' c' where r: "apply_l2_update Side_Buy 100 8 (sample_book, 9) = (b', c')" by fastforce
  have "order_map sample_book 9 = None" by (simp add: sample_book_def)
  note u = apply_l2_update_sets [OF sample_ok this r]
  from u have "queue Side_Buy 100 b' = [7]" by simp
  moreover from u have "queue Side_Sell 102 b' = queue Side_Sell 102 sample_book" by blast
  ultimately show ?thesis using r by blast
qed

lemma ids_drawn_fresh:
  assumes "ids_drawn c k b" "k < 2 ^ 64"
  shows "order_map b (c + of_nat k) = None"
proof (rule ccontr)
  assume "order_map b (c + of_nat k) \<noteq> None"
  with assms(1) obtain j where j: "j < k" "(of_nat j :: u64) = of_nat k" by (auto simp: ids_drawn_def)
  then have "unat (of_nat j :: u64) = unat (of_nat k :: u64)" by simp
  with j(1) assms(2) show False by (simp add: unat_of_nat)
qed

lemma place_depth_depth:
  assumes "book_ok b" "order_map b c = None" "place_depth s p q (b, c) = (b', c')"
  shows "depth_at t x b' = depth_at t x b + (if t = s \<and> x = p then q else 0)"
proof -
  note P = place_depth_ok [OF assms]
  have "n \<noteq> ob_next_ref b" if "n \<in> set (queue t x b)" for n using queue_linked [OF that] assms(1) by (auto simp: book_ok_def)
  then have "(\<Sum>n\<leftarrow>queue t x b. remaining_quantity (ob_store b' n)) = depth_at t x b"
    unfolding depth_at_def P(5) by (intro sum_list_map_cong) simp
  then show ?thesis unfolding depth_at_def P(4) using P(5) by simp
qed

lemma snapshot_side_ok:
  assumes "book_ok b" "ids_drawn c k b" "k + length xs < 2 ^ 64" "snapshot_side s xs (b, c + of_nat k) = (b', c')"
  shows "book_ok b' \<and> (\<exists>k'\<le>k + length xs. c' = c + of_nat k' \<and> ids_drawn c k' b') \<and>
    (\<forall>t p. depth_at t p b' = depth_at t p b + (if t = s then listed p xs else 0))"
  using assms
proof (induction xs arbitrary: b k)
  case Nil
  then show ?case by (auto simp: listed_def)
next
  case (Cons x xs)
  obtain p q where x: "x = (p, q)" by fastforce
  have ls: "listed r (x # xs) = (if p = r then q else 0) + listed r xs" for r by (simp add: listed_def x)
  show ?case
  proof (cases "q = 0")
    case True
    then have r: "snapshot_side s xs (b, c + of_nat k) = (b', c')" using Cons.prems(4) x by simp
    have len: "k + length xs < 2 ^ 64" using Cons.prems(3) by simp
    from Cons.IH [OF Cons.prems(1,2) len r] True ls show ?thesis by (simp add: le_Suc_eq) blast
  next
    case False
    obtain b1 c1 where p1: "place_depth s p q (b, c + of_nat k) = (b1, c1)" by fastforce
    have fr: "order_map b (c + of_nat k) = None" using ids_drawn_fresh [OF Cons.prems(2)] Cons.prems(3) by simp
    note P = place_depth_ok [OF Cons.prems(1) fr p1]
    have c1: "c1 = c + of_nat (Suc k)" using P(2) by (simp add: add.commute add.left_commute)
    have i1: "ids_drawn c (Suc k) b1"
      using Cons.prems(2) P(3) by (auto simp: ids_drawn_def lessThan_Suc)
    have r: "snapshot_side s xs (b1, c + of_nat (Suc k)) = (b', c')" using Cons.prems(4) x False p1 c1 by simp
    have len: "Suc k + length xs < 2 ^ 64" using Cons.prems(3) by simp
    from Cons.IH [OF P(1) i1 len r] place_depth_depth [OF Cons.prems(1) fr p1] ls show ?thesis by auto
  qed
qed

lemma clear_ok: "book_ok (clear b)" "ids_drawn c 0 (clear b)" "depth_at t p (clear b) = 0"
  by (cases t; simp add: clear_def book_ok_def side_ok_def index_ok_def linked_def ids_drawn_def depth_at_def queue_def levels_def)+

lemma snapshot_ok:
  assumes len: "length bids + length asks < 2 ^ 64" and r: "apply_l2_snapshot bids asks (b, c) = (b', c')"
  shows "book_ok b'" "depth_at Side_Buy p b' = listed p bids" "depth_at Side_Sell p b' = listed p asks"
    "\<exists>k\<le>length bids + length asks. c' = c + of_nat k \<and> ids_drawn c k b'"
proof -
  obtain b1 c1 where r1: "snapshot_side Side_Buy bids (clear b, c + of_nat 0) = (b1, c1)" by fastforce
  have r2: "snapshot_side Side_Sell asks (b1, c1) = (b', c')" using r r1 by (simp add: apply_l2_snapshot_def)
  have l1: "0 + length bids < 2 ^ 64" using len by simp
  from snapshot_side_ok [OF clear_ok(1,2) l1 r1] obtain k where k: "book_ok b1" "k \<le> length bids" "c1 = c + of_nat k"
    "ids_drawn c k b1" "\<And>t p. depth_at t p b1 = depth_at t p (clear b) + (if t = Side_Buy then listed p bids else 0)" by auto
  have l2: "k + length asks < 2 ^ 64" using k(2) len by simp
  from snapshot_side_ok [OF k(1,4) l2 r2 [unfolded k(3)]]
  have "book_ok b'" "depth_at t p b' = depth_at t p b1 + (if t = Side_Sell then listed p asks else 0)"
    "\<exists>k'\<le>k + length asks. c' = c + of_nat k' \<and> ids_drawn c k' b'" for t by auto
  then show "book_ok b'" "depth_at Side_Buy p b' = listed p bids" "depth_at Side_Sell p b' = listed p asks"
    "\<exists>k\<le>length bids + length asks. c' = c + of_nat k \<and> ids_drawn c k b'"
    using k(2,5) clear_ok(3) le_trans by (simp_all, meson add_le_mono1 le_trans)
qed

text \<open>After \<open>apply_l2_snapshot\<close> the book is well formed and shows, at every price of either side, exactly the
  quantity the snapshot lists for it (added up when a price is listed twice), whatever the book held before.\<close>

theorem apply_l2_snapshot_depth:
  assumes "length bids + length asks < 2 ^ 64" "apply_l2_snapshot bids asks (b, c) = (b', c')"
  shows "book_ok b' \<and> depth_at Side_Buy p b' = listed p bids \<and> depth_at Side_Sell p b' = listed p asks"
  using snapshot_ok [OF assms] by simp

theorem apply_l2_snapshot_depth_witness:
  "\<exists>b' c'. apply_l2_snapshot [(99, 4), (98, 0)] [(101, 6)] (sample_book, 20) = (b', c') \<and> book_ok b' \<and>
     depth_at Side_Buy 99 b' = 4 \<and> depth_at Side_Sell 101 b' = 6"
proof -
  obtain b' c' where r: "apply_l2_snapshot [(99, 4), (98, 0)] [(101, 6)] (sample_book, 20) = (b', c')" by fastforce
  from apply_l2_snapshot_depth [OF _ r] have "book_ok b'" "depth_at Side_Buy 99 b' = 4" "depth_at Side_Sell 101 b' = 6"
    by (simp_all add: listed_def)
  with r show ?thesis by blast
qed

lemma add_created_ok:
  assumes ok: "book_ok b" and c: "create_order ord b = (n, b1)" and r: "add_order n b1 = Inr (b2, ts)"
  shows "book_ok b2"
proof -
  note k = create_order_ok [OF ok c]
  have "n < ob_next_ref b1" using k(1,7) by simp
  then show ?thesis using r k(8) by (cases rule: add_order_cases [OF k(8)]) auto
qed

text \<open>Every id resting in the book is below the generator.\<close>

definition ids_below :: "u64 \<Rightarrow> orderbook \<Rightarrow> bool" where
  "ids_below c b \<longleftrightarrow> (\<forall>i\<in>dom (order_map b). i < c)"

lemma ids_below_mono: "ids_below c b \<Longrightarrow> dom (order_map b') \<subseteq> dom (order_map b) \<Longrightarrow> c \<le> c' \<Longrightarrow> ids_below c' b'"
  unfolding ids_below_def by (meson order_less_le_trans subsetD)

lemma ids_below_fresh: "ids_below c b \<Longrightarrow> order_map b c = None"
  by (auto simp: ids_below_def)

lemma no_wrap:
  assumes "unat (c :: u64) + k < 2 ^ 64" "j < k"
  shows "c + of_nat j < c + of_nat k" "c \<le> c + of_nat k"
proof -
  have u: "unat (c + of_nat i) = unat c + i" if "i \<le> k" for i
    using that assms(1) by (simp add: unat_word_ariths unat_of_nat)
  show "c + of_nat j < c + of_nat k" "c \<le> c + of_nat k" unfolding word_less_nat_alt word_le_nat_alt using u assms(2) by simp_all
qed

lemma add_created_ids:
  assumes ok: "book_ok b" and c: "create_order ord b = (n, b1)" and r: "add_order n b1 = Inr (b2, ts)"
  shows "dom (order_map b2) \<subseteq> insert (ord_id ord) (dom (order_map b))"
proof
  note k = create_order_ok [OF ok c]
  have n: "n < ob_next_ref b1" using k(1,7) by simp
  note f = add_order_frame [OF k(8) n r]
  fix i assume "i \<in> dom (order_map b2)"
  then obtain m where "order_map b2 i = Some m" by blast
  from linked_index [OF add_created_ok [OF ok c r] this] have m: "m \<in> linked b2" "ord_id (ob_store b2 m) = i" by simp_all
  then have "m = n \<or> m \<in> linked b" "ord_id (ob_store b1 m) = i" using f(1,2) k(3) by (auto simp: same_terms_def)
  then show "i \<in> insert (ord_id ord) (dom (order_map b))"
    using k(2,6) index_linked [OF ok, of m] by (cases "m = n") auto
qed

lemma modify_book:
  assumes "book_ok b" "modify_order oid p q b = (r, b')"
  shows "book_ok b'" "dom (order_map b') \<subseteq> dom (order_map b)"
proof -
  have "book_ok b' \<and> dom (order_map b') \<subseteq> dom (order_map b)"
  proof (cases "order_map b oid")
    case (Some n)
    let ?o = "mk_order (ord_type (ob_store b n)) oid (ord_side (ob_store b n)) p q" and ?c = "cancel_order oid b"
    obtain b2 where c2: "create_order ?o ?c = (ob_next_ref b, b2)" by (simp add: create_order_def)
    note k = create_order_ok [OF cancel_order_ok(1) [OF assms(1)] c2]
    have "b' = rest_order (ob_next_ref b) b2" using assms(2) Some c2 by (simp add: modify_order_def)
    then show ?thesis using rest_order_ok(1) [OF k(8), of "ob_next_ref b"] k(4,6,7) Some by auto
  qed (use assms in \<open>simp add: modify_order_def\<close>)
  then show "book_ok b'" "dom (order_map b') \<subseteq> dom (order_map b)" by simp_all
qed

lemma match_book:
  assumes "book_ok b" "match_order m b = Inr (b', ts)"
  shows "book_ok b' \<and> dom (order_map b') \<subseteq> dom (order_map b)"
proof (cases "order_map b (om_order_id m)")
  case (Some n)
  let ?o = "to_order (ord_type (ob_store b n)) m" and ?c = "cancel_order (om_order_id m) b"
  obtain r b2 where c: "create_order ?o ?c = (r, b2)" by fastforce
  then have a: "add_order r b2 = Inr (b', ts)" using assms(2) Some by (simp add: match_order_def)
  note ck = cancel_order_ok(1) [OF assms(1), of "om_order_id m"]
  have "ord_id ?o = om_order_id m" by (simp add: to_order_def)
  then show ?thesis using add_created_ok [OF ck c a] add_created_ids [OF ck c a] Some by auto
qed (use assms in \<open>simp add: match_order_def\<close>)

lemma update_book:
  assumes "book_ok b" "ids_below c b" "unat c + 1 < 2 ^ 64" "apply_l2_update s p q (b, c) = (b', c')"
  shows "book_ok b' \<and> ids_below c' b'"
proof -
  note w = l2_wiped_ok [OF assms(1), where s = s and p = p]
  have e: "(if q > 0 then place_depth s p q (l2_wiped s p b, c) else (l2_wiped s p b, c)) = (b', c')"
    using assms(4) by (simp only: apply_l2_update_def l2_wiped_def Let_def prod.case)
  have sub: "dom (order_map (l2_wiped s p b)) \<subseteq> dom (order_map b)" using w(5) by (metis domIff subsetI)
  then have wb: "ids_below c (l2_wiped s p b)" using ids_below_mono [OF assms(2)] by simp
  show ?thesis
  proof (cases "q > 0")
    case True
    then have r: "place_depth s p q (l2_wiped s p b, c) = (b', c')" using e by simp
    note P = place_depth_ok [OF w(1) ids_below_fresh [OF wb] r]
    have "c < c + 1" "c \<le> c + 1" using no_wrap [of c 1 0] assms(3) by simp_all
    then show ?thesis using P(1-3) wb unfolding ids_below_def by (auto intro: less_trans)
  qed (use e w(1) wb in auto)
qed

lemma snapshot_book:
  assumes "unat c + length bids + length asks < 2 ^ 64" "apply_l2_snapshot bids asks (b, c) = (b', c')"
  shows "book_ok b' \<and> ids_below c' b'"
proof -
  have len: "length bids + length asks < 2 ^ 64" using assms(1) by simp
  from snapshot_ok(4) [OF len assms(2)] obtain k where k: "k \<le> length bids + length asks" "c' = c + of_nat k" "ids_drawn c k b'" by blast
  have "unat c + k < 2 ^ 64" using k(1) assms(1) by simp
  from no_wrap(1) [OF this] k(2,3) have "ids_below c' b'" by (auto simp: ids_below_def ids_drawn_def)
  then show ?thesis using snapshot_ok(1) [OF len assms(2)] by simp
qed

lemma book_step_ok: "book_step (b, c) (b', c') \<Longrightarrow> book_ok b \<and> ids_below c b \<Longrightarrow> book_ok b' \<and> ids_below c' b'"
proof (induction "(b, c)" "(b', c')" rule: book_step.induct)
  case (step_draw i)
  then have "c \<le> c'" using no_wrap(2) [of c 1 0] by (auto simp: order_id_next_def)
  then show ?case using step_draw ids_below_mono by blast
next
  case (step_add ord n b1 ts)
  then show ?case using add_created_ok [OF _ step_add.hyps(2,3)] add_created_ids [OF _ step_add.hyps(2,3)] unfolding ids_below_def by blast
next
  case (step_cancel oid)
  have "dom (order_map (cancel_order oid b)) \<subseteq> dom (order_map b)"
    by (auto simp: cancel_order_def Let_def set_levels_def split: option.splits side.splits if_splits)
  then show ?case using step_cancel cancel_order_ok(1) by (auto intro: ids_below_mono)
next
  case (step_match m ts)
  then show ?case using match_book [OF _ step_match.hyps(1)] by (auto intro: ids_below_mono)
next
  case (step_modify oid p q r)
  then show ?case using modify_book [OF _ step_modify.hyps(1)] by (auto intro: ids_below_mono)
next
  case step_clear
  then have "order_map b' = Map.empty" "book_ok b'" using clear_ok(1) [of b] by (auto simp: clear_def)
  then show ?case by (simp add: ids_below_def)
qed (use update_book snapshot_book in blast)+

text \<open>C12: Every book that the public operations can reach from the empty one, in any order, is well formed, and every order resting in it
  carries an id that the generator has handed out. This needs what the program's callers do: an order is added under an id drawn from the
  generator before, and the generator has not wrapped around. \<open>update_reuses_resting_id\<close> shows what happens otherwise.\<close>

theorem reachable_book_ok:
  assumes "book_step\<^sup>*\<^sup>* (empty_book, 1) (b, c)"
  shows "book_ok b \<and> (\<forall>i. order_map b i \<noteq> None \<longrightarrow> i < c)"
proof -
  from assms have "book_ok b \<and> ids_below c b"
  proof (induction "(b, c)" arbitrary: b c rule: rtranclp_induct)
    case base
    then show ?case by (simp add: empty_book_def book_ok_def side_ok_def index_ok_def linked_def ids_below_def)
  next
    case (step bc b c)
    then show ?case using book_step_ok by (cases bc) blast
  qed
  then show ?thesis by (auto simp: ids_below_def)
qed

text \<open>Six ids are drawn, the buy order number 5 is added, and a depth update of the sell side draws id 7.\<close>

definition drawn_run :: "nat \<Rightarrow> orderbook \<times> u64" where
  "drawn_run n = (empty_book, 1 + of_nat n)"

lemma drawn_run_reached: "n \<le> 6 \<Longrightarrow> book_step\<^sup>*\<^sup>* (empty_book, 1) (drawn_run n)"
proof (induction n)
  case (Suc n)
  have "unat (1 + of_nat n :: u64) + 1 < 2 ^ 64" using Suc.prems by (simp add: unat_word_ariths unat_of_nat)
  from step_draw [OF this] have "book_step (drawn_run n) (drawn_run (Suc n))"
    by (simp add: drawn_run_def order_id_next_def add.commute add.left_commute)
  with Suc show ?case by simp
qed (simp add: drawn_run_def)

theorem reachable_book_ok_witness:
  "\<exists>b ts b' c'. add_order 0 (snd (create_order (sample_store 4) empty_book)) = Inr (b, ts) \<and>
     apply_l2_update Side_Sell 104 8 (b, 7) = (b', c') \<and> order_map b' 5 = Some 0 \<and> order_map b' 7 = Some 1 \<and> book_ok b'"
proof -
  have "case add_order 0 (snd (create_order (sample_store 4) empty_book)) of
      Inr (b, ts) \<Rightarrow> (case apply_l2_update Side_Sell 104 8 (b, 7) of (b', c') \<Rightarrow> order_map b' 5 = Some 0 \<and> order_map b' 7 = Some 1) | _ \<Rightarrow> False"
    by code_simp
  then obtain b ts b' c' where b: "add_order 0 (snd (create_order (sample_store 4) empty_book)) = Inr (b, ts)"
    "apply_l2_update Side_Sell 104 8 (b, 7) = (b', c')" "order_map b' 5 = Some 0" "order_map b' 7 = Some 1"
    by (auto split: sum.splits prod.splits)
  have c: "create_order (sample_store 4) empty_book = (0, snd (create_order (sample_store 4) empty_book))"
    by (simp add: create_order_def empty_book_def)
  have "book_step (drawn_run 6) (b, 7)" using step_add [OF _ c b(1), of 7] by (simp add: drawn_run_def sample_store_def)
  moreover have "book_step (b, 7) (b', c')" using step_update [OF _ b(2)] by simp
  ultimately have "book_step\<^sup>*\<^sup>* (empty_book, 1) (b', c')" using drawn_run_reached [of 6] by (meson order_refl rtranclp.rtrancl_into_rtrancl)
  from reachable_book_ok [OF this] b show ?thesis by blast
qed

text \<open>A level-2 update that draws an id still resting at another price breaks the book: the index then names the new order, while
  the old one stays linked under the same id, where no cancel reaches it.\<close>

lemma update_reuses_resting_id:
  assumes "book_ok b" "order_map b c = Some n" "n \<notin> set (queue s p b)" "q > 0" "apply_l2_update s p q (b, c) = (b', c')"
  shows "order_map b' c = Some (ob_next_ref b) \<and> n \<in> linked b' \<and> ord_id (ob_store b' n) = c \<and> \<not> book_ok b'"
proof -
  let ?o = "mk_order Good_Till_Cancel c s p q" and ?w = "l2_wiped s p b" and ?r = "ob_next_ref b"
  note w = l2_wiped_ok [OF assms(1), where s = s and p = p]
  obtain b2 where c2: "create_order ?o ?w = (?r, b2)" using w(3) by (simp add: create_order_def)
  note k = create_order_ok [OF w(1) c2]
  have "place_depth s p q (?w, c) = (b', c')"
    using assms(4,5) by (simp add: apply_l2_update_def l2_wiped_def Let_def)
  then have b': "b' = rest_order ?r b2" using c2 by (simp add: place_depth_def order_id_next_def)
  have n: "n \<in> linked b" "ord_id (ob_store b n) = c" using linked_index [OF assms(1,2)] by simp_all
  have ne: "n \<noteq> ?r" using n(1) assms(1) by (auto simp: book_ok_def)
  obtain t where "n \<in> set (refs (levels t b))" using n(1) linked_sides [of b Side_Buy] by auto
  then have "n \<in> set (queue t (ord_price (ob_store b n)) b)" by (simp add: queue_def)
  then have "n \<in> set (queue t (ord_price (ob_store b n)) b2)" using w(6) k(9) assms(3) by (metis (full_types))
  then have "n \<in> set (queue t (ord_price (ob_store b n)) b')"
    using rest_order_queue [OF k(8), of ?r t] k(2,3) b' by simp
  then have l: "n \<in> linked b'" by (rule queue_linked)
  have st: "ob_store b' = (ob_store b)(?r := ?o)" "order_map b' c = Some ?r" using b' k(4,6) w(2) by simp_all
  have "\<not> book_ok b'"
  proof
    assume "book_ok b'"
    from index_linked [OF this l] st n(2) ne show False by simp
  qed
  then show ?thesis using l st n(2) ne by simp
qed

end
