(* ===== verification/Price_Level.thy ===== *)
theory Price_Level
  imports Orderbook
begin

text \<open>
  The pointer structure behind the levels of the order book: \<open>order_node\<close>s linked by \<open>next\<close>/\<open>prev\<close> into
  the queue of a \<open>price_level\<close> (\<open>append\<close>, \<open>remove\<close>), and the node pool of the book (\<open>alloc_node\<close> with its
  blocks of 4096 nodes, \<open>free_node\<close>). A node address is a natural number, a null pointer is \<open>None\<close>; a
  dereferenced null pointer is the result \<open>None\<close> of an operation.

  \<open>pl_append\<close> and \<open>pl_remove\<close> are proved to implement the list operations \<open>lvl_append\<close> and \<open>lvl_remove\<close>
  that theory \<open>Orderbook\<close> uses. What a level promises its clients is the locale \<open>level_fifo\<close>,
  interpreted on both representations.
\<close>

type_synonym addr = nat

record order_node =
  nd_order :: "oref option"
  nd_next :: "addr option"
  nd_prev :: "addr option"

type_synonym node_heap = "addr \<Rightarrow> order_node"

record plevel =
  pl_price :: price
  pl_total :: quantity
  pl_head :: "addr option"
  pl_tail :: "addr option"

definition set_next :: "addr \<Rightarrow> addr option \<Rightarrow> node_heap \<Rightarrow> node_heap" where
  "set_next a p h = h(a := (h a)\<lparr>nd_next := p\<rparr>)"

definition set_prev :: "addr \<Rightarrow> addr option \<Rightarrow> node_heap \<Rightarrow> node_heap" where
  "set_prev a p h = h(a := (h a)\<lparr>nd_prev := p\<rparr>)"

definition pl_empty :: "node_heap \<times> plevel \<Rightarrow> bool" where
  "pl_empty = (\<lambda>(h, l). pl_head l = None)"

definition pl_append :: "(oref \<Rightarrow> order) \<Rightarrow> addr \<Rightarrow> node_heap \<times> plevel \<Rightarrow> (node_heap \<times> plevel) option" where
  "pl_append st n = (\<lambda>(h, l).
     let h1 = set_next n None (set_prev n (pl_tail l) h);
         (h2, l2) = (case pl_tail l of Some t \<Rightarrow> (set_next t (Some n) h1, l) | None \<Rightarrow> (h1, l\<lparr>pl_head := Some n\<rparr>));
         l3 = l2\<lparr>pl_tail := Some n\<rparr>
     in case nd_order (h2 n) of None \<Rightarrow> None
        | Some o1 \<Rightarrow> Some (h2, l3\<lparr>pl_total := pl_total l3 + remaining_quantity (st o1)\<rparr>))"

definition pl_remove :: "(oref \<Rightarrow> order) \<Rightarrow> addr \<Rightarrow> node_heap \<times> plevel \<Rightarrow> (node_heap \<times> plevel) option" where
  "pl_remove st n = (\<lambda>(h, l).
     let (h1, l1) = (case nd_prev (h n) of Some p \<Rightarrow> (set_next p (nd_next (h n)) h, l)
                     | None \<Rightarrow> (h, l\<lparr>pl_head := nd_next (h n)\<rparr>));
         (h2, l2) = (case nd_next (h1 n) of Some x \<Rightarrow> (set_prev x (nd_prev (h1 n)) h1, l1)
                     | None \<Rightarrow> (h1, l1\<lparr>pl_tail := nd_prev (h1 n)\<rparr>))
     in case nd_order (h2 n) of None \<Rightarrow> None
        | Some o1 \<Rightarrow> Some (set_next n None (set_prev n None h2),
                          l2\<lparr>pl_total := pl_total l2 - remaining_quantity (st o1)\<rparr>))"

text \<open>The loop \<open>while (lvl.head) lvl.remove(lvl.head)\<close> of \<open>apply_l2_update\<close>, with a bound on the number of turns:
  \<open>None\<close> when the bound is used up or a step fails.\<close>

fun drain_all :: "('s \<Rightarrow> 'h option) \<Rightarrow> ('h \<Rightarrow> 's \<Rightarrow> 's option) \<Rightarrow> nat \<Rightarrow> 's \<Rightarrow> 's option" where
  "drain_all fr rm 0 s = (case fr s of None \<Rightarrow> Some s | Some n \<Rightarrow> None)"
| "drain_all fr rm (Suc k) s = (case fr s of None \<Rightarrow> Some s
     | Some n \<Rightarrow> (case rm n s of None \<Rightarrow> None | Some s' \<Rightarrow> drain_all fr rm k s'))"

definition pl_front :: "node_heap \<times> plevel \<Rightarrow> addr option" where
  "pl_front = (\<lambda>(h, l). pl_head l)"

subsection \<open>The node pool\<close>

definition NODE_BLOCK_SIZE :: nat where "NODE_BLOCK_SIZE = 4096"

record node_pool =
  np_heap :: node_heap
  np_blocks :: nat
  np_free :: "addr option"

definition push_free :: "addr \<Rightarrow> node_heap \<times> addr option \<Rightarrow> node_heap \<times> addr option" where
  "push_free a = (\<lambda>(h, f). (h(a := \<lparr>nd_order = None, nd_next = f, nd_prev = None\<rparr>), Some a))"

text \<open>Block \<open>k\<close> holds the addresses from \<open>k * NODE_BLOCK_SIZE\<close> on.\<close>

definition add_block :: "node_pool \<Rightarrow> node_pool" where
  "add_block p =
     (let base = np_blocks p * NODE_BLOCK_SIZE;
          (h, f) = fold (\<lambda>i. push_free (base + i)) [0..<NODE_BLOCK_SIZE] (np_heap p, np_free p)
      in \<lparr>np_heap = h, np_blocks = Suc (np_blocks p), np_free = f\<rparr>)"

definition take_node :: "node_pool \<Rightarrow> (addr \<times> node_pool) option" where
  "take_node p = (case np_free p of None \<Rightarrow> None
     | Some n \<Rightarrow> Some (n, p\<lparr>np_free := nd_next (np_heap p n),
         np_heap := (np_heap p)(n := \<lparr>nd_order = None, nd_next = None, nd_prev = None\<rparr>)\<rparr>))"

definition alloc_node :: "node_pool \<Rightarrow> (addr \<times> node_pool) option" where
  "alloc_node p = take_node (if np_free p = None then add_block p else p)"

definition free_node :: "addr \<Rightarrow> node_pool \<Rightarrow> node_pool" where
  "free_node n p = p\<lparr>np_heap := (np_heap p)(n := \<lparr>nd_order = None, nd_next = np_free p, nd_prev = None\<rparr>),
     np_free := Some n\<rparr>"

subsection \<open>Chains\<close>

text \<open>\<open>dseg h p a xs q b\<close>: from pointer \<open>a\<close>, with predecessor \<open>p\<close>, the nodes \<open>xs\<close> are doubly linked; the last
  pointer reached is \<open>q\<close> (or \<open>p\<close> when empty) and its \<open>next\<close> is \<open>b\<close>.\<close>

fun dseg :: "node_heap \<Rightarrow> addr option \<Rightarrow> addr option \<Rightarrow> addr list \<Rightarrow> addr option \<Rightarrow> addr option \<Rightarrow> bool" where
  "dseg h p a [] q b \<longleftrightarrow> a = b \<and> q = p"
| "dseg h p a (x # xs) q b \<longleftrightarrow> a = Some x \<and> nd_prev (h x) = p \<and> dseg h (Some x) (nd_next (h x)) xs q b"

definition level_nodes :: "node_heap \<times> plevel \<Rightarrow> addr list \<Rightarrow> bool" where
  "level_nodes s xs = (case s of (h, l) \<Rightarrow> distinct xs \<and> dseg h None (pl_head l) xs (pl_tail l) None)"

definition level_refines :: "addr list \<Rightarrow> node_heap \<times> plevel \<Rightarrow> price_level \<Rightarrow> bool" where
  "level_refines xs s v \<longleftrightarrow> level_nodes s xs \<and> map (\<lambda>x. nd_order (fst s x)) xs = map Some (lvl_orders v) \<and>
     pl_price (snd s) = lvl_price v \<and> pl_total (snd s) = total_qty v"

fun free_chain :: "node_heap \<Rightarrow> addr option \<Rightarrow> addr list \<Rightarrow> bool" where
  "free_chain h a [] \<longleftrightarrow> a = None"
| "free_chain h a (x # xs) \<longleftrightarrow> a = Some x \<and> free_chain h (nd_next (h x)) xs"

definition pool_ok :: "node_pool \<Rightarrow> addr list \<Rightarrow> bool" where
  "pool_ok p xs \<longleftrightarrow> free_chain (np_heap p) (np_free p) xs \<and> distinct xs \<and>
     (\<forall>x\<in>set xs. x < np_blocks p * NODE_BLOCK_SIZE)"

lemma set_next_simps [simp]:
  "nd_next (set_next a p h x) = (if x = a then p else nd_next (h x))" "nd_prev (set_next a p h x) = nd_prev (h x)"
  "nd_order (set_next a p h x) = nd_order (h x)"
  by (simp_all add: set_next_def)

lemma set_prev_simps [simp]:
  "nd_prev (set_prev a p h x) = (if x = a then p else nd_prev (h x))" "nd_next (set_prev a p h x) = nd_next (h x)"
  "nd_order (set_prev a p h x) = nd_order (h x)"
  by (simp_all add: set_prev_def)

lemma dseg_append: "dseg h p a (xs @ ys) q b \<longleftrightarrow> (\<exists>r c. dseg h p a xs r c \<and> dseg h r c ys q b)"
  by (induction xs arbitrary: p a) auto

lemma dseg_cong:
  "(\<And>x. x \<in> set xs \<Longrightarrow> nd_next (h' x) = nd_next (h x) \<and> nd_prev (h' x) = nd_prev (h x)) \<Longrightarrow>
   dseg h' p a xs q b = dseg h p a xs q b"
  by (induction xs arbitrary: p a) auto

lemma dseg_last: "dseg h p a xs q b \<Longrightarrow> q = (if xs = [] then p else Some (last xs))"
  by (induction xs arbitrary: p a) auto

lemma dseg_first: "dseg h p a xs q b \<Longrightarrow> a = (if xs = [] then b else Some (hd xs))"
  by (induction xs arbitrary: p a) auto

lemma dseg_relink_last:
  assumes "dseg h p a xs q b" "distinct xs" "xs \<noteq> []"
  shows "dseg (set_next (last xs) c h) p a xs q c"
proof -
  obtain ys t where xs: "xs = ys @ [t]" using assms(3) by (metis append_butlast_last_id)
  with assms(1) obtain r d where "dseg h p a ys r d" "dseg h r d [t] q b" by (auto simp: dseg_append)
  moreover have "dseg (set_next t c h) p a ys r d = dseg h p a ys r d" using assms(2) xs by (intro dseg_cong) auto
  ultimately show ?thesis using xs by (auto simp: dseg_append)
qed

lemma dseg_relink_first:
  assumes "dseg h p a xs q b" "distinct xs" "xs \<noteq> []"
  shows "dseg (set_prev (hd xs) r h) r a xs q b"
proof -
  obtain t ys where xs: "xs = t # ys" using assms(3) by (cases xs) auto
  have "dseg (set_prev t r h) (Some t) (nd_next (h t)) ys q b = dseg h (Some t) (nd_next (h t)) ys q b"
    using assms(2) xs by (intro dseg_cong) auto
  with assms(1) xs show ?thesis by simp
qed

lemma level_nodes_append:
  assumes "level_nodes (h, l) xs" "n \<notin> set xs" "nd_order (h n) = Some o1"
  shows "\<exists>h' l'. pl_append st n (h, l) = Some (h', l') \<and> level_nodes (h', l') (xs @ [n]) \<and>
    (\<forall>x. nd_order (h' x) = nd_order (h x)) \<and> pl_price l' = pl_price l \<and>
    pl_total l' = pl_total l + remaining_quantity (st o1)"
proof -
  have d: "dseg h None (pl_head l) xs (pl_tail l) None" "distinct xs" using assms(1) by (auto simp: level_nodes_def)
  define h1 where "h1 = set_next n None (set_prev n (pl_tail l) h)"
  have d1: "dseg h1 None (pl_head l) xs (pl_tail l) None"
    using d(1) assms(2) unfolding h1_def by (subst dseg_cong) auto
  show ?thesis
  proof (cases "xs = []")
    case True
    with d assms(3) show ?thesis by (simp add: pl_append_def level_nodes_def Let_def)
  next
    case False
    have t: "pl_tail l = Some (last xs)" using dseg_last [OF d(1)] False by simp
    have "last xs \<noteq> n" using assms(2) False by auto
    moreover have "dseg (set_next (last xs) (Some n) h1) None (pl_head l) xs (pl_tail l) (Some n)"
      using dseg_relink_last [OF d1 d(2) False] .
    ultimately have "dseg (set_next (last xs) (Some n) h1) None (pl_head l) (xs @ [n]) (Some n) None"
      unfolding dseg_append using t by (auto simp: h1_def)
    with assms t d(2) show ?thesis
      by (simp add: pl_append_def level_nodes_def Let_def flip: h1_def) (simp add: h1_def)
  qed
qed

lemma unlink_forward:
  assumes "dseg h None (pl_head l) xs r (Some n)" "dseg h (Some n) m ys q None" "distinct (xs @ n # ys)"
    and "(h1, l1) = (case r of Some p \<Rightarrow> (set_next p m h, l) | None \<Rightarrow> (h, l\<lparr>pl_head := m\<rparr>))"
  shows "dseg h1 None (pl_head l1) xs r m" "dseg h1 (Some n) m ys q None" "h1 n = h n" "pl_tail l1 = pl_tail l"
    "pl_price l1 = pl_price l" "pl_total l1 = pl_total l" "nd_order (h1 x) = nd_order (h x)"
proof -
  have r: "r = (if xs = [] then None else Some (last xs))" using dseg_last [OF assms(1)] .
  show "dseg h1 None (pl_head l1) xs r m"
  proof (cases "xs = []")
    case True
    with assms(1,4) r show ?thesis by simp
  next
    case False
    then have "h1 = set_next (last xs) m h" "l1 = l" using r assms(4) by simp_all
    with dseg_relink_last [OF assms(1), of m] assms(3) False show ?thesis by simp
  qed
  have "last xs \<notin> set ys" if "xs \<noteq> []" using assms(3) last_in_set [OF that] by auto
  then have "nd_next (h1 x) = nd_next (h x) \<and> nd_prev (h1 x) = nd_prev (h x)" if "x \<in> set ys" for x
    using that assms(4) r by (cases "xs = []") auto
  then show "dseg h1 (Some n) m ys q None" using assms(2) by (subst dseg_cong) auto
  show "h1 n = h n" using assms(3,4) r by (cases "xs = []") (auto simp: set_next_def)
qed (use assms(4) in \<open>auto split: option.splits\<close>)

lemma unlink_backward:
  assumes "dseg h None (pl_head l) xs r m" "dseg h (Some n) m ys (pl_tail l) None" "distinct (xs @ n # ys)"
    and "(h1, l1) = (case m of Some x \<Rightarrow> (set_prev x r h, l) | None \<Rightarrow> (h, l\<lparr>pl_tail := r\<rparr>))"
  shows "dseg h1 None (pl_head l1) (xs @ ys) (pl_tail l1) None" "nd_order (h1 x) = nd_order (h x)"
    "pl_price l1 = pl_price l" "pl_total l1 = pl_total l"
proof -
  have m: "m = (if ys = [] then None else Some (hd ys))" using dseg_first [OF assms(2)] .
  show "dseg h1 None (pl_head l1) (xs @ ys) (pl_tail l1) None"
  proof (cases "ys = []")
    case True
    with m assms(1,4) show ?thesis by simp
  next
    case False
    then have e: "h1 = set_prev (hd ys) r h" "l1 = l" using m assms(4) by simp_all
    have "hd ys \<notin> set xs" using assms(3) hd_in_set [OF False] by auto
    then have "dseg h1 None (pl_head l) xs r m" using assms(1) e by (subst dseg_cong) auto
    moreover have "dseg h1 r m ys (pl_tail l) None"
      using dseg_relink_first [OF assms(2), of r] assms(3) False e by simp
    ultimately show ?thesis using e by (auto simp: dseg_append)
  qed
qed (use assms(4) in \<open>auto split: option.splits\<close>)

lemma level_nodes_remove:
  assumes "level_nodes (h, l) xs" "n \<in> set xs" "nd_order (h n) = Some o1"
  shows "\<exists>h' l'. pl_remove st n (h, l) = Some (h', l') \<and> level_nodes (h', l') (remove1 n xs) \<and>
    (\<forall>x. nd_order (h' x) = nd_order (h x)) \<and> pl_price l' = pl_price l \<and>
    pl_total l' = pl_total l - remaining_quantity (st o1)"
proof -
  obtain ys zs where xs: "xs = ys @ n # zs" using assms(2) by (meson split_list)
  have d: "dseg h None (pl_head l) (ys @ n # zs) (pl_tail l) None" and dd: "distinct (ys @ n # zs)"
    using assms(1) xs by (auto simp: level_nodes_def)
  obtain r where s: "dseg h None (pl_head l) ys r (Some n)" "nd_prev (h n) = r" "dseg h (Some n) (nd_next (h n)) zs (pl_tail l) None"
    using d by (auto simp: dseg_append)
  obtain h1 l1 where e1: "(h1, l1) = (case r of Some p \<Rightarrow> (set_next p (nd_next (h n)) h, l) | None \<Rightarrow> (h, l\<lparr>pl_head := nd_next (h n)\<rparr>))"
    by (metis surj_pair)
  note f = unlink_forward [OF s(1,3) dd e1]
  obtain h2 l2 where e2: "(h2, l2) = (case nd_next (h n) of Some x \<Rightarrow> (set_prev x r h1, l1) | None \<Rightarrow> (h1, l1\<lparr>pl_tail := r\<rparr>))"
    by (metis surj_pair)
  note g = unlink_backward [OF f(1) _ dd e2] f(2) [folded f(4)]
  let ?h3 = "set_next n None (set_prev n None h2)" and ?l3 = "l2\<lparr>pl_total := pl_total l2 - remaining_quantity (st o1)\<rparr>"
  have "dseg h2 None (pl_head l2) (ys @ zs) (pl_tail l2) None" using g(1) g(5) .
  then have "dseg ?h3 None (pl_head l2) (ys @ zs) (pl_tail l2) None" using dd by (subst dseg_cong) auto
  moreover have "remove1 n xs = ys @ zs" using dd xs by (simp add: remove1_append)
  moreover have "nd_order (h2 n) = Some o1" using g(2,5) f(7) assms(3) by simp
  moreover from this have "pl_remove st n (h, l) = Some (?h3, ?l3)"
    unfolding pl_remove_def prod.case Let_def s(2) e1 [symmetric] f(3) e2 [symmetric] by simp
  ultimately show ?thesis using g f(5-7) dd by (simp add: level_nodes_def)
qed

subsection \<open>What a level promises\<close>

text \<open>A level is a queue of handles: appending a handle puts it last, removing one takes it out wherever it is,
  and the front is the oldest one left. A handle is ready when its order is set.\<close>

locale level_fifo =
  fixes rep :: "'s \<Rightarrow> 'h list \<Rightarrow> bool" and ready :: "'h \<Rightarrow> 's \<Rightarrow> bool"
    and append remove :: "'h \<Rightarrow> 's \<Rightarrow> 's option" and front :: "'s \<Rightarrow> 'h option"
  assumes append_law: "rep s hs \<Longrightarrow> ready h s \<Longrightarrow> h \<notin> set hs \<Longrightarrow>
      \<exists>s'. append h s = Some s' \<and> rep s' (hs @ [h]) \<and> (\<forall>k. ready k s \<longrightarrow> ready k s')"
    and remove_law: "rep s hs \<Longrightarrow> ready h s \<Longrightarrow> h \<in> set hs \<Longrightarrow>
      \<exists>s'. remove h s = Some s' \<and> rep s' (remove1 h hs) \<and> (\<forall>k. ready k s \<longrightarrow> ready k s')"
    and front_law: "rep s hs \<Longrightarrow> front s = (case hs of [] \<Rightarrow> None | h # _ \<Rightarrow> Some h)"
begin

lemma drain_ends:
  "rep s hs \<Longrightarrow> \<forall>h\<in>set hs. ready h s \<Longrightarrow> \<exists>s'. drain_all front remove (length hs) s = Some s' \<and> rep s' []"
proof (induction hs arbitrary: s)
  case Nil
  then show ?case using front_law by fastforce
next
  case (Cons h hs)
  have f: "front s = Some h" using front_law [OF Cons.prems(1)] by simp
  obtain s1 where s1: "remove h s = Some s1" "rep s1 hs" "\<forall>k. ready k s \<longrightarrow> ready k s1"
    using remove_law [OF Cons.prems(1), of h] Cons.prems(2) by auto
  from Cons.IH [OF s1(2)] s1 f Cons.prems(2) show ?case by auto
qed

lemma first_in_first_out:
  assumes "rep s (h # hs)" "ready h s" "ready k s" "k \<notin> set (h # hs)"
  shows "\<exists>s1 s2. append k s = Some s1 \<and> front s1 = Some h \<and> remove h s1 = Some s2 \<and> rep s2 (hs @ [k])"
proof -
  obtain s1 where s1: "append k s = Some s1" "rep s1 (h # hs @ [k])" "\<forall>x. ready x s \<longrightarrow> ready x s1"
    using append_law [OF assms(1,3,4)] by auto
  moreover obtain s2 where "remove h s1 = Some s2" "rep s2 (hs @ [k])"
    using remove_law [OF s1(2), of h] s1(3) assms(2) by auto
  ultimately show ?thesis using front_law [OF s1(2)] by auto
qed

end

interpretation lvl: level_fifo "\<lambda>l hs. lvl_orders l = hs" "\<lambda>_ _. True"
    "\<lambda>n l. Some (lvl_append st n l)" "\<lambda>n l. Some (lvl_remove st n l)"
    "\<lambda>l. case lvl_orders l of [] \<Rightarrow> None | n # _ \<Rightarrow> Some n" for st
  by unfold_locales (auto simp: lvl_append_def lvl_remove_def)

interpretation pl: level_fifo level_nodes "\<lambda>n s. nd_order (fst s n) \<noteq> None" "pl_append st" "pl_remove st" pl_front for st
proof
  fix s :: "node_heap \<times> plevel" and hs n assume a: "level_nodes s hs" "nd_order (fst s n) \<noteq> None"
  obtain h l where s: "s = (h, l)" by fastforce
  with a(2) obtain o1 where o1: "nd_order (h n) = Some o1" by auto
  have l: "level_nodes (h, l) hs" using a(1) s by simp
  show "n \<notin> set hs \<Longrightarrow> \<exists>s'. pl_append st n s = Some s' \<and> level_nodes s' (hs @ [n]) \<and>
      (\<forall>k. nd_order (fst s k) \<noteq> None \<longrightarrow> nd_order (fst s' k) \<noteq> None)"
    using level_nodes_append [OF l _ o1, of st] s by fastforce
  show "n \<in> set hs \<Longrightarrow> \<exists>s'. pl_remove st n s = Some s' \<and> level_nodes s' (remove1 n hs) \<and>
      (\<forall>k. nd_order (fst s k) \<noteq> None \<longrightarrow> nd_order (fst s' k) \<noteq> None)"
    using level_nodes_remove [OF l _ o1, of st] s by fastforce
next
  fix s :: "node_heap \<times> plevel" and hs assume "level_nodes s hs"
  then show "pl_front s = (case hs of [] \<Rightarrow> None | n # _ \<Rightarrow> Some n)"
    using dseg_first by (cases hs) (auto simp: pl_front_def level_nodes_def)
qed

subsection \<open>The pool hands out unused nodes\<close>

lemma free_chain_cong: "(\<And>x. x \<in> set xs \<Longrightarrow> nd_next (h' x) = nd_next (h x)) \<Longrightarrow> free_chain h' a xs = free_chain h a xs"
  by (induction xs arbitrary: a) auto

lemma add_block_loop:
  assumes "free_chain h f xs" "\<forall>x\<in>set xs. x < base"
  shows "fold (\<lambda>i. push_free (base + i)) [0..<k] (h, f) = (h', f')
    \<Longrightarrow> free_chain h' f' (rev (map ((+) base) [0..<k]) @ xs) \<and> (\<forall>x<base. h' x = h x)"
proof (induction k arbitrary: h' f')
  case 0
  with assms show ?case by simp
next
  case (Suc k)
  obtain h1 f1 where l: "fold (\<lambda>i. push_free (base + i)) [0..<k] (h, f) = (h1, f1)"
    by fastforce
  with Suc.prems have e: "h' = h1(base + k := \<lparr>nd_order = None, nd_next = f1, nd_prev = None\<rparr>)" "f' = Some (base + k)" by (auto simp: push_free_def)
  let ?ys = "rev (map ((+) base) [0..<k]) @ xs"
  have "free_chain h' f1 ?ys = free_chain h1 f1 ?ys"
    using assms(2) e by (intro free_chain_cong) auto
  moreover have "nd_next (h' (base + k)) = f1" "\<forall>x<base. h' x = h1 x" using e(1) by simp_all
  ultimately show ?case using Suc.IH [OF l] unfolding e(2) by simp
qed

lemma alloc_node_ok:
  assumes ok: "pool_ok p xs"
  shows "\<exists>n p' ys. alloc_node p = Some (n, p') \<and> pool_ok p' ys \<and> n \<notin> set ys \<and> n < np_blocks p' * NODE_BLOCK_SIZE \<and>
    np_heap p' n = \<lparr>nd_order = None, nd_next = None, nd_prev = None\<rparr> \<and>
    (if xs = [] then np_blocks p * NODE_BLOCK_SIZE \<le> n else n = hd xs \<and> ys = tl xs) \<and>
    (\<forall>x. x \<noteq> n \<and> x < np_blocks p * NODE_BLOCK_SIZE \<longrightarrow> np_heap p' x = np_heap p x)"
proof -
  have take: "\<exists>p'. take_node q = Some (n, p') \<and> pool_ok p' ys \<and> np_blocks p' = np_blocks q \<and>
      np_heap p' = (np_heap q)(n := \<lparr>nd_order = None, nd_next = None, nd_prev = None\<rparr>)" if q: "pool_ok q (n # ys)" for q n ys
  proof -
    have "free_chain ((np_heap q)(n := \<lparr>nd_order = None, nd_next = None, nd_prev = None\<rparr>)) (nd_next (np_heap q n)) ys"
      using q by (subst free_chain_cong [of _ _ "np_heap q"]) (auto simp: pool_ok_def)
    with q show ?thesis by (auto simp: take_node_def pool_ok_def)
  qed
  show ?thesis
  proof (cases xs)
    case (Cons n ys)
    then have "np_free p \<noteq> None" using ok by (simp add: pool_ok_def)
    with take [of p n ys] ok Cons show ?thesis by (auto simp: alloc_node_def pool_ok_def)
  next
    case Nil
    let ?b = "np_blocks p * NODE_BLOCK_SIZE"
    have f: "np_free p = None" using ok Nil by (simp add: pool_ok_def)
    obtain h f' where l: "fold (\<lambda>i. push_free (?b + i)) [0..<NODE_BLOCK_SIZE] (np_heap p, np_free p) = (h, f')" by fastforce
    define ys where "ys = rev (map ((+) ?b) [0..<NODE_BLOCK_SIZE - 1])"
    have sz: "NODE_BLOCK_SIZE = Suc (NODE_BLOCK_SIZE - 1)" by (simp add: NODE_BLOCK_SIZE_def)
    have full: "rev (map ((+) ?b) [0..<NODE_BLOCK_SIZE]) = (?b + (NODE_BLOCK_SIZE - 1)) # ys"
      unfolding ys_def by (subst sz) simp
    have c: "free_chain h f' ((?b + (NODE_BLOCK_SIZE - 1)) # ys)" "\<forall>x<?b. h x = np_heap p x"
      using add_block_loop [of "np_heap p" "np_free p" "[]" ?b NODE_BLOCK_SIZE h f'] f l full by auto
    have q: "add_block p = \<lparr>np_heap = h, np_blocks = Suc (np_blocks p), np_free = f'\<rparr>" by (simp add: add_block_def l)
    define n where "n = ?b + (NODE_BLOCK_SIZE - 1)"
    have "distinct (n # ys)" "\<forall>x\<in>set (n # ys). x < Suc (np_blocks p) * NODE_BLOCK_SIZE"
      by (auto simp: n_def ys_def distinct_map inj_on_def NODE_BLOCK_SIZE_def)
    with c(1) [folded n_def] have po: "pool_ok (add_block p) (n # ys)"
      unfolding q pool_ok_def node_pool.simps by blast
    from take [OF po] obtain p' where p': "alloc_node p = Some (n, p')" "pool_ok p' ys" "np_blocks p' = Suc (np_blocks p)"
      "np_heap p' = h(n := \<lparr>nd_order = None, nd_next = None, nd_prev = None\<rparr>)"
      using f q by (auto simp: alloc_node_def)
    have "n \<notin> set ys" "n < np_blocks p' * NODE_BLOCK_SIZE" "?b \<le> n" using po p'(3) q by (auto simp: pool_ok_def) (simp add: n_def)
    with p' c(2) Nil show ?thesis by (intro exI [of _ n] exI [of _ p'] exI [of _ ys]) simp
  qed
qed

subsection \<open>Refinement\<close>

lemma map_remove1_inj: "distinct (map f xs) \<Longrightarrow> n \<in> set xs \<Longrightarrow> map f (remove1 n xs) = remove1 (f n) (map f xs)"
proof (induction xs)
  case (Cons a xs)
  then have "f n \<noteq> f a" if "n \<noteq> a" using that by (auto simp: image_iff)
  with Cons show ?case by auto
qed simp

lemma remove1_map_Some: "remove1 (Some x) (map Some ys) = map Some (remove1 x ys)"
  by (induction ys) auto

lemma append_refines:
  assumes "level_refines xs (h, l) v" "n \<notin> set xs" "nd_order (h n) = Some o1"
  shows "\<exists>s'. pl_append st n (h, l) = Some s' \<and> level_refines (xs @ [n]) s' (lvl_append st o1 v)"
  using level_nodes_append [of h l xs n o1 st] assms by (auto simp: level_refines_def lvl_append_def)

lemma remove_refines:
  assumes r: "level_refines xs (h, l) v" and n: "n \<in> set xs" "nd_order (h n) = Some o1" and d: "distinct (lvl_orders v)"
  shows "\<exists>s'. pl_remove st n (h, l) = Some s' \<and> level_refines (remove1 n xs) s' (lvl_remove st o1 v)"
proof -
  have m: "map (\<lambda>x. nd_order (h x)) xs = map Some (lvl_orders v)" using r by (simp add: level_refines_def)
  then have "distinct (map (\<lambda>x. nd_order (h x)) xs)" using d by (simp add: distinct_map)
  from map_remove1_inj [OF this n(1)] m n(2)
  have "map (\<lambda>x. nd_order (h x)) (remove1 n xs) = remove1 (Some o1) (map Some (lvl_orders v))" by simp
  also have "\<dots> = map Some (remove1 o1 (lvl_orders v))" by (rule remove1_map_Some)
  finally show ?thesis
    using level_nodes_remove [of h l xs n o1 st] r n by (auto simp: level_refines_def lvl_remove_def)
qed

text \<open>C13: The pointer operations of a price level implement the list operations of the order book: if the linked
  nodes of a level spell out its queue, then \<open>append\<close> of a node outside the chain and \<open>remove\<close> of a node in it
  succeed and leave nodes that spell out the queue after \<open>lvl_append\<close> and \<open>lvl_remove\<close>, totals included.\<close>

theorem price_level_refines:
  assumes "level_refines xs (h, l) v" "distinct (lvl_orders v)" "nd_order (h n) = Some o1"
  shows "(n \<notin> set xs \<longrightarrow> (\<exists>s'. pl_append st n (h, l) = Some s' \<and> level_refines (xs @ [n]) s' (lvl_append st o1 v))) \<and>
    (n \<in> set xs \<longrightarrow> (\<exists>s'. pl_remove st n (h, l) = Some s' \<and> level_refines (remove1 n xs) s' (lvl_remove st o1 v)))"
  using append_refines [OF assms(1) _ assms(3)] remove_refines [OF assms(1) _ assms(3,2)] by blast

definition demo_heap :: node_heap where
  "demo_heap n = (if n = 0 then \<lparr>nd_order = Some 10, nd_next = Some 1, nd_prev = None\<rparr>
     else if n = 1 then \<lparr>nd_order = Some 11, nd_next = None, nd_prev = Some 0\<rparr>
     else \<lparr>nd_order = Some 12, nd_next = None, nd_prev = None\<rparr>)"

definition demo_level :: plevel where
  "demo_level = \<lparr>pl_price = 100, pl_total = 8, pl_head = Some 0, pl_tail = Some 1\<rparr>"

lemma demo_refines:
  "level_refines [0, 1] (demo_heap, demo_level) \<lparr>lvl_price = 100, total_qty = 8, lvl_orders = [10, 11]\<rparr>"
  by (simp add: level_refines_def level_nodes_def demo_heap_def demo_level_def)

theorem price_level_refines_witness:
  "\<exists>s'. pl_remove (\<lambda>_. mk_order Good_Till_Cancel 1 Side_Buy 100 4) 0 (demo_heap, demo_level) = Some s' \<and>
     level_refines [1] s' \<lparr>lvl_price = 100, total_qty = 4, lvl_orders = [11]\<rparr>"
  using price_level_refines [OF demo_refines, of 0 10 "\<lambda>_. mk_order Good_Till_Cancel 1 Side_Buy 100 4"]
  by (simp add: lvl_remove_def demo_heap_def)

text \<open>Emptying a level node by node ends: with as many turns as the level has nodes, the loop
  \<open>while (lvl.head)\<close> of \<open>apply_l2_update\<close> returns, and the level is empty.\<close>

theorem drain_level_ends:
  assumes "level_nodes (h, l) xs" "\<forall>n\<in>set xs. nd_order (h n) \<noteq> None"
  shows "\<exists>s'. drain_all pl_front (pl_remove st) (length xs) (h, l) = Some s' \<and> level_nodes s' [] \<and> pl_empty s'"
proof -
  obtain s' where s: "drain_all pl_front (pl_remove st) (length xs) (h, l) = Some s'" "level_nodes s' []"
    using pl.drain_ends [of "(h, l)" xs st] assms by auto
  then show ?thesis using pl.front_law [of s' "[]"] by (auto simp: pl_empty_def pl_front_def)
qed

theorem drain_level_ends_witness:
  "\<exists>s'. drain_all pl_front (pl_remove (\<lambda>_. mk_order Good_Till_Cancel 1 Side_Buy 100 4)) 2 (demo_heap, demo_level) = Some s' \<and>
     pl_empty s'"
proof -
  have "level_nodes (demo_heap, demo_level) [0, 1]" "\<forall>n\<in>set [0, 1]. nd_order (demo_heap n) \<noteq> None"
    by (simp_all add: level_nodes_def demo_heap_def demo_level_def)
  from drain_level_ends [OF this] show ?thesis by (simp add: numeral_2_eq_2) blast
qed

text \<open>\<open>alloc_node\<close> always returns a node, taken off the free list (or from a fresh block when the list is
  empty), with its pointers cleared, and touches no other node in use.\<close>

theorem alloc_node_unused:
  assumes "pool_ok p xs"
  shows "\<exists>n p' ys. alloc_node p = Some (n, p') \<and> pool_ok p' ys \<and> n \<notin> set ys \<and> n < np_blocks p' * NODE_BLOCK_SIZE \<and>
    np_heap p' n = \<lparr>nd_order = None, nd_next = None, nd_prev = None\<rparr> \<and>
    (if xs = [] then np_blocks p * NODE_BLOCK_SIZE \<le> n else n = hd xs \<and> ys = tl xs) \<and>
    (\<forall>x. x \<noteq> n \<and> x < np_blocks p * NODE_BLOCK_SIZE \<longrightarrow> np_heap p' x = np_heap p x)"
  using assms by (rule alloc_node_ok)

theorem alloc_node_unused_witness:
  "\<exists>n p'. alloc_node (free_node 5 \<lparr>np_heap = demo_heap, np_blocks = 1, np_free = None\<rparr>) = Some (n, p') \<and> n = 5"
proof -
  have "pool_ok (free_node 5 \<lparr>np_heap = demo_heap, np_blocks = 1, np_free = None\<rparr>) [5]"
    by (simp add: pool_ok_def free_node_def NODE_BLOCK_SIZE_def)
  from alloc_node_unused [OF this] show ?thesis by auto
qed

end
