(* ===== verification/Ring_Buffer.thy ===== *)
theory Ring_Buffer
  imports TT_Prelude
begin

unbundle bit_operations_syntax

text \<open>
  The single-producer single-consumer ring, \<open>src/threading/ring_buffer.h\<close>. The member functions are given twice:
  as whole operations (\<open>try_push\<close>, \<open>try_pop\<close>, \<open>push\<close> per policy) and, for the two threads, as the steps between
  their atomic accesses (\<open>ring_step\<close>), which interleave freely. A step is a load, the write of a slot, or a
  publishing store; acquire and release order exactly these, so an interleaving semantics is adequate.
  Positions are 64-bit words; \<open>rp >= wp\<close> in \<open>try_pop\<close> is not safe for a wrapped write position, so the
  statements bound the number of pushes by 2 to the 64. The capacity is a parameter, a power of two.
  The watermark callback, installed at startup and unused in the tree, is left out.
\<close>

datatype ring_policy = SpinWait | DropOldest | AssertFull

record 'a ring =
  rb_data :: "nat \<Rightarrow> 'a"
  write_pos :: u64
  read_pos :: u64
  high_watermark :: u64
  drop_count :: u64

definition mk_ring :: "'a \<Rightarrow> 'a ring" where
  "mk_ring d = \<lparr>rb_data = (\<lambda>_. d), write_pos = 0, read_pos = 0, high_watermark = 0, drop_count = 0\<rparr>"

definition slot_of :: "u64 \<Rightarrow> u64 \<Rightarrow> nat" where
  "slot_of n pos = unat (pos AND (n - 1))"

definition raise_watermark :: "u64 \<Rightarrow> 'a ring \<Rightarrow> 'a ring" where
  "raise_watermark occ r = (if occ > high_watermark r then r\<lparr>high_watermark := occ\<rparr> else r)"

definition try_push :: "u64 \<Rightarrow> 'a \<Rightarrow> 'a ring \<Rightarrow> bool \<times> 'a ring" where
  "try_push n x r =
     (let wp = write_pos r; rp = read_pos r in
      if wp - rp \<ge> n then (False, r)
      else (True, raise_watermark (wp + 1 - rp)
             (r\<lparr>rb_data := (rb_data r)(slot_of n wp := x), write_pos := wp + 1\<rparr>)))"

definition try_pop :: "u64 \<Rightarrow> 'a \<Rightarrow> 'a ring \<Rightarrow> 'a option \<times> 'a ring" where
  "try_pop n d r =
     (let rp = read_pos r; wp = write_pos r in
      if rp \<ge> wp then (None, r)
      else (Some (rb_data r (slot_of n rp)), r\<lparr>rb_data := (rb_data r)(slot_of n rp := d), read_pos := rp + 1\<rparr>))"

text \<open>\<open>push\<close>: \<open>None\<close> when it does not return (spinning on a full ring that nobody empties) or throws; the spin
  loop of a single thread never sees the ring change.\<close>

definition push :: "ring_policy \<Rightarrow> u64 \<Rightarrow> 'a \<Rightarrow> 'a \<Rightarrow> 'a ring \<Rightarrow> 'a ring option" where
  "push pol n d x r =
     (case pol of
        DropOldest \<Rightarrow>
          (let (ok, r1) = try_push n x r in
           if ok then Some r1
           else (let (_, r2) = try_pop n d r1; r3 = r2\<lparr>drop_count := drop_count r2 + 1\<rparr> in Some (snd (try_push n x r3))))
      | _ \<Rightarrow> (let (ok, r1) = try_push n x r in if ok then Some r1 else None))"

definition ring_size :: "'a ring \<Rightarrow> u64" where "ring_size r = write_pos r - read_pos r"
definition ring_empty :: "'a ring \<Rightarrow> bool" where "ring_empty r \<longleftrightarrow> ring_size r = 0"
definition ring_full :: "u64 \<Rightarrow> 'a ring \<Rightarrow> bool" where "ring_full n r \<longleftrightarrow> ring_size r \<ge> n"
definition reset_metrics :: "'a ring \<Rightarrow> 'a ring" where "reset_metrics r = r\<lparr>high_watermark := 0, drop_count := 0\<rparr>"

subsection \<open>The two threads\<close>

datatype 'a producer = P_Idle | P_Loaded 'a u64 u64 | P_Written 'a u64 u64
datatype 'a consumer = C_Idle | C_Loaded u64 u64 | C_Took 'a u64

text \<open>\<open>pushed\<close> and \<open>popped\<close> record the items in the order in which \<open>try_push\<close> and \<open>try_pop\<close> returned them.\<close>

record 'a ring_sys =
  ring :: "'a ring"
  prod :: "'a producer"
  cons :: "'a consumer"
  pushed :: "'a list"
  popped :: "'a list"

inductive ring_step :: "u64 \<Rightarrow> 'a \<Rightarrow> 'a ring_sys \<Rightarrow> 'a ring_sys \<Rightarrow> bool" for n d where
  push_load: "prod s = P_Idle \<Longrightarrow> ring_step n d s (s\<lparr>prod := P_Loaded x (write_pos (ring s)) (read_pos (ring s))\<rparr>)"
| push_full: "prod s = P_Loaded x wp rp \<Longrightarrow> wp - rp \<ge> n \<Longrightarrow> ring_step n d s (s\<lparr>prod := P_Idle\<rparr>)"
| push_write: "prod s = P_Loaded x wp rp \<Longrightarrow> \<not> wp - rp \<ge> n \<Longrightarrow>
    ring_step n d s (s\<lparr>prod := P_Written x wp rp, ring := (ring s)\<lparr>rb_data := (rb_data (ring s))(slot_of n wp := x)\<rparr>\<rparr>)"
| push_publish: "prod s = P_Written x wp rp \<Longrightarrow>
    ring_step n d s (s\<lparr>prod := P_Idle, ring := raise_watermark (wp + 1 - rp) ((ring s)\<lparr>write_pos := wp + 1\<rparr>), pushed := pushed s @ [x]\<rparr>)"
| pop_load: "cons s = C_Idle \<Longrightarrow> ring_step n d s (s\<lparr>cons := C_Loaded (read_pos (ring s)) (write_pos (ring s))\<rparr>)"
| pop_empty: "cons s = C_Loaded rp wp \<Longrightarrow> rp \<ge> wp \<Longrightarrow> ring_step n d s (s\<lparr>cons := C_Idle\<rparr>)"
| pop_take: "cons s = C_Loaded rp wp \<Longrightarrow> \<not> rp \<ge> wp \<Longrightarrow>
    ring_step n d s (s\<lparr>cons := C_Took (rb_data (ring s) (slot_of n rp)) rp,
      ring := (ring s)\<lparr>rb_data := (rb_data (ring s))(slot_of n rp := d)\<rparr>\<rparr>)"
| pop_publish: "cons s = C_Took x rp \<Longrightarrow>
    ring_step n d s (s\<lparr>cons := C_Idle, ring := (ring s)\<lparr>read_pos := rp + 1\<rparr>, popped := popped s @ [x]\<rparr>)"

inductive_cases ring_stepE: "ring_step n d s s'"

definition ring_init :: "'a \<Rightarrow> 'a ring_sys" where
  "ring_init d = \<lparr>ring = mk_ring d, prod = P_Idle, cons = C_Idle, pushed = [], popped = []\<rparr>"

inductive ring_reach :: "u64 \<Rightarrow> 'a \<Rightarrow> 'a ring_sys \<Rightarrow> bool" for n d where
  start: "ring_reach n d (ring_init d)"
| more: "ring_reach n d s \<Longrightarrow> ring_step n d s s' \<Longrightarrow> ring_reach n d s'"

subsection \<open>Slots\<close>

lemma unat_two_power: assumes "k < 64" shows "unat ((2::u64) ^ k) = 2 ^ k"
proof -
  have "(2::nat) ^ k < 2 ^ LENGTH(64)" using assms by (intro power_strict_increasing) simp_all
  then have "unat (word_of_nat (2 ^ k) :: u64) = 2 ^ k" by (simp only: unsigned_of_nat take_bit_nat_eq_self of_nat_id)
  then show ?thesis by simp
qed

lemma slot_of_mod:
  assumes "k < 64"
  shows "slot_of (2 ^ k) pos = unat pos mod 2 ^ k"
proof -
  have "pos AND (2 ^ k - 1) = take_bit k pos" by (simp only: take_bit_eq_mask mask_eq_exp_minus_1)
  then have "slot_of (2 ^ k) pos = take_bit k (unat pos)" by (simp only: slot_of_def unsigned_take_bit_eq)
  then show ?thesis by (simp only: take_bit_eq_mod)
qed

lemma mod_neq:
  assumes "(i::nat) < j" "j < i + m"
  shows "i mod m \<noteq> j mod m"
proof
  assume e: "i mod m = j mod m"
  then have "m dvd j - i" using assms(1) mod_eq_dvd_iff_nat [of i j m] by simp
  then show False using assms by (auto dest: dvd_imp_le)
qed

subsection \<open>The invariant\<close>

definition prod_ok :: "nat \<Rightarrow> 'a ring_sys \<Rightarrow> bool" where
  "prod_ok m s = (case prod s of P_Idle \<Rightarrow> True
     | P_Loaded x wp rp \<Rightarrow> wp = write_pos (ring s) \<and> unat rp \<le> length (popped s)
     | P_Written x wp rp \<Rightarrow> wp = write_pos (ring s) \<and> length (pushed s) < length (popped s) + m \<and>
         rb_data (ring s) (length (pushed s) mod m) = x)"

definition cons_ok :: "nat \<Rightarrow> 'a ring_sys \<Rightarrow> bool" where
  "cons_ok m s = (case cons s of C_Idle \<Rightarrow> True
     | C_Loaded rp wp \<Rightarrow> rp = read_pos (ring s) \<and> unat wp \<le> length (pushed s)
     | C_Took x rp \<Rightarrow> rp = read_pos (ring s) \<and> length (popped s) < length (pushed s) \<and> x = pushed s ! length (popped s))"

definition first_live :: "'a ring_sys \<Rightarrow> nat" where
  "first_live s = (case cons s of C_Took x rp \<Rightarrow> Suc (length (popped s)) | _ \<Rightarrow> length (popped s))"

definition ring_inv :: "nat \<Rightarrow> 'a ring_sys \<Rightarrow> bool" where
  "ring_inv m s \<longleftrightarrow> unat (write_pos (ring s)) = length (pushed s) \<and> unat (read_pos (ring s)) = length (popped s) \<and>
     length (popped s) \<le> length (pushed s) \<and> length (pushed s) \<le> length (popped s) + m \<and>
     popped s = take (length (popped s)) (pushed s) \<and>
     (\<forall>i. first_live s \<le> i \<and> i < length (pushed s) \<longrightarrow> rb_data (ring s) (i mod m) = pushed s ! i) \<and> prod_ok m s \<and> cons_ok m s"

lemma ring_init_inv: "ring_inv m (ring_init d)"
  by (simp add: ring_inv_def ring_init_def mk_ring_def prod_ok_def cons_ok_def first_live_def)

lemma unat_Suc: "Suc (unat (w::u64)) < 2 ^ 64 \<Longrightarrow> unat (w + 1) = Suc (unat w)"
  by (simp add: unat_word_ariths)

lemma raise_watermark_frame [simp]:
  "rb_data (raise_watermark occ r) = rb_data r" "write_pos (raise_watermark occ r) = write_pos r"
  "read_pos (raise_watermark occ r) = read_pos r"
  by (simp_all add: raise_watermark_def)

lemma push_steps_inv:
  assumes inv: "ring_inv (2 ^ k) s" and k: "k < 64" and p: "prod s = P_Loaded x wp rp" and r: "\<not> wp - rp \<ge> 2 ^ k"
  shows "ring_inv (2 ^ k) (s\<lparr>prod := P_Written x wp rp, ring := (ring s)\<lparr>rb_data := (rb_data (ring s))(slot_of (2 ^ k) wp := x)\<rparr>\<rparr>)"
proof -
  let ?P = "length (pushed s)" and ?Q = "length (popped s)"
  from inv p have w: "wp = write_pos (ring s)" "unat wp = ?P" "unat rp \<le> ?Q" "?Q \<le> ?P"
    by (auto simp: ring_inv_def prod_ok_def)
  have "rp \<le> wp" using w by (simp add: word_le_nat_alt)
  then have "unat (wp - rp) = ?P - unat rp" using w(2) by (simp add: unat_sub)
  moreover have "unat (wp - rp) < 2 ^ k" using r by (simp add: not_le word_less_nat_alt unat_two_power [OF k])
  ultimately have room: "?P < ?Q + 2 ^ k" using w(3) by linarith
  have slot: "slot_of (2 ^ k) wp = ?P mod 2 ^ k" unfolding slot_of_mod [OF k] w(2) ..
  have keep: "i mod 2 ^ k \<noteq> ?P mod 2 ^ k" if "first_live s \<le> i" "i < ?P" for i
    using mod_neq [of i ?P "2 ^ k"] that room by (auto simp: first_live_def split: consumer.splits)
  show ?thesis using inv p w room slot keep
    by (auto simp: ring_inv_def prod_ok_def cons_ok_def first_live_def split: consumer.splits)
qed

lemma push_publish_inv:
  assumes inv: "ring_inv m s" and p: "prod s = P_Written x wp rp" and b: "Suc (length (pushed s)) < 2 ^ 64"
  shows "ring_inv m (s\<lparr>prod := P_Idle, ring := raise_watermark (wp + 1 - rp) ((ring s)\<lparr>write_pos := wp + 1\<rparr>), pushed := pushed s @ [x]\<rparr>)"
proof -
  let ?P = "length (pushed s)" and ?Q = "length (popped s)"
  from inv p have w: "unat wp = ?P" "?P < ?Q + m" "rb_data (ring s) (?P mod m) = x"
    by (auto simp: ring_inv_def prod_ok_def)
  have "unat (wp + 1) = Suc ?P" using unat_Suc [of wp] w(1) b by simp
  then show ?thesis using inv p w
    by (auto simp: ring_inv_def prod_ok_def cons_ok_def first_live_def nth_append less_Suc_eq split: consumer.splits)
qed

lemma pop_take_inv:
  assumes inv: "ring_inv (2 ^ k) s" and k: "k < 64" and c: "cons s = C_Loaded rp wp" and r: "\<not> rp \<ge> wp"
  shows "ring_inv (2 ^ k) (s\<lparr>cons := C_Took (rb_data (ring s) (slot_of (2 ^ k) rp)) rp,
      ring := (ring s)\<lparr>rb_data := (rb_data (ring s))(slot_of (2 ^ k) rp := d)\<rparr>\<rparr>)"
proof -
  let ?P = "length (pushed s)" and ?Q = "length (popped s)"
  from inv c have w: "rp = read_pos (ring s)" "unat rp = ?Q" "unat wp \<le> ?P" "?P \<le> ?Q + 2 ^ k"
    by (auto simp: ring_inv_def cons_ok_def)
  have q: "?Q < ?P" using r w by (simp add: word_le_nat_alt)
  have slot: "slot_of (2 ^ k) rp = ?Q mod 2 ^ k" unfolding slot_of_mod [OF k] w(2) ..
  have live: "rb_data (ring s) (?Q mod 2 ^ k) = pushed s ! ?Q"
    using inv c q by (simp add: ring_inv_def first_live_def)
  have keep: "i mod 2 ^ k \<noteq> ?Q mod 2 ^ k" if "?Q < i" "i < ?Q + 2 ^ k" for i
    using mod_neq [of ?Q i "2 ^ k"] that by auto
  have written: "?P mod 2 ^ k \<noteq> ?Q mod 2 ^ k" if "prod s = P_Written x wp' rp'" for x wp' rp'
    using inv that q keep by (auto simp: ring_inv_def prod_ok_def)
  show ?thesis using inv c w q slot live keep written
    by (auto simp: ring_inv_def prod_ok_def cons_ok_def first_live_def split: producer.splits)
qed

lemma pop_publish_inv:
  assumes inv: "ring_inv m s" and c: "cons s = C_Took x rp" and b: "length (pushed s) < 2 ^ 64"
  shows "ring_inv m (s\<lparr>cons := C_Idle, ring := (ring s)\<lparr>read_pos := rp + 1\<rparr>, popped := popped s @ [x]\<rparr>)"
proof -
  let ?P = "length (pushed s)" and ?Q = "length (popped s)"
  from inv c have w: "unat rp = ?Q" "?Q < ?P" "x = pushed s ! ?Q" "popped s = take ?Q (pushed s)"
    by (auto simp: ring_inv_def cons_ok_def)
  have "unat (rp + 1) = Suc ?Q" using unat_Suc [of rp] w(1,2) b by simp
  moreover have "popped s @ [x] = take (Suc ?Q) (pushed s)" using w(2-4) by (simp add: take_Suc_conv_app_nth)
  ultimately show ?thesis using inv c w
    by (auto simp: ring_inv_def prod_ok_def cons_ok_def first_live_def split: producer.splits)
qed

lemma ring_step_inv:
  assumes "ring_step (2 ^ k) d s s'" "ring_inv (2 ^ k) s" "k < 64" "length (pushed s') < 2 ^ 64"
  shows "ring_inv (2 ^ k) s'"
  using assms(1)
proof cases
  case (push_load x)
  then show ?thesis using assms(2) by (auto simp: ring_inv_def prod_ok_def cons_ok_def first_live_def split: consumer.splits)
next
  case (push_full x wp rp)
  then show ?thesis using assms(2) by (auto simp: ring_inv_def prod_ok_def cons_ok_def first_live_def split: consumer.splits)
next
  case (push_write x wp rp)
  then show ?thesis using push_steps_inv [OF assms(2,3)] by simp
next
  case (push_publish x wp rp)
  then show ?thesis using push_publish_inv [OF assms(2)] assms(4) by simp
next
  case pop_load
  then show ?thesis using assms(2) by (auto simp: ring_inv_def prod_ok_def cons_ok_def first_live_def split: producer.splits)
next
  case (pop_empty rp wp)
  then show ?thesis using assms(2) by (auto simp: ring_inv_def prod_ok_def cons_ok_def first_live_def split: producer.splits)
next
  case (pop_take rp wp)
  then show ?thesis using pop_take_inv [OF assms(2,3)] by simp
next
  case (pop_publish x rp)
  then show ?thesis using pop_publish_inv [OF assms(2)] assms(4) by simp
qed

lemma pushed_grows: "ring_step n d s s' \<Longrightarrow> length (pushed s) \<le> length (pushed s')"
  by (cases rule: ring_step.cases) auto

lemma ring_reach_inv: "ring_reach (2 ^ k) d s \<Longrightarrow> k < 64 \<Longrightarrow> length (pushed s) < 2 ^ 64 \<Longrightarrow> ring_inv (2 ^ k) s"
proof (induction rule: ring_reach.induct)
  case start
  show ?case by (rule ring_init_inv)
next
  case (more s s')
  from pushed_grows [OF more.hyps(2)] more.prems(2) have "length (pushed s) < 2 ^ 64" by linarith
  from ring_step_inv [OF more.hyps(2) more.IH [OF more.prems(1) this] more.prems] show ?case .
qed

text \<open>C9: However the producer's and the consumer's accesses interleave, the ring is a bounded first-in first-out
  queue: what the consumer has received is at every moment a prefix of what the producer has sent, in order,
  nothing lost or duplicated, and at most the capacity is in flight.\<close>

theorem ring_is_fifo:
  assumes "ring_reach (2 ^ k) d s" "k < 64" "length (pushed s) < 2 ^ 64"
  shows "popped s = take (length (popped s)) (pushed s) \<and> length (pushed s) \<le> length (popped s) + 2 ^ k"
  using ring_reach_inv [OF assms] by (auto simp: ring_inv_def)

text \<open>C27: An item that was published is received: from any reachable state in which the consumer is idle and something is in
  flight, its next three steps, undisturbed, deliver exactly the oldest item in flight.\<close>

theorem ring_delivers:
  assumes "ring_reach (2 ^ k) d s" "k < 64" "length (pushed s) < 2 ^ 64" "cons s = C_Idle" "length (popped s) < length (pushed s)"
  shows "\<exists>s1 s2 s3. ring_step (2 ^ k) d s s1 \<and> ring_step (2 ^ k) d s1 s2 \<and> ring_step (2 ^ k) d s2 s3 \<and>
    popped s3 = popped s @ [pushed s ! length (popped s)] \<and> cons s3 = C_Idle"
proof -
  let ?rp = "read_pos (ring s)" and ?wp = "write_pos (ring s)"
  have inv: "ring_inv (2 ^ k) s" by (rule ring_reach_inv [OF assms(1-3)])
  let ?s1 = "s\<lparr>cons := C_Loaded ?rp ?wp\<rparr>"
  let ?x = "rb_data (ring ?s1) (slot_of (2 ^ k) ?rp)"
  let ?s2 = "?s1\<lparr>cons := C_Took ?x ?rp, ring := (ring ?s1)\<lparr>rb_data := (rb_data (ring ?s1))(slot_of (2 ^ k) ?rp := d)\<rparr>\<rparr>"
  let ?s3 = "?s2\<lparr>cons := C_Idle, ring := (ring ?s2)\<lparr>read_pos := ?rp + 1\<rparr>, popped := popped ?s2 @ [?x]\<rparr>"
  have ne: "\<not> ?rp \<ge> ?wp" using inv assms(5) by (simp add: ring_inv_def word_le_nat_alt)
  have "ring_step (2 ^ k) d s ?s1" by (rule ring_step.pop_load) (rule assms(4))
  moreover have "ring_step (2 ^ k) d ?s1 ?s2" by (rule ring_step.pop_take [of ?s1 ?rp ?wp]) (use ne in simp_all)
  moreover have "ring_step (2 ^ k) d ?s2 ?s3" by (rule ring_step.pop_publish) simp
  moreover have "?x = pushed s ! length (popped s)"
    using inv assms(4,5) by (simp add: ring_inv_def first_live_def slot_of_mod [OF assms(2)])
  ultimately show ?thesis by (intro exI [of _ ?s1] exI [of _ ?s2] exI [of _ ?s3]) simp
qed

subsection \<open>The operations are uninterrupted runs\<close>

lemma three_steps: "R a b \<Longrightarrow> R b c \<Longrightarrow> R c e \<Longrightarrow> R\<^sup>*\<^sup>* a e"
  by (rule converse_rtranclp_into_rtranclp, assumption)+ (rule rtranclp.rtrancl_refl)

lemma try_push_run:
  assumes "prod s = P_Idle" "try_push n x (ring s) = (True, r)"
  shows "(ring_step n d)\<^sup>*\<^sup>* s (s\<lparr>ring := r, pushed := pushed s @ [x]\<rparr>)"
proof -
  let ?wp = "write_pos (ring s)" and ?rp = "read_pos (ring s)"
  let ?s1 = "s\<lparr>prod := P_Loaded x ?wp ?rp\<rparr>"
  let ?s2 = "?s1\<lparr>prod := P_Written x ?wp ?rp, ring := (ring ?s1)\<lparr>rb_data := (rb_data (ring ?s1))(slot_of n ?wp := x)\<rparr>\<rparr>"
  let ?s3 = "?s2\<lparr>prod := P_Idle, ring := raise_watermark (?wp + 1 - ?rp) ((ring ?s2)\<lparr>write_pos := ?wp + 1\<rparr>), pushed := pushed ?s2 @ [x]\<rparr>"
  from assms(2) have room: "\<not> ?wp - ?rp \<ge> n" and r: "r = ring ?s3" by (auto simp: try_push_def Let_def split: if_splits)
  have a: "ring_step n d s ?s1" by (rule ring_step.push_load) (rule assms(1))
  have b: "ring_step n d ?s1 ?s2" by (rule ring_step.push_write [of ?s1 x ?wp ?rp]) (use room in simp_all)
  have c: "ring_step n d ?s2 ?s3" by (rule ring_step.push_publish) simp
  have "?s3 = s\<lparr>ring := r, pushed := pushed s @ [x]\<rparr>" using assms(1) by (cases s) (simp add: r)
  with three_steps [of "ring_step n d", OF a b c] show ?thesis by simp
qed

lemma try_pop_run:
  assumes "cons s = C_Idle" "try_pop n d (ring s) = (Some x, r)"
  shows "(ring_step n d)\<^sup>*\<^sup>* s (s\<lparr>ring := r, popped := popped s @ [x]\<rparr>)"
proof -
  let ?wp = "write_pos (ring s)" and ?rp = "read_pos (ring s)"
  let ?s1 = "s\<lparr>cons := C_Loaded ?rp ?wp\<rparr>"
  let ?x = "rb_data (ring ?s1) (slot_of n ?rp)"
  let ?s2 = "?s1\<lparr>cons := C_Took ?x ?rp, ring := (ring ?s1)\<lparr>rb_data := (rb_data (ring ?s1))(slot_of n ?rp := d)\<rparr>\<rparr>"
  let ?s3 = "?s2\<lparr>cons := C_Idle, ring := (ring ?s2)\<lparr>read_pos := ?rp + 1\<rparr>, popped := popped ?s2 @ [?x]\<rparr>"
  from assms(2) have ne: "\<not> ?rp \<ge> ?wp" and r: "r = ring ?s3" "x = ?x" by (auto simp: try_pop_def Let_def split: if_splits)
  have a: "ring_step n d s ?s1" by (rule ring_step.pop_load) (rule assms(1))
  have b: "ring_step n d ?s1 ?s2" by (rule ring_step.pop_take [of ?s1 ?rp ?wp]) (use ne in simp_all)
  have c: "ring_step n d ?s2 ?s3" by (rule ring_step.pop_publish) simp
  have "?s3 = s\<lparr>ring := r, popped := popped s @ [x]\<rparr>" using assms(1) by (cases s) (simp add: r)
  with three_steps [of "ring_step n d", OF a b c] show ?thesis by simp
qed

lemma ring_reach_run: "(ring_step n d)\<^sup>*\<^sup>* s s' \<Longrightarrow> ring_reach n d s \<Longrightarrow> ring_reach n d s'"
  by (induction rule: rtranclp_induct) (auto intro: ring_reach.more)

subsection \<open>Examples\<close>

definition ring_demo :: "nat ring_sys" where
  "ring_demo = (ring_init 0)\<lparr>ring := snd (try_push 2 7 (mk_ring 0)), pushed := [7]\<rparr>"

lemma ring_demo_reach: "ring_reach 2 0 ring_demo"
proof -
  have "try_push 2 7 (ring (ring_init (0::nat))) = (True, snd (try_push 2 7 (mk_ring 0)))"
    by (simp add: ring_init_def try_push_def mk_ring_def Let_def)
  from try_push_run [OF _ this, of 0] have "(ring_step 2 0)\<^sup>*\<^sup>* (ring_init 0) ring_demo" by (simp add: ring_demo_def ring_init_def)
  then show ?thesis using ring_reach.start by (rule ring_reach_run)
qed

theorem ring_is_fifo_witness: "popped ring_demo = take (length (popped ring_demo)) (pushed ring_demo) \<and> length (pushed ring_demo) \<le> 2"
  using ring_is_fifo [of 1 0 ring_demo] ring_demo_reach by (simp add: ring_demo_def ring_init_def)

theorem ring_delivers_witness: "\<exists>s. (ring_step 2 0)\<^sup>*\<^sup>* ring_demo s \<and> popped s = [7]"
proof -
  have "\<exists>s1 s2 s3. ring_step 2 0 ring_demo s1 \<and> ring_step 2 0 s1 s2 \<and> ring_step 2 0 s2 s3 \<and> popped s3 = [7]"
    using ring_delivers [of 1 0 ring_demo] ring_demo_reach by (simp add: ring_demo_def ring_init_def) blast
  then show ?thesis using three_steps [of "ring_step 2 0"] by blast
qed

end
