(* ===== verification/Event_Types.thy ===== *)
theory Event_Types
  imports Binary64 "HOL-Library.AList"
begin

text \<open>
  The event classes of \<open>src/core/event.h\<close>: the base class \<open>event\<close> is a record, each derived class extends it,
  and each constructor is a definition \<open>mk_...\<close>. Field names carry a short class prefix. Strings stay
  character lists; \<open>to_string\<close> (human-readable output) is left out.

  Hash maps (\<open>std::unordered_map\<close>) are association lists with distinct keys: the list order stands for the
  iteration order, which the standard leaves open, so no statement relies on it.
\<close>

type_synonym symbol = string
type_synonym ('k, 'v) umap = "('k \<times> 'v) list"

datatype event_type = Ev_Market | Ev_Signal | Ev_Order | Ev_Fill | Ev_Tick | Ev_L2_Snapshot | Ev_L2_Update | Ev_Cancel
  | Ev_Amend | Ev_Rejection | Ev_Funding

record event =
  ev_type :: event_type
  timestamp :: time_point
  recv_ns :: int
  latency_ns :: int

record market_event = event +
  me_symbol :: symbol
  me_open :: double
  me_high :: double
  me_low :: double
  me_close :: double
  me_volume :: int

definition mk_market_event :: "time_point \<Rightarrow> symbol \<Rightarrow> double \<Rightarrow> double \<Rightarrow> double \<Rightarrow> double \<Rightarrow> int \<Rightarrow> market_event" where
  "mk_market_event ts sy op hi lo cl vol =
     \<lparr>ev_type = Ev_Market, timestamp = ts, recv_ns = 0, latency_ns = 0, me_symbol = sy, me_open = op,
      me_high = hi, me_low = lo, me_close = cl, me_volume = vol\<rparr>"

datatype signal_type = Signal_Buy | Signal_Sell | Signal_Hold

record signal_event = event +
  se_symbol :: symbol
  se_signal :: signal_type
  se_strength :: double

definition mk_signal_event :: "time_point \<Rightarrow> symbol \<Rightarrow> signal_type \<Rightarrow> double \<Rightarrow> signal_event" where
  "mk_signal_event ts sy sig strength =
     \<lparr>ev_type = Ev_Signal, timestamp = ts, recv_ns = 0, latency_ns = 0, se_symbol = sy, se_signal = sig,
      se_strength = strength\<rparr>"

datatype order_type = OT_Market | OT_Limit | OT_Stop | OT_Stop_Limit
datatype time_in_force = TIF_IOC | TIF_FOK | TIF_GTC | TIF_Day
datatype order_side = Buy | Sell

record order_event = event +
  oe_order_id :: order_id
  oe_symbol :: symbol
  oe_order_type :: order_type
  oe_side :: order_side
  oe_quantity :: double
  oe_price :: double
  oe_tif :: time_in_force
  oe_stop_price :: double
  oe_earliest_eligible_ts :: time_point
  oe_strategy_name :: string
  oe_opener_order_id :: order_id

text \<open>A good-till-cancel market order becomes immediate-or-cancel.\<close>

definition mk_order_event :: "time_point \<Rightarrow> symbol \<Rightarrow> order_type \<Rightarrow> order_side \<Rightarrow> double \<Rightarrow> double \<Rightarrow> time_in_force
    \<Rightarrow> double \<Rightarrow> order_event" where
  "mk_order_event ts sy ty sd qty px tif stop =
     \<lparr>ev_type = Ev_Order, timestamp = ts, recv_ns = 0, latency_ns = 0, oe_order_id = 0, oe_symbol = sy,
      oe_order_type = ty, oe_side = sd, oe_quantity = qty, oe_price = px,
      oe_tif = (if tif = TIF_GTC \<and> ty = OT_Market then TIF_IOC else tif),
      oe_stop_price = stop, oe_earliest_eligible_ts = ts, oe_strategy_name = [], oe_opener_order_id = 0\<rparr>"

datatype fill_source = FS_Unknown | FS_Simulated | FS_Exchange

record fill_event = event +
  fe_order_id :: order_id
  fe_symbol :: symbol
  fe_side :: order_side
  fe_filled_quantity :: double
  fe_fill_price :: double
  fe_commission :: double
  fe_remaining_qty :: double
  fe_fill_id :: u64
  fe_source :: fill_source
  fe_strategy_name :: string
  fe_opener_order_id :: order_id

definition mk_fill_event :: "time_point \<Rightarrow> symbol \<Rightarrow> order_id \<Rightarrow> order_side \<Rightarrow> double \<Rightarrow> double \<Rightarrow> double \<Rightarrow> double \<Rightarrow> u64
    \<Rightarrow> string \<Rightarrow> order_id \<Rightarrow> fill_event" where
  "mk_fill_event ts sy oid sd qty px comm rem fid strat opener =
     \<lparr>ev_type = Ev_Fill, timestamp = ts, recv_ns = 0, latency_ns = 0, fe_order_id = oid, fe_symbol = sy, fe_side = sd,
      fe_filled_quantity = qty, fe_fill_price = px, fe_commission = comm, fe_remaining_qty = rem, fe_fill_id = fid,
      fe_source = FS_Unknown, fe_strategy_name = strat, fe_opener_order_id = opener\<rparr>"

definition fill_is_partial :: "fill_event \<Rightarrow> bool" where
  "fill_is_partial f \<longleftrightarrow> fe_remaining_qty f > 0"

definition fill_total_cost :: "fill_event \<Rightarrow> double" where
  "fill_total_cost f = (let base = fe_filled_quantity f * fe_fill_price f in
     if fe_side f = Buy then base + fe_commission f else base - fe_commission f)"

datatype tick_side = Tick_Bid | Tick_Ask | Tick_Unknown

record tick_event = event +
  te_symbol :: symbol
  te_price :: double
  te_quantity :: int
  te_side :: tick_side

definition mk_tick_event :: "time_point \<Rightarrow> symbol \<Rightarrow> double \<Rightarrow> int \<Rightarrow> tick_side \<Rightarrow> tick_event" where
  "mk_tick_event ts sy px qty sd =
     \<lparr>ev_type = Ev_Tick, timestamp = ts, recv_ns = 0, latency_ns = 0, te_symbol = sy, te_price = px,
      te_quantity = qty, te_side = sd\<rparr>"

record l2_level =
  l2_price :: double
  l2_quantity :: int

definition kL2SnapshotMaxLevels :: nat where "kL2SnapshotMaxLevels = 20"

record l2_snapshot_event = event +
  ls_symbol :: symbol
  ls_bids :: "l2_level list"
  ls_asks :: "l2_level list"

text \<open>The constructor copies at most 20 levels of each side.\<close>

definition mk_l2_snapshot_event :: "time_point \<Rightarrow> symbol \<Rightarrow> l2_level list \<Rightarrow> l2_level list \<Rightarrow> l2_snapshot_event" where
  "mk_l2_snapshot_event ts sy bids asks =
     \<lparr>ev_type = Ev_L2_Snapshot, timestamp = ts, recv_ns = 0, latency_ns = 0, ls_symbol = sy,
      ls_bids = take kL2SnapshotMaxLevels bids, ls_asks = take kL2SnapshotMaxLevels asks\<rparr>"

record l2_update_event = event +
  lu_symbol :: symbol
  lu_side :: tick_side
  lu_price :: double
  lu_new_quantity :: int

definition mk_l2_update_event :: "time_point \<Rightarrow> symbol \<Rightarrow> tick_side \<Rightarrow> double \<Rightarrow> int \<Rightarrow> l2_update_event" where
  "mk_l2_update_event ts sy sd px qty =
     \<lparr>ev_type = Ev_L2_Update, timestamp = ts, recv_ns = 0, latency_ns = 0, lu_symbol = sy, lu_side = sd,
      lu_price = px, lu_new_quantity = qty\<rparr>"

record cancel_event = event +
  ce_symbol :: symbol
  ce_order_id :: order_id
  ce_reason :: string

definition mk_cancel_event :: "time_point \<Rightarrow> symbol \<Rightarrow> order_id \<Rightarrow> string \<Rightarrow> cancel_event" where
  "mk_cancel_event ts sy oid reason =
     \<lparr>ev_type = Ev_Cancel, timestamp = ts, recv_ns = 0, latency_ns = 0, ce_symbol = sy, ce_order_id = oid,
      ce_reason = reason\<rparr>"

record amend_event = event +
  ae_symbol :: symbol
  ae_order_id :: order_id
  ae_new_price :: double
  ae_new_quantity :: double

definition mk_amend_event :: "time_point \<Rightarrow> symbol \<Rightarrow> order_id \<Rightarrow> double \<Rightarrow> double \<Rightarrow> amend_event" where
  "mk_amend_event ts sy oid px qty =
     \<lparr>ev_type = Ev_Amend, timestamp = ts, recv_ns = 0, latency_ns = 0, ae_symbol = sy, ae_order_id = oid,
      ae_new_price = px, ae_new_quantity = qty\<rparr>"

record rejection_event = event +
  re_symbol :: symbol
  re_order_id :: order_id
  re_reason :: string

definition mk_rejection_event :: "time_point \<Rightarrow> symbol \<Rightarrow> order_id \<Rightarrow> string \<Rightarrow> rejection_event" where
  "mk_rejection_event ts sy oid reason =
     \<lparr>ev_type = Ev_Rejection, timestamp = ts, recv_ns = 0, latency_ns = 0, re_symbol = sy, re_order_id = oid,
      re_reason = reason\<rparr>"

record funding_event = event +
  fu_symbol :: symbol
  fu_qty_change :: double
  fu_cash_delta :: double
  fu_reason :: string

definition mk_funding_event :: "time_point \<Rightarrow> symbol \<Rightarrow> double \<Rightarrow> double \<Rightarrow> string \<Rightarrow> funding_event" where
  "mk_funding_event ts sy qty cash reason =
     \<lparr>ev_type = Ev_Funding, timestamp = ts, recv_ns = 0, latency_ns = 0, fu_symbol = sy, fu_qty_change = qty,
      fu_cash_delta = cash, fu_reason = reason\<rparr>"

text \<open>A \<open>shared_ptr<event>\<close> with its dynamic class.\<close>

datatype any_event = AE_Market market_event | AE_Signal signal_event | AE_Order order_event | AE_Fill fill_event | AE_Tick tick_event
  | AE_Snapshot l2_snapshot_event | AE_Update l2_update_event | AE_Cancel cancel_event | AE_Amend amend_event
  | AE_Rejection rejection_event | AE_Funding funding_event

definition type_of_event :: "any_event \<Rightarrow> event_type" where
  "type_of_event a = (case a of AE_Market e \<Rightarrow> Ev_Market | AE_Signal e \<Rightarrow> Ev_Signal | AE_Order e \<Rightarrow> Ev_Order | AE_Fill e \<Rightarrow> Ev_Fill
     | AE_Tick e \<Rightarrow> Ev_Tick | AE_Snapshot e \<Rightarrow> Ev_L2_Snapshot | AE_Update e \<Rightarrow> Ev_L2_Update | AE_Cancel e \<Rightarrow> Ev_Cancel
     | AE_Amend e \<Rightarrow> Ev_Amend | AE_Rejection e \<Rightarrow> Ev_Rejection | AE_Funding e \<Rightarrow> Ev_Funding)"

definition time_of_event :: "any_event \<Rightarrow> time_point" where
  "time_of_event a = (case a of AE_Market e \<Rightarrow> timestamp e | AE_Signal e \<Rightarrow> timestamp e | AE_Order e \<Rightarrow> timestamp e | AE_Fill e \<Rightarrow> timestamp e
     | AE_Tick e \<Rightarrow> timestamp e | AE_Snapshot e \<Rightarrow> timestamp e | AE_Update e \<Rightarrow> timestamp e | AE_Cancel e \<Rightarrow> timestamp e
     | AE_Amend e \<Rightarrow> timestamp e | AE_Rejection e \<Rightarrow> timestamp e | AE_Funding e \<Rightarrow> timestamp e)"

subsection \<open>Facts\<close>

text \<open>No constructed order is a good-till-cancel market order.\<close>

lemma mk_order_event_tif:
  "\<not> (oe_order_type (mk_order_event ts sy ty sd qty px tif stop) = OT_Market \<and>
      oe_tif (mk_order_event ts sy ty sd qty px tif stop) = TIF_GTC)"
  by (simp add: mk_order_event_def)

lemma mk_l2_snapshot_bounded:
  "length (ls_bids (mk_l2_snapshot_event ts sy bids asks)) \<le> 20"
  "length (ls_asks (mk_l2_snapshot_event ts sy bids asks)) \<le> 20"
  by (simp_all add: mk_l2_snapshot_event_def kL2SnapshotMaxLevels_def)

text \<open>Hash map laws.\<close>

lemma umap_put [simp]: "map_of (AList.update k v m) k' = (if k' = k then Some v else map_of m k')"
  by (simp add: AList.update_conv')

lemma umap_erase [simp]: "map_of (AList.delete k m) k' = (if k' = k then None else map_of m k')"
  by (simp add: AList.delete_conv')

lemma umap_distinct:
  "distinct (map fst m) \<Longrightarrow> distinct (map fst (AList.update k v m))"
  "distinct (map fst m) \<Longrightarrow> distinct (map fst (AList.delete k m))"
  by (simp_all add: AList.distinct_update AList.distinct_delete)

end
