(* ===== verification/Byte_Codec.thy ===== *)
theory Byte_Codec
  imports Event_Types
begin

text \<open>
  Bytes in memory, as the event log writes and reads them (the primitives at the head of \<open>src/core/event_log.h\<close>): little-endian
  integers, the IEEE binary64 image of a \<open>double\<close>, length-prefixed strings and microsecond time stamps. A writer is a byte
  list; a reader takes the bytes left and returns the value and the bytes left after it, or the error of
  \<open>BufReader::ensure\<close>.

  The locale \<open>codec\<close> is the contract between a writer and its reader: what was written is read back, whatever follows. It
  is interpreted for every primitive, and the readers of compound records use only the interpretations.

  Signed zeros are one number in \<open>Binary64\<close>, so the image of zero has the sign bit clear; the bits of a NaN are fixed to the
  quiet NaN.
\<close>

type_synonym byte = "8 word"

datatype log_error = Unexpected_End | Unknown_Type int | Bad_Enum int

type_synonym 'a reader = "byte list \<Rightarrow> log_error + ('a \<times> byte list)"

definition rbind :: "'a reader \<Rightarrow> ('a \<Rightarrow> 'b reader) \<Rightarrow> 'b reader" where
  "rbind r f bs = (case r bs of Inl e \<Rightarrow> Inl e | Inr (x, bs') \<Rightarrow> f x bs')"

definition rreturn :: "'a \<Rightarrow> 'a reader" where
  "rreturn x bs = Inr (x, bs)"

lemma rbind_ok [simp]: "r bs = Inr (x, bs') \<Longrightarrow> rbind r f bs = f x bs'"
  by (simp add: rbind_def)

subsection \<open>Little-endian integers\<close>

primrec le_bytes :: "nat \<Rightarrow> int \<Rightarrow> byte list" where
  "le_bytes 0 n = []"
| "le_bytes (Suc k) n = word_of_int (n mod 256) # le_bytes k (n div 256)"

primrec le_value :: "byte list \<Rightarrow> int" where
  "le_value [] = 0"
| "le_value (b # bs) = uint b + 256 * le_value bs"

definition read_le :: "nat \<Rightarrow> int reader" where
  "read_le k bs = (if length bs < k then Inl Unexpected_End else Inr (le_value (take k bs), drop k bs))"

lemma length_le_bytes [simp]: "length (le_bytes k n) = k"
  by (induction k arbitrary: n) simp_all

lemma uint_byte: "uint (word_of_int (n mod 256) :: byte) = n mod 256"
  by (simp add: uint_word_of_int)

lemma le_value_bytes: "le_value (le_bytes k n) = n mod 256 ^ k"
proof (induction k arbitrary: n)
  case (Suc k)
  have "n mod 256 + 256 * (n div 256 mod 256 ^ k) = n mod (256 * 256 ^ k)"
    by (simp add: zmod_zmult2_eq)
  then show ?case by (simp add: Suc.IH uint_byte del: uint_word_of_int)
qed simp

lemma read_le_bytes [simp]: "read_le k (le_bytes k n @ bs) = Inr (n mod 256 ^ k, bs)"
  by (simp add: read_le_def le_value_bytes)

lemma read_le_exact: "0 \<le> n \<and> n < 256 ^ k \<Longrightarrow> read_le k (le_bytes k n @ bs) = Inr (n, bs)"
  by (simp add: mod_pos_pos_trivial)

definition write_u8 :: "int \<Rightarrow> byte list" where "write_u8 n = le_bytes 1 n"
definition write_u16 :: "int \<Rightarrow> byte list" where "write_u16 n = le_bytes 2 n"
definition write_u32 :: "int \<Rightarrow> byte list" where "write_u32 n = le_bytes 4 n"
definition write_u64 :: "u64 \<Rightarrow> byte list" where "write_u64 w = le_bytes 8 (uint w)"
definition write_i64 :: "int \<Rightarrow> byte list" where "write_i64 n = le_bytes 8 n"

definition read_u8 :: "int reader" where "read_u8 = read_le 1"
definition read_u16 :: "int reader" where "read_u16 = read_le 2"
definition read_u32 :: "int reader" where "read_u32 = read_le 4"
definition read_u64 :: "u64 reader" where "read_u64 = rbind (read_le 8) (\<lambda>n. rreturn (word_of_int n))"
definition read_i64 :: "int reader" where
  "read_i64 = rbind (read_le 8) (\<lambda>n. rreturn (if n \<ge> 2 ^ 63 then n - 2 ^ 64 else n))"

subsection \<open>The image of a double\<close>

definition bits_of_double :: "double \<Rightarrow> int" where
  "bits_of_double d = (case d of
     Fin q \<Rightarrow> (let e = qexp q; m = \<bar>rne (q / 2 powi e)\<bar> in (if q < 0 then 2 ^ 63 else 0) + (e + 1074) * 2 ^ 52 + m)
   | PInf \<Rightarrow> 2047 * 2 ^ 52 | NInf \<Rightarrow> 2 ^ 63 + 2047 * 2 ^ 52 | NaN \<Rightarrow> 2047 * 2 ^ 52 + 2 ^ 51)"

definition mag_value :: "int \<Rightarrow> int \<Rightarrow> rat" where
  "mag_value ex m = (if ex = 0 then of_int m * 2 powi (- 1074) else of_int (m + 2 ^ 52) * 2 powi (ex - 1075))"

definition double_of_bits :: "int \<Rightarrow> double" where
  "double_of_bits n =
     (let neg = n \<ge> 2 ^ 63; mag = n mod 2 ^ 63; ex = mag div 2 ^ 52; m = mag mod 2 ^ 52; q = mag_value ex m
      in if ex = 2047 then (if m \<noteq> 0 then NaN else if neg then NInf else PInf) else Fin (if neg then - q else q))"

definition write_f64 :: "double \<Rightarrow> byte list" where "write_f64 d = le_bytes 8 (bits_of_double d)"
definition read_f64 :: "double reader" where "read_f64 = rbind (read_le 8) (\<lambda>n. rreturn (double_of_bits n))"

text \<open>A representable number is its mantissa on its own grid.\<close>

lemma ieee_mantissa:
  assumes "ieee (Fin q)"
  shows "q = of_int (rne (q / 2 powi qexp q)) * 2 powi qexp q" "qexp q \<le> 971" "- 1074 \<le> qexp q"
    "\<bar>rne (q / 2 powi qexp q)\<bar> < 2 ^ 53" "qexp q \<noteq> - 1074 \<Longrightarrow> 2 ^ 52 \<le> \<bar>rne (q / 2 powi qexp q)\<bar>"
proof -
  let ?e = "qexp q" and ?m = "rne (q / 2 powi qexp q)"
  have r: "rnd q = Fin q" using assms by (simp add: ieee_Fin)
  show q: "q = of_int ?m * 2 powi ?e" using r by (simp add: rnd_Fin_iff rndv_def)
  show "?e \<le> 971" using r by (auto simp: rnd_def Let_def split: if_splits)
  show "- 1074 \<le> ?e" by (rule qexp_min)
  have p: "(0::rat) < 2 powi ?e" by simp
  have a: "\<bar>q\<bar> = of_int \<bar>?m\<bar> * 2 powi ?e" by (subst q) (simp add: abs_mult)
  show "\<bar>?m\<bar> < 2 ^ 53"
  proof (cases "q = 0")
    case False
    have "\<bar>q\<bar> < 2 powi (ilog2 \<bar>q\<bar> + 1)" using ilog2_bounds [of "\<bar>q\<bar>"] False by simp
    also have "\<dots> \<le> 2 powi (?e + 53)" using False by (simp add: qexp_def)
    also have "\<dots> = of_int (2 ^ 53) * 2 powi ?e" by (simp add: power_int_add)
    finally show ?thesis using p unfolding a by (simp only: mult_less_cancel_right_pos of_int_less_iff)
  qed simp
  show "2 ^ 52 \<le> \<bar>?m\<bar>" if "?e \<noteq> - 1074"
  proof -
    have z: "q \<noteq> 0" using that by (auto simp: qexp_def)
    have "of_int (2 ^ 52) * 2 powi ?e = (2::rat) powi (?e + 52)" by (simp add: power_int_add)
    also have "\<dots> \<le> 2 powi (ilog2 \<bar>q\<bar>)" using that z by (simp add: qexp_def)
    also have "\<dots> \<le> \<bar>q\<bar>" using ilog2_bounds [of "\<bar>q\<bar>"] z by simp
    finally show ?thesis using p unfolding a by (simp only: mult_le_cancel_right_pos of_int_le_iff)
  qed
qed

lemma rne_sign: "(q < 0 \<longrightarrow> rne (q / 2 powi e) \<le> 0) \<and> (0 \<le> q \<longrightarrow> 0 \<le> rne (q / 2 powi e))"
  using rne_mono [of "q / 2 powi e" 0] rne_mono [of 0 "q / 2 powi e"] by (auto simp: divide_le_0_iff)

lemma split_mag:
  assumes "0 \<le> m" "m < 2 ^ 52" "0 \<le> x"
  shows "(x * 2 ^ 52 + m) div 2 ^ 52 = (x::int)" "(x * 2 ^ 52 + m) mod 2 ^ 52 = m"
  using assms by (simp_all add: div_pos_pos_trivial mod_pos_pos_trivial)

lemma double_of_mag:
  fixes m x :: int
  assumes "0 \<le> m" "m < 2 ^ 52" "0 \<le> x" "x < 2047"
  shows "double_of_bits ((if neg then 2 ^ 63 else 0) + (x * 2 ^ 52 + m)) =
    Fin (if neg then - mag_value x m else mag_value x m)"
proof -
  let ?mag = "x * 2 ^ 52 + m" and ?n = "(if neg then 2 ^ 63 else 0) + (x * 2 ^ 52 + m)"
  have r: "0 \<le> ?mag" "?mag < 2 ^ 63" using assms by simp_all
  then have n: "?n mod 2 ^ 63 = ?mag" "(?n \<ge> 2 ^ 63) = neg" by (auto simp: mod_pos_pos_trivial)
  show ?thesis unfolding double_of_bits_def Let_def n split_mag [OF assms(1-3)] using assms(4) by simp
qed

lemma double_bits_roundtrip: assumes "ieee d" shows "double_of_bits (bits_of_double d) = d"
proof (cases d)
  case (Fin q)
  let ?e = "qexp q" and ?r = "rne (q / 2 powi qexp q)"
  let ?m = "\<bar>?r\<bar>"
  note i = ieee_mantissa [of q] and s = rne_sign [of q ?e]
  have i: "q = of_int ?r * 2 powi ?e" "?e \<le> 971" "- 1074 \<le> ?e" "?m < 2 ^ 53" "?e \<noteq> - 1074 \<Longrightarrow> 2 ^ 52 \<le> ?m"
    using i assms Fin by simp_all
  have v: "(if q < 0 then - (of_int ?m * 2 powi ?e) else of_int ?m * 2 powi ?e) = q"
  proof (cases "q < 0")
    case True
    then have "?m = - ?r" using s by simp
    then show ?thesis using True i(1) by simp
  next
    case False
    then have "?m = ?r" using s by simp
    then show ?thesis using False i(1) by simp
  qed
  have b: "bits_of_double d = (if q < 0 then 2 ^ 63 else 0) + ((?e + 1074) * 2 ^ 52 + ?m)"
    by (simp add: bits_of_double_def Fin Let_def)
  show ?thesis
  proof (cases "?m < 2 ^ 52")
    case True
    then have e: "?e = - 1074" using i(5) by linarith
    have "mag_value 0 ?m = of_int ?m * 2 powi ?e" by (simp only: mag_value_def e if_True refl)
    moreover have "?e + 1074 = 0" using e by linarith
    ultimately have "double_of_bits ((if q < 0 then 2 ^ 63 else 0) + ((?e + 1074) * 2 ^ 52 + ?m)) = Fin q"
      using double_of_mag [of ?m 0 "q < 0"] True v by (simp only:)
    then show ?thesis unfolding b unfolding Fin .
  next
    case False
    have "mag_value (?e + 1075) (?m - 2 ^ 52) = of_int ?m * 2 powi ?e" using i(3) by (simp add: mag_value_def)
    moreover have "(?e + 1074) * 2 ^ 52 + ?m = (?e + 1075) * 2 ^ 52 + (?m - 2 ^ 52)" by simp
    moreover have "double_of_bits ((if q < 0 then 2 ^ 63 else 0) + ((?e + 1075) * 2 ^ 52 + (?m - 2 ^ 52))) =
        Fin (if q < 0 then - mag_value (?e + 1075) (?m - 2 ^ 52) else mag_value (?e + 1075) (?m - 2 ^ 52))"
      by (rule double_of_mag) (use False i(2-4) in simp_all)
    ultimately have "double_of_bits ((if q < 0 then 2 ^ 63 else 0) + ((?e + 1074) * 2 ^ 52 + ?m)) = Fin q" using v by (simp only:)
    then show ?thesis unfolding b unfolding Fin .
  qed
qed (simp_all add: bits_of_double_def double_of_bits_def)

lemma bits_of_double_range: assumes "ieee d" shows "0 \<le> bits_of_double d" "bits_of_double d < 2 ^ 64"
proof -
  have "0 \<le> bits_of_double d \<and> bits_of_double d < 2 ^ 64"
  proof (cases d)
    case (Fin q)
    have e: "0 \<le> qexp q + 1074" "qexp q + 1074 \<le> 2045" "\<bar>rne (q / 2 powi qexp q)\<bar> < 2 ^ 53"
      using ieee_mantissa(2-4) [of q] assms Fin by simp_all
    then have "0 \<le> (qexp q + 1074) * 2 ^ 52" "(qexp q + 1074) * 2 ^ 52 \<le> 2045 * 2 ^ 52" by simp_all
    with e show ?thesis by (simp add: bits_of_double_def Fin Let_def)
  qed (simp_all add: bits_of_double_def)
  then show "0 \<le> bits_of_double d" "bits_of_double d < 2 ^ 64" by simp_all
qed

subsection \<open>Strings, time stamps and enumerators\<close>

definition byte_of_char :: "char \<Rightarrow> byte" where "byte_of_char c = word_of_int (of_char c)"
definition char_of_byte :: "byte \<Rightarrow> char" where "char_of_byte b = char_of (uint b)"

definition write_str :: "string \<Rightarrow> byte list" where
  "write_str s = (let len = length s mod 65536 in write_u16 (int len) @ map byte_of_char (take len s))"

definition read_str :: "string reader" where
  "read_str = rbind read_u16 (\<lambda>len bs. if length bs < nat len then Inl Unexpected_End
     else Inr (map char_of_byte (take (nat len) bs), drop (nat len) bs))"

text \<open>\<open>duration_cast\<close> to microseconds truncates toward zero.\<close>

definition to_micros :: "time_point \<Rightarrow> int" where
  "to_micros t = (if t \<ge> 0 then t div 1000 else - (- t div 1000))"

definition write_ts :: "time_point \<Rightarrow> byte list" where "write_ts t = write_i64 (to_micros t)"
definition read_ts :: "time_point reader" where "read_ts = rbind read_i64 (\<lambda>us. rreturn (us * 1000))"

text \<open>An enumerator is written as one byte, its position in the declaration. A byte that names no enumerator is
  reported as \<open>Bad_Enum\<close>; the code carries on with an unnamed enumeration value.\<close>

definition write_enum :: "'a list \<Rightarrow> 'a \<Rightarrow> byte list" where
  "write_enum xs x = write_u8 (int (length (takeWhile (\<lambda>y. y \<noteq> x) xs)))"

definition read_enum :: "'a list \<Rightarrow> 'a reader" where
  "read_enum xs = rbind read_u8 (\<lambda>n bs. if nat n < length xs then Inr (xs ! nat n, bs) else Inl (Bad_Enum n))"

subsection \<open>The codec contract\<close>

locale codec =
  fixes enc :: "'a \<Rightarrow> byte list" and dec :: "'a reader" and ok :: "'a \<Rightarrow> bool"
  assumes roundtrip: "ok x \<Longrightarrow> dec (enc x @ bs) = Inr (x, bs)"
begin

lemma then_read: "ok x \<Longrightarrow> rbind dec f (enc x @ bs) = f x bs"
  by (simp add: roundtrip)

lemma last_read: "ok x \<Longrightarrow> dec (enc x) = Inr (x, [])"
  by (metis roundtrip append_Nil2)

lemma enc_inj: "ok x \<Longrightarrow> ok y \<Longrightarrow> enc x @ bs = enc y @ cs \<Longrightarrow> x = y \<and> bs = cs"
  by (metis roundtrip sum.inject(2) prod.inject)

end

interpretation u8: codec write_u8 read_u8 "\<lambda>n. 0 \<le> n \<and> n < 256"
  by unfold_locales (unfold write_u8_def read_u8_def, rule read_le_exact, simp)

interpretation u16: codec write_u16 read_u16 "\<lambda>n. 0 \<le> n \<and> n < 65536"
  by unfold_locales (unfold write_u16_def read_u16_def, rule read_le_exact, simp)

interpretation u32: codec write_u32 read_u32 "\<lambda>n. 0 \<le> n \<and> n < 2 ^ 32"
  by unfold_locales (unfold write_u32_def read_u32_def, rule read_le_exact, simp)

interpretation w64: codec write_u64 read_u64 "\<lambda>w. True"
proof unfold_locales
  fix x :: u64 and bs
  have "uint x mod 256 ^ 8 = uint x" using uint_lt2p [of x] by (simp add: mod_pos_pos_trivial)
  then show "read_u64 (write_u64 x @ bs) = Inr (x, bs)" by (simp add: read_u64_def write_u64_def rbind_def rreturn_def)
qed

interpretation i64: codec write_i64 read_i64 "\<lambda>n. - (2 ^ 63) \<le> n \<and> n < 2 ^ 63"
proof unfold_locales
  fix x :: int and bs assume x: "- (2 ^ 63) \<le> x \<and> x < 2 ^ 63"
  have "x mod 256 ^ 8 = (if x < 0 then x + 2 ^ 64 else x)"
  proof (cases "x < 0")
    case True
    then have "(x + 2 ^ 64) mod 2 ^ 64 = x + 2 ^ 64" using x by (intro mod_pos_pos_trivial) auto
    then show ?thesis using True by simp
  next
    case False
    then show ?thesis using x by (simp add: mod_pos_pos_trivial)
  qed
  then show "read_i64 (write_i64 x @ bs) = Inr (x, bs)" using x by (simp add: read_i64_def write_i64_def rbind_def rreturn_def)
qed

interpretation f64: codec write_f64 read_f64 ieee
proof unfold_locales
  fix x bs assume x: "ieee x"
  have "bits_of_double x mod 256 ^ 8 = bits_of_double x" using bits_of_double_range [OF x] by (simp add: mod_pos_pos_trivial)
  then show "read_f64 (write_f64 x @ bs) = Inr (x, bs)"
    by (simp add: read_f64_def write_f64_def rbind_def rreturn_def double_bits_roundtrip [OF x])
qed

interpretation str: codec write_str read_str "\<lambda>s. length s < 65536"
proof unfold_locales
  fix x :: string and bs assume x: "length x < 65536"
  have c: "char_of_byte (byte_of_char c) = c" for c by (simp add: char_of_byte_def byte_of_char_def uint_word_of_int)
  have "rbind read_u16 f (write_u16 (int (length x)) @ cs) = f (int (length x)) cs" for f :: "int \<Rightarrow> string reader" and cs
    using x by (intro u16.then_read) simp
  then show "read_str (write_str x @ bs) = Inr (x, bs)" using x
    by (simp add: read_str_def write_str_def Let_def c comp_def)
qed

definition ts_ok :: "time_point \<Rightarrow> bool" where
  "ts_ok t \<longleftrightarrow> t mod 1000 = 0 \<and> - (2 ^ 63) \<le> t div 1000 \<and> t div 1000 < 2 ^ 63"

interpretation ts: codec write_ts read_ts ts_ok
proof unfold_locales
  fix x bs assume "ts_ok x"
  then obtain k where k: "x = 1000 * k" "- (2 ^ 63) \<le> k" "k < 2 ^ 63" by (auto simp: ts_ok_def elim!: dvdE simp flip: dvd_eq_mod_eq_0)
  have "- (1000 * k) = 1000 * (- k)" by simp
  then have "to_micros x = k" unfolding to_micros_def k by (simp only: nonzero_mult_div_cancel_left) simp
  then show "read_ts (write_ts x @ bs) = Inr (x, bs)" using k by (simp add: read_ts_def write_ts_def i64.then_read rreturn_def)
qed

lemma read_enum_write:
  assumes x: "x \<in> set xs" and l: "length xs \<le> 256"
  shows "read_enum xs (write_enum xs x @ bs) = Inr (x, bs)"
proof -
  let ?k = "length (takeWhile (\<lambda>y. y \<noteq> x) xs)"
  have k: "?k < length xs" using x by (induction xs) auto
  then have "xs ! ?k = x" using nth_length_takeWhile [of "\<lambda>y. y \<noteq> x" xs] by simp
  then show ?thesis using k l by (simp add: read_enum_def write_enum_def u8.then_read)
qed

end
