(* ===== verification/Event_Log.thy ===== *)
theory Event_Log
  imports Byte_Codec
begin

text \<open>
  The binary event log, \<open>src/core/event_log.h\<close>: one \<open>serialise_...\<close> per event class, \<open>deserialise\<close>, the writer \<open>EventLogger\<close> with its index
  trailer and rotation, and the reader \<open>EventReplayer\<close>.

  A file is its byte list. The zstd library is a parameter: \<open>zc\<close> is \<open>ZSTD_compressCCtx\<close> on a whole payload and \<open>zd\<close>
  \<open>ZSTD_decompressDCtx\<close> on a whole frame, both \<open>None\<close> on error. The rotated files \<open>path.1\<close>, \<open>path.2\<close>, ... are a list, newest first.
  Opening a file always succeeds here.
\<close>

definition event_types :: "event_type list" where
  "event_types = [Ev_Market, Ev_Signal, Ev_Order, Ev_Fill, Ev_Tick, Ev_L2_Snapshot, Ev_L2_Update, Ev_Cancel, Ev_Amend, Ev_Rejection, Ev_Funding]"
definition signal_types :: "signal_type list" where "signal_types = [Signal_Buy, Signal_Sell, Signal_Hold]"
definition order_types :: "order_type list" where "order_types = [OT_Market, OT_Limit, OT_Stop, OT_Stop_Limit]"
definition tifs :: "time_in_force list" where "tifs = [TIF_IOC, TIF_FOK, TIF_GTC, TIF_Day]"
definition order_sides :: "order_side list" where "order_sides = [Buy, Sell]"
definition fill_sources :: "fill_source list" where "fill_sources = [FS_Unknown, FS_Simulated, FS_Exchange]"
definition tick_sides :: "tick_side list" where "tick_sides = [Tick_Bid, Tick_Ask, Tick_Unknown]"

subsection \<open>Serialisation\<close>

definition serialise_market :: "market_event \<Rightarrow> byte list" where
  "serialise_market e = write_ts (timestamp e) @ write_str (me_symbol e) @ write_f64 (me_open e) @ write_f64 (me_high e) @
     write_f64 (me_low e) @ write_f64 (me_close e) @ write_i64 (me_volume e)"

definition serialise_signal :: "signal_event \<Rightarrow> byte list" where
  "serialise_signal e = write_ts (timestamp e) @ write_str (se_symbol e) @ write_enum signal_types (se_signal e) @ write_f64 (se_strength e)"

definition serialise_order :: "order_event \<Rightarrow> byte list" where
  "serialise_order e = write_ts (timestamp e) @ write_str (oe_symbol e) @ write_enum order_types (oe_order_type e) @
     write_enum order_sides (oe_side e) @ write_f64 (oe_quantity e) @ write_f64 (oe_price e) @ write_enum tifs (oe_tif e) @
     write_f64 (oe_stop_price e) @ write_u64 (oe_order_id e) @ write_ts (oe_earliest_eligible_ts e)"

definition serialise_fill :: "fill_event \<Rightarrow> byte list" where
  "serialise_fill e = write_ts (timestamp e) @ write_str (fe_symbol e) @ write_u64 (fe_order_id e) @ write_enum order_sides (fe_side e) @
     write_f64 (fe_filled_quantity e) @ write_f64 (fe_fill_price e) @ write_f64 (fe_commission e) @ write_f64 (fe_remaining_qty e) @
     write_u64 (fe_fill_id e) @ write_enum fill_sources (fe_source e)"

definition serialise_tick :: "tick_event \<Rightarrow> byte list" where
  "serialise_tick e = write_ts (timestamp e) @ write_str (te_symbol e) @ write_f64 (te_price e) @ write_i64 (te_quantity e) @
     write_enum tick_sides (te_side e)"

definition write_level :: "l2_level \<Rightarrow> byte list" where
  "write_level l = write_f64 (l2_price l) @ write_i64 (l2_quantity l)"

definition write_levels :: "l2_level list \<Rightarrow> byte list" where
  "write_levels ls = concat (map write_level ls)"

definition serialise_snapshot :: "l2_snapshot_event \<Rightarrow> byte list" where
  "serialise_snapshot e = write_ts (timestamp e) @ write_str (ls_symbol e) @ write_u32 (int (length (ls_bids e))) @ write_levels (ls_bids e) @
     write_u32 (int (length (ls_asks e))) @ write_levels (ls_asks e)"

definition serialise_update :: "l2_update_event \<Rightarrow> byte list" where
  "serialise_update e = write_ts (timestamp e) @ write_str (lu_symbol e) @ write_enum tick_sides (lu_side e) @ write_f64 (lu_price e) @
     write_i64 (lu_new_quantity e)"

definition serialise_cancel :: "cancel_event \<Rightarrow> byte list" where
  "serialise_cancel e = write_ts (timestamp e) @ write_str (ce_symbol e) @ write_u64 (ce_order_id e) @ write_str (ce_reason e)"

definition serialise_amend :: "amend_event \<Rightarrow> byte list" where
  "serialise_amend e = write_ts (timestamp e) @ write_str (ae_symbol e) @ write_u64 (ae_order_id e) @ write_f64 (ae_new_price e) @
     write_f64 (ae_new_quantity e)"

definition serialise_rejection :: "rejection_event \<Rightarrow> byte list" where
  "serialise_rejection e = write_ts (timestamp e) @ write_str (re_symbol e) @ write_u64 (re_order_id e) @ write_str (re_reason e)"

definition serialise_funding :: "funding_event \<Rightarrow> byte list" where
  "serialise_funding e = write_ts (timestamp e) @ write_str (fu_symbol e) @ write_f64 (fu_qty_change e) @ write_f64 (fu_cash_delta e) @
     write_str (fu_reason e)"

definition serialise :: "any_event \<Rightarrow> byte list" where
  "serialise a = (case a of AE_Market e \<Rightarrow> serialise_market e | AE_Signal e \<Rightarrow> serialise_signal e | AE_Order e \<Rightarrow> serialise_order e
     | AE_Fill e \<Rightarrow> serialise_fill e | AE_Tick e \<Rightarrow> serialise_tick e | AE_Snapshot e \<Rightarrow> serialise_snapshot e | AE_Update e \<Rightarrow> serialise_update e
     | AE_Cancel e \<Rightarrow> serialise_cancel e | AE_Amend e \<Rightarrow> serialise_amend e | AE_Rejection e \<Rightarrow> serialise_rejection e
     | AE_Funding e \<Rightarrow> serialise_funding e)"

subsection \<open>Deserialisation\<close>

definition deserialise_market :: "any_event reader" where
  "deserialise_market = rbind read_ts (\<lambda>ts. rbind read_str (\<lambda>sy. rbind read_f64 (\<lambda>op. rbind read_f64 (\<lambda>hi. rbind read_f64 (\<lambda>lo.
     rbind read_f64 (\<lambda>cl. rbind read_i64 (\<lambda>vol. rreturn (AE_Market (mk_market_event ts sy op hi lo cl vol)))))))))"

definition deserialise_signal :: "any_event reader" where
  "deserialise_signal = rbind read_ts (\<lambda>ts. rbind read_str (\<lambda>sy. rbind (read_enum signal_types) (\<lambda>sig. rbind read_f64 (\<lambda>st.
     rreturn (AE_Signal (mk_signal_event ts sy sig st))))))"

definition deserialise_order :: "any_event reader" where
  "deserialise_order = rbind read_ts (\<lambda>ts. rbind read_str (\<lambda>sy. rbind (read_enum order_types) (\<lambda>ty. rbind (read_enum order_sides) (\<lambda>sd.
     rbind read_f64 (\<lambda>q. rbind read_f64 (\<lambda>px. rbind (read_enum tifs) (\<lambda>tif. rbind read_f64 (\<lambda>stop. rbind read_u64 (\<lambda>oid.
     rbind read_ts (\<lambda>elig. rreturn (AE_Order ((mk_order_event ts sy ty sd q px tif stop)
       \<lparr>oe_order_id := oid, oe_earliest_eligible_ts := elig\<rparr>))))))))))))"

text \<open>The three fields a log of an older version may lack: a read past the end is caught and leaves the defaults.\<close>

definition fill_tail :: "(double \<times> u64 \<times> fill_source) reader" where
  "fill_tail bs = (case read_f64 bs of Inl e \<Rightarrow> Inr ((0, 0, FS_Unknown), bs)
     | Inr (rem, bs1) \<Rightarrow> (case read_u64 bs1 of Inl e \<Rightarrow> Inr ((rem, 0, FS_Unknown), bs1)
       | Inr (fid, bs2) \<Rightarrow> (case read_enum fill_sources bs2 of Inl Unexpected_End \<Rightarrow> Inr ((rem, fid, FS_Unknown), bs2)
         | Inl e \<Rightarrow> Inl e | Inr (src, bs3) \<Rightarrow> Inr ((rem, fid, src), bs3))))"

definition deserialise_fill :: "any_event reader" where
  "deserialise_fill = rbind read_ts (\<lambda>ts. rbind read_str (\<lambda>sy. rbind read_u64 (\<lambda>oid. rbind (read_enum order_sides) (\<lambda>sd.
     rbind read_f64 (\<lambda>q. rbind read_f64 (\<lambda>px. rbind read_f64 (\<lambda>comm. rbind fill_tail (\<lambda>(rem, fid, src).
       rreturn (AE_Fill ((mk_fill_event ts sy oid sd q px comm rem fid [] 0)\<lparr>fe_source := src\<rparr>))))))))))"

definition deserialise_tick :: "any_event reader" where
  "deserialise_tick = rbind read_ts (\<lambda>ts. rbind read_str (\<lambda>sy. rbind read_f64 (\<lambda>px. rbind read_i64 (\<lambda>q. rbind (read_enum tick_sides) (\<lambda>sd.
     rreturn (AE_Tick (mk_tick_event ts sy px q sd)))))))"

primrec read_levels :: "nat \<Rightarrow> l2_level list reader" where
  "read_levels 0 = rreturn []"
| "read_levels (Suc n) = rbind read_f64 (\<lambda>px. rbind read_i64 (\<lambda>q. rbind (read_levels n) (\<lambda>ls.
     rreturn (\<lparr>l2_price = px, l2_quantity = q\<rparr> # ls))))"

definition deserialise_snapshot :: "any_event reader" where
  "deserialise_snapshot = rbind read_ts (\<lambda>ts. rbind read_str (\<lambda>sy. rbind read_u32 (\<lambda>nb. rbind (read_levels (nat nb)) (\<lambda>bids.
     rbind read_u32 (\<lambda>na. rbind (read_levels (nat na)) (\<lambda>asks. rreturn (AE_Snapshot (mk_l2_snapshot_event ts sy
       (take kL2SnapshotMaxLevels bids) (take kL2SnapshotMaxLevels asks)))))))))"

definition deserialise_update :: "any_event reader" where
  "deserialise_update = rbind read_ts (\<lambda>ts. rbind read_str (\<lambda>sy. rbind (read_enum tick_sides) (\<lambda>sd. rbind read_f64 (\<lambda>px. rbind read_i64 (\<lambda>q.
     rreturn (AE_Update (mk_l2_update_event ts sy sd px q)))))))"

definition deserialise_cancel :: "any_event reader" where
  "deserialise_cancel = rbind read_ts (\<lambda>ts. rbind read_str (\<lambda>sy. rbind read_u64 (\<lambda>oid. rbind read_str (\<lambda>why.
     rreturn (AE_Cancel (mk_cancel_event ts sy oid why))))))"

definition deserialise_amend :: "any_event reader" where
  "deserialise_amend = rbind read_ts (\<lambda>ts. rbind read_str (\<lambda>sy. rbind read_u64 (\<lambda>oid. rbind read_f64 (\<lambda>px. rbind read_f64 (\<lambda>q.
     rreturn (AE_Amend (mk_amend_event ts sy oid px q)))))))"

definition deserialise_rejection :: "any_event reader" where
  "deserialise_rejection = rbind read_ts (\<lambda>ts. rbind read_str (\<lambda>sy. rbind read_u64 (\<lambda>oid. rbind read_str (\<lambda>why.
     rreturn (AE_Rejection (mk_rejection_event ts sy oid why))))))"

definition deserialise_funding :: "any_event reader" where
  "deserialise_funding = rbind read_ts (\<lambda>ts. rbind read_str (\<lambda>sy. rbind read_f64 (\<lambda>q. rbind read_f64 (\<lambda>cash. rbind read_str (\<lambda>why.
     rreturn (AE_Funding (mk_funding_event ts sy q cash why)))))))"

definition deserialise_as :: "event_type \<Rightarrow> any_event reader" where
  "deserialise_as ty = (case ty of Ev_Market \<Rightarrow> deserialise_market | Ev_Signal \<Rightarrow> deserialise_signal | Ev_Order \<Rightarrow> deserialise_order
     | Ev_Fill \<Rightarrow> deserialise_fill | Ev_Tick \<Rightarrow> deserialise_tick | Ev_L2_Snapshot \<Rightarrow> deserialise_snapshot | Ev_L2_Update \<Rightarrow> deserialise_update
     | Ev_Cancel \<Rightarrow> deserialise_cancel | Ev_Amend \<Rightarrow> deserialise_amend | Ev_Rejection \<Rightarrow> deserialise_rejection | Ev_Funding \<Rightarrow> deserialise_funding)"

text \<open>The type byte of a frame; bytes after the last field of a payload are ignored.\<close>

definition deserialise :: "int \<Rightarrow> byte list \<Rightarrow> log_error + any_event" where
  "deserialise ty bs = (if nat ty < length event_types then map_sum (\<lambda>e. e) fst (deserialise_as (event_types ! nat ty) bs)
     else Inl (Unknown_Type ty))"

subsection \<open>EventLogger\<close>

definition EVENT_LOG_INDEX_MAGIC :: int where "EVENT_LOG_INDEX_MAGIC = 0x58495454"
definition EVENT_LOG_INDEX_INTERVAL :: nat where "EVENT_LOG_INDEX_INTERVAL = 1000"
definition ZSTD_MAGIC :: int where "ZSTD_MAGIC = 0xFD2FB528"

type_synonym index_entry = "int \<times> int"

record event_logger =
  lg_out :: "byte list"
  lg_compress :: bool
  lg_index :: "index_entry list"
  lg_count :: nat
  lg_finalized :: bool
  lg_max_bytes :: nat
  lg_max_files :: int
  lg_rotated :: "byte list list"

definition mk_event_logger :: "bool \<Rightarrow> nat \<Rightarrow> int \<Rightarrow> event_logger" where
  "mk_event_logger compress max_bytes max_files = \<lparr>lg_out = [], lg_compress = compress, lg_index = [], lg_count = 0, lg_finalized = False,
     lg_max_bytes = max_bytes, lg_max_files = max_files, lg_rotated = []\<rparr>"

definition write_index :: "index_entry list \<Rightarrow> byte list" where
  "write_index es = concat (map (\<lambda>(t, off). write_i64 t @ write_u64 (word_of_int off)) es)"

definition index_trailer :: "int \<Rightarrow> index_entry list \<Rightarrow> byte list" where
  "index_trailer off es = write_index es @ write_u64 (word_of_int off) @ write_u32 (int (length es)) @ write_u32 EVENT_LOG_INDEX_MAGIC"

definition finalize :: "event_logger \<Rightarrow> event_logger" where
  "finalize l = (if lg_finalized l then l
     else l\<lparr>lg_finalized := True, lg_out := lg_out l @ index_trailer (int (length (lg_out l))) (lg_index l)\<rparr>)"

definition rotate_log :: "event_logger \<Rightarrow> event_logger" where
  "rotate_log l = (let f = finalize l in
     f\<lparr>lg_rotated := (if lg_max_files f > 0 then take (nat (lg_max_files f)) (lg_out f # lg_rotated f) else lg_rotated f),
       lg_out := [], lg_index := [], lg_count := 0, lg_finalized := False\<rparr>)"

definition frame :: "any_event \<Rightarrow> byte list \<Rightarrow> byte list" where
  "frame a content = write_enum event_types (type_of_event a) @ write_u32 (int (length content)) @ content"

definition log_content :: "(byte list \<Rightarrow> byte list option) \<Rightarrow> bool \<Rightarrow> any_event \<Rightarrow> byte list option" where
  "log_content zc compress a = (if compress then zc (serialise a) else Some (serialise a))"

text \<open>\<open>None\<close> is the exception of a failed compression; the type byte is then already written, so the logger is not returned.\<close>

definition log_event :: "(byte list \<Rightarrow> byte list option) \<Rightarrow> any_event \<Rightarrow> event_logger \<Rightarrow> event_logger option" where
  "log_event zc a l =
     (let idx = (if lg_count l mod EVENT_LOG_INDEX_INTERVAL = 0 then lg_index l @ [(to_micros (time_of_event a), int (length (lg_out l)))]
                 else lg_index l)
      in case log_content zc (lg_compress l) a of None \<Rightarrow> None
         | Some content \<Rightarrow>
            (let l1 = l\<lparr>lg_index := idx, lg_count := lg_count l + 1, lg_out := lg_out l @ frame a content\<rparr>
             in Some (if lg_max_bytes l > 0 \<and> length (lg_out l1) \<ge> lg_max_bytes l then rotate_log l1 else l1)))"

fun log_events :: "(byte list \<Rightarrow> byte list option) \<Rightarrow> any_event list \<Rightarrow> event_logger \<Rightarrow> event_logger option" where
  "log_events zc [] l = Some l"
| "log_events zc (a # as) l = Option.bind (log_event zc a l) (log_events zc as)"

subsection \<open>EventReplayer\<close>

record event_replayer =
  rp_file :: "byte list"
  rp_pos :: nat
  rp_compressed :: bool
  rp_from :: int
  rp_to :: int
  rp_indexed :: bool
  rp_data_end :: nat
  rp_index :: "index_entry list"

definition bytes_at :: "nat \<Rightarrow> nat \<Rightarrow> byte list \<Rightarrow> byte list" where
  "bytes_at pos n file = take n (drop pos file)"

primrec read_index :: "nat \<Rightarrow> nat \<Rightarrow> byte list \<Rightarrow> index_entry list" where
  "read_index 0 pos file = []"
| "read_index (Suc n) pos file =
     (let t = le_value (bytes_at pos 8 file) in
      (if t \<ge> 2 ^ 63 then t - 2 ^ 64 else t, le_value (bytes_at (pos + 8) 8 file)) # read_index n (pos + 16) file)"

text \<open>\<open>upper_bound\<close> on the index by time, one entry back unless it is the first. The library asks for an index partitioned by the
  comparison, which one in time order is.\<close>

definition seek_entry :: "int \<Rightarrow> index_entry list \<Rightarrow> nat" where
  "seek_entry from es = (let k = length (takeWhile (\<lambda>(t, off). \<not> from < t) es) in nat (snd (es ! (if k \<noteq> 0 then k - 1 else k))))"

definition sniff_compressed :: "nat \<Rightarrow> byte list \<Rightarrow> bool" where
  "sniff_compressed pos file \<longleftrightarrow> length file \<ge> pos + 5 \<and> le_value (bytes_at (pos + 1) 4 file) \<ge> 4 \<and>
     length file \<ge> pos + 9 \<and> le_value (bytes_at (pos + 5) 4 file) = ZSTD_MAGIC"

definition mk_event_replayer :: "byte list \<Rightarrow> int \<Rightarrow> int \<Rightarrow> event_replayer" where
  "mk_event_replayer file from to =
     (let sz = length file;
          off = le_value (bytes_at (sz - 16) 8 file); cnt = le_value (bytes_at (sz - 8) 4 file); mg = le_value (bytes_at (sz - 4) 4 file);
          indexed = (sz \<ge> 16 \<and> mg = EVENT_LOG_INDEX_MAGIC);
          idx = (if indexed then read_index (nat cnt) (nat off) file else []);
          start = (if indexed \<and> from > 0 \<and> idx \<noteq> [] then seek_entry from idx else 0)
      in \<lparr>rp_file = file, rp_pos = start, rp_compressed = sniff_compressed start file, rp_from = from, rp_to = to, rp_indexed = indexed,
          rp_data_end = (if indexed then nat off else if sz \<ge> 16 then sz else 0), rp_index = idx\<rparr>)"

datatype replay_error = Replay_Log log_error | Replay_Zstd
datatype replay_result = R_End | R_Event any_event nat | R_Throw replay_error

definition read_frame :: "nat \<Rightarrow> byte list \<Rightarrow> (int \<times> byte list \<times> nat) option" where
  "read_frame pos file =
     (if length file < pos + 5 then None
      else let sz = nat (le_value (bytes_at (pos + 1) 4 file)) in
        if length file < pos + 5 + sz then None
        else Some (le_value (bytes_at pos 1 file), bytes_at (pos + 5) sz file, pos + 5 + sz))"

lemma read_frame_advances: "read_frame pos file = Some (ty, raw, pos') \<Longrightarrow> pos < pos' \<and> pos' \<le> length file"
  by (auto simp: read_frame_def Let_def split: if_splits)

definition decode_frame :: "(byte list \<Rightarrow> byte list option) \<Rightarrow> bool \<Rightarrow> int \<Rightarrow> byte list \<Rightarrow> replay_error + any_event" where
  "decode_frame zd compressed ty raw =
     (case (if compressed then zd raw else Some raw) of None \<Rightarrow> Inl Replay_Zstd
      | Some payload \<Rightarrow> (case deserialise ty payload of Inl e \<Rightarrow> Inl (Replay_Log e) | Inr a \<Rightarrow> Inr a))"

text \<open>The loop of \<open>next\<close>, from a position; every turn moves past one frame.\<close>

function replay_next :: "(byte list \<Rightarrow> byte list option) \<Rightarrow> event_replayer \<Rightarrow> nat \<Rightarrow> replay_result" where
  "replay_next zd r pos =
     (if rp_indexed r \<and> pos \<ge> rp_data_end r then R_End
      else case read_frame pos (rp_file r) of None \<Rightarrow> R_End
      | Some (ty, raw, pos') \<Rightarrow>
         (case decode_frame zd (rp_compressed r) ty raw of Inl e \<Rightarrow> R_Throw e
          | Inr a \<Rightarrow> let us = to_micros (time_of_event a) in
              if us > rp_to r then R_End else if us < rp_from r then replay_next zd r pos' else R_Event a pos'))"
  by pat_completeness auto

termination
  by (relation "measure (\<lambda>(zd, r, pos). length (rp_file r) - pos)") (auto dest!: read_frame_advances)

definition has_next :: "event_replayer \<Rightarrow> bool" where
  "has_next r \<longleftrightarrow> \<not> (rp_indexed r \<and> rp_pos r \<ge> rp_data_end r) \<and> rp_pos r < length (rp_file r)"

text \<open>Calling \<open>next\<close> until it answers null.\<close>

lemma replay_next_advances: "replay_next zd r pos = R_Event a pos' \<Longrightarrow> pos < pos' \<and> pos' \<le> length (rp_file r)"
proof (induction zd r pos rule: replay_next.induct)
  case (1 zd r pos)
  from "1.prems" obtain ty raw p b where f: "\<not> (rp_indexed r \<and> pos \<ge> rp_data_end r)" "read_frame pos (rp_file r) = Some (ty, raw, p)"
    "decode_frame zd (rp_compressed r) ty raw = Inr b" "\<not> to_micros (time_of_event b) > rp_to r"
    by (subst (asm) replay_next.simps) (auto simp: Let_def split: if_splits option.splits sum.splits prod.splits)
  show ?case
  proof (cases "to_micros (time_of_event b) < rp_from r")
    case True
    then have "replay_next zd r p = R_Event a pos'" using "1.prems" f by (simp add: Let_def)
    with "1.IH" [OF f(1,2) refl refl f(3) refl f(4) True] read_frame_advances [OF f(2)] show ?thesis by simp
  next
    case False
    then have "p = pos'" using "1.prems" f by (simp add: Let_def)
    with read_frame_advances [OF f(2)] show ?thesis by simp
  qed
qed

declare replay_next.simps [simp del]

function replay_all :: "(byte list \<Rightarrow> byte list option) \<Rightarrow> event_replayer \<Rightarrow> nat \<Rightarrow> replay_error + any_event list" where
  "replay_all zd r pos = (case replay_next zd r pos of R_End \<Rightarrow> Inr [] | R_Throw e \<Rightarrow> Inl e
     | R_Event a pos' \<Rightarrow> map_sum (\<lambda>e. e) ((#) a) (replay_all zd r pos'))"
  by pat_completeness auto

termination
  by (relation "measure (\<lambda>(zd, r, pos). length (rp_file r) - pos)") (auto dest!: replay_next_advances)

declare replay_all.simps [simp del]

definition replay_file :: "(byte list \<Rightarrow> byte list option) \<Rightarrow> byte list \<Rightarrow> int \<Rightarrow> int \<Rightarrow> replay_error + any_event list" where
  "replay_file zd file from to = (let r = mk_event_replayer file from to in replay_all zd r (rp_pos r))"

subsection \<open>Round trip of one event\<close>

definition str_ok :: "string \<Rightarrow> bool" where "str_ok s \<longleftrightarrow> length s < 65536"
definition i64_ok :: "int \<Rightarrow> bool" where "i64_ok n \<longleftrightarrow> - (2 ^ 63) \<le> n \<and> n < 2 ^ 63"
definition level_ok :: "l2_level \<Rightarrow> bool" where "level_ok l \<longleftrightarrow> ieee (l2_price l) \<and> i64_ok (l2_quantity l)"

definition loggable :: "any_event \<Rightarrow> bool" where
  "loggable a \<longleftrightarrow> ts_ok (time_of_event a) \<and> (case a of
     AE_Market e \<Rightarrow> str_ok (me_symbol e) \<and> ieee (me_open e) \<and> ieee (me_high e) \<and> ieee (me_low e) \<and> ieee (me_close e) \<and> i64_ok (me_volume e) \<and>
       ev_type e = Ev_Market
   | AE_Signal e \<Rightarrow> str_ok (se_symbol e) \<and> ieee (se_strength e) \<and> ev_type e = Ev_Signal
   | AE_Order e \<Rightarrow> str_ok (oe_symbol e) \<and> ieee (oe_quantity e) \<and> ieee (oe_price e) \<and> ieee (oe_stop_price e) \<and> ts_ok (oe_earliest_eligible_ts e) \<and>
       \<not> (oe_tif e = TIF_GTC \<and> oe_order_type e = OT_Market) \<and> ev_type e = Ev_Order
   | AE_Fill e \<Rightarrow> str_ok (fe_symbol e) \<and> ieee (fe_filled_quantity e) \<and> ieee (fe_fill_price e) \<and> ieee (fe_commission e) \<and>
       ieee (fe_remaining_qty e) \<and> ev_type e = Ev_Fill
   | AE_Tick e \<Rightarrow> str_ok (te_symbol e) \<and> ieee (te_price e) \<and> i64_ok (te_quantity e) \<and> ev_type e = Ev_Tick
   | AE_Snapshot e \<Rightarrow> str_ok (ls_symbol e) \<and> length (ls_bids e) \<le> 20 \<and> length (ls_asks e) \<le> 20 \<and> list_all level_ok (ls_bids e) \<and>
       list_all level_ok (ls_asks e) \<and> ev_type e = Ev_L2_Snapshot
   | AE_Update e \<Rightarrow> str_ok (lu_symbol e) \<and> ieee (lu_price e) \<and> i64_ok (lu_new_quantity e) \<and> ev_type e = Ev_L2_Update
   | AE_Cancel e \<Rightarrow> str_ok (ce_symbol e) \<and> str_ok (ce_reason e) \<and> ev_type e = Ev_Cancel
   | AE_Amend e \<Rightarrow> str_ok (ae_symbol e) \<and> ieee (ae_new_price e) \<and> ieee (ae_new_quantity e) \<and> ev_type e = Ev_Amend
   | AE_Rejection e \<Rightarrow> str_ok (re_symbol e) \<and> str_ok (re_reason e) \<and> ev_type e = Ev_Rejection
   | AE_Funding e \<Rightarrow> str_ok (fu_symbol e) \<and> ieee (fu_qty_change e) \<and> ieee (fu_cash_delta e) \<and> str_ok (fu_reason e) \<and> ev_type e = Ev_Funding)"

text \<open>What survives the log: the receive and latency clocks and the attribution of orders and fills do not.\<close>

definition replayed :: "any_event \<Rightarrow> any_event" where
  "replayed a = (case a of AE_Market e \<Rightarrow> AE_Market (e\<lparr>recv_ns := 0, latency_ns := 0\<rparr>) | AE_Signal e \<Rightarrow> AE_Signal (e\<lparr>recv_ns := 0, latency_ns := 0\<rparr>)
     | AE_Order e \<Rightarrow> AE_Order (e\<lparr>recv_ns := 0, latency_ns := 0, oe_strategy_name := [], oe_opener_order_id := 0\<rparr>)
     | AE_Fill e \<Rightarrow> AE_Fill (e\<lparr>recv_ns := 0, latency_ns := 0, fe_strategy_name := [], fe_opener_order_id := 0\<rparr>)
     | AE_Tick e \<Rightarrow> AE_Tick (e\<lparr>recv_ns := 0, latency_ns := 0\<rparr>) | AE_Snapshot e \<Rightarrow> AE_Snapshot (e\<lparr>recv_ns := 0, latency_ns := 0\<rparr>)
     | AE_Update e \<Rightarrow> AE_Update (e\<lparr>recv_ns := 0, latency_ns := 0\<rparr>) | AE_Cancel e \<Rightarrow> AE_Cancel (e\<lparr>recv_ns := 0, latency_ns := 0\<rparr>)
     | AE_Amend e \<Rightarrow> AE_Amend (e\<lparr>recv_ns := 0, latency_ns := 0\<rparr>) | AE_Rejection e \<Rightarrow> AE_Rejection (e\<lparr>recv_ns := 0, latency_ns := 0\<rparr>)
     | AE_Funding e \<Rightarrow> AE_Funding (e\<lparr>recv_ns := 0, latency_ns := 0\<rparr>))"

lemma read_f [simp]: "ieee x \<Longrightarrow> rbind read_f64 f (write_f64 x @ bs) = f x bs" by (rule f64.then_read)
lemma read_s [simp]: "str_ok x \<Longrightarrow> rbind read_str f (write_str x @ bs) = f x bs" by (simp add: str_ok_def str.then_read)
lemma read_t [simp]: "ts_ok x \<Longrightarrow> rbind read_ts f (write_ts x @ bs) = f x bs" by (rule ts.then_read)
lemma read_i [simp]: "i64_ok x \<Longrightarrow> rbind read_i64 f (write_i64 x @ bs) = f x bs" by (simp add: i64_ok_def i64.then_read)
lemma read_w [simp]: "rbind read_u64 f (write_u64 x @ bs) = f x bs" by (simp add: w64.then_read)

lemma enum_members [simp]:
  "sg \<in> set signal_types" "ot \<in> set order_types" "sd \<in> set order_sides" "tf \<in> set tifs" "tk \<in> set tick_sides" "src \<in> set fill_sources"
  "length signal_types \<le> 256" "length order_types \<le> 256" "length order_sides \<le> 256" "length tifs \<le> 256" "length tick_sides \<le> 256"
  "length fill_sources \<le> 256"
  by (cases sg, simp_all add: signal_types_def, cases ot, simp_all add: order_types_def, cases sd, simp_all add: order_sides_def,
      cases tf, simp_all add: tifs_def, cases tk, simp_all add: tick_sides_def, cases src, simp_all add: fill_sources_def)

lemma read_e [simp]: "x \<in> set xs \<Longrightarrow> length xs \<le> 256 \<Longrightarrow> rbind (read_enum xs) f (write_enum xs x @ bs) = f x bs"
  by (rule rbind_ok) (rule read_enum_write)

lemma read_levels_write: "list_all level_ok ls \<Longrightarrow> read_levels (length ls) (write_levels ls @ bs) = Inr (ls, bs)"
proof (induction ls)
  case (Cons l ls)
  then have "rbind (read_levels (length ls)) f (write_levels ls @ bs) = f ls bs" for f :: "l2_level list \<Rightarrow> l2_level list reader"
    by (intro rbind_ok) simp
  with Cons.prems show ?case by (simp add: write_levels_def write_level_def level_ok_def rreturn_def)
qed (simp add: write_levels_def rreturn_def)

lemma read_n [simp]: "n \<le> 20 \<Longrightarrow> rbind read_u32 f (write_u32 (int n) @ bs) = f (int n) bs"
  by (intro u32.then_read) simp

lemma read_levels_n [simp]: "list_all level_ok ls \<Longrightarrow> rbind (read_levels (length ls)) f (write_levels ls @ bs) = f ls bs"
  by (rule rbind_ok) (rule read_levels_write)

lemma fill_tail_read [simp]:
  "ieee x \<Longrightarrow> rbind fill_tail f (write_f64 x @ write_u64 w @ write_enum fill_sources src @ bs) = f (x, w, src) bs"
  by (intro rbind_ok) (simp add: fill_tail_def f64.roundtrip w64.roundtrip read_enum_write)

lemmas serialise_defs = serialise_market_def serialise_signal_def serialise_order_def serialise_fill_def serialise_tick_def
  serialise_snapshot_def serialise_update_def serialise_cancel_def serialise_amend_def serialise_rejection_def serialise_funding_def

lemmas deserialise_defs = deserialise_market_def deserialise_signal_def deserialise_order_def deserialise_fill_def deserialise_tick_def
  deserialise_snapshot_def deserialise_update_def deserialise_cancel_def deserialise_amend_def deserialise_rejection_def deserialise_funding_def

lemmas mk_event_defs = mk_market_event_def mk_signal_event_def mk_order_event_def mk_fill_event_def mk_tick_event_def
  mk_l2_snapshot_event_def mk_l2_update_event_def mk_cancel_event_def mk_amend_event_def mk_rejection_event_def mk_funding_event_def

lemma deserialise_as_serialise: "loggable a \<Longrightarrow> deserialise_as (type_of_event a) (serialise a @ bs) = Inr (replayed a, bs)"
  by (cases a) (simp_all add: deserialise_as_def type_of_event_def serialise_def loggable_def time_of_event_def serialise_defs deserialise_defs
      replayed_def mk_event_defs rreturn_def kL2SnapshotMaxLevels_def)

definition type_byte :: "any_event \<Rightarrow> int" where
  "type_byte a = int (length (takeWhile (\<lambda>t. t \<noteq> type_of_event a) event_types))"

lemma type_byte_ok: "nat (type_byte a) < length event_types" "event_types ! nat (type_byte a) = type_of_event a" "0 \<le> type_byte a" "type_byte a < 256"
  by (cases a; simp add: type_byte_def event_types_def type_of_event_def)+

lemma deserialise_serialise: "loggable a \<Longrightarrow> deserialise (type_byte a) (serialise a) = Inr (replayed a)"
  using deserialise_as_serialise [of a "[]"] type_byte_ok [of a] by (simp add: deserialise_def)

subsection \<open>Frames\<close>

lemma bytes_at_append [simp]: "bytes_at (length pre + k) n (pre @ xs) = bytes_at k n xs"
  by (simp add: bytes_at_def)

lemma bytes_at_prefix [simp]: "bytes_at (length pre) n (pre @ xs) = bytes_at 0 n xs"
  by (simp add: bytes_at_def)

lemma bytes_at_field: "length xs = k \<Longrightarrow> bytes_at 0 k (xs @ ys) = xs" "length xs = k \<Longrightarrow> bytes_at (k + j) n (xs @ ys) = bytes_at j n ys"
  by (simp_all add: bytes_at_def)

lemma write_enum_type: "write_enum event_types (type_of_event a) = le_bytes 1 (type_byte a)"
  by (simp add: write_enum_def write_u8_def type_byte_def)

lemma length_frame [simp]: "length (frame a c) = 5 + length c"
  by (simp add: frame_def write_enum_type write_u32_def)

lemma le_value_exact: "0 \<le> n \<Longrightarrow> n < 256 ^ k \<Longrightarrow> le_value (le_bytes k n) = n"
  by (simp add: le_value_bytes mod_pos_pos_trivial)

lemma read_frame_at:
  assumes "length c < 2 ^ 32"
  shows "read_frame (length pre) (pre @ frame a c @ post) = Some (type_byte a, c, length pre + length (frame a c))"
proof -
  let ?f = "le_bytes 1 (type_byte a) @ le_bytes 4 (int (length c)) @ c @ post"
  have f: "frame a c @ post = ?f" by (simp add: frame_def write_enum_type write_u32_def)
  have b: "bytes_at 0 1 ?f = le_bytes 1 (type_byte a)" "bytes_at (1 + 0) 4 ?f = le_bytes 4 (int (length c))"
    "bytes_at (1 + (4 + 0)) (length c) ?f = c" by (simp_all only: bytes_at_field length_le_bytes)
  have v: "le_value (le_bytes 1 (type_byte a)) = type_byte a" "le_value (le_bytes 4 (int (length c))) = int (length c)"
    using type_byte_ok(3,4) [of a] assms by (intro le_value_exact; simp)+
  show ?thesis using b v bytes_at_append [of pre 1 4 ?f] bytes_at_append [of pre 5 "length c" ?f] bytes_at_prefix [of pre 1 ?f]
    unfolding read_frame_def f by (simp add: frame_def write_enum_type write_u32_def)
qed

text \<open>The zstd library as far as the log relies on it: a payload that is not huge is compressed to a frame that starts with the
  format's magic number, fits the size field and decompresses to the payload.\<close>

definition zstd_ok :: "(byte list \<Rightarrow> byte list option) \<Rightarrow> (byte list \<Rightarrow> byte list option) \<Rightarrow> bool" where
  "zstd_ok zc zd \<longleftrightarrow> (\<forall>p. length p < 2 ^ 20 \<longrightarrow> (\<exists>c. zc p = Some (le_bytes 4 ZSTD_MAGIC @ c) \<and> zd (le_bytes 4 ZSTD_MAGIC @ c) = Some p \<and>
     length c < 2 ^ 31))"

lemma length_write_str [simp]: "length (write_str s) = 2 + length s mod 65536"
  by (simp add: write_str_def Let_def write_u16_def)

lemma length_write_fields [simp]:
  "length (write_ts t) = 8" "length (write_f64 x) = 8" "length (write_i64 n) = 8" "length (write_u64 w) = 8" "length (write_u32 n) = 4"
  "length (write_enum xs y) = 1" "length (write_levels ls) = 16 * length ls"
  by (simp_all add: write_ts_def write_f64_def write_i64_def write_u64_def write_u32_def write_enum_def write_u8_def)
     (simp add: write_levels_def write_level_def length_concat comp_def sum_list_triv write_f64_def write_i64_def)

lemma mod_bound: "n mod 65536 \<le> (65535::nat)" by simp

lemma length_serialise: "loggable a \<Longrightarrow> length (serialise a) < 2 ^ 20"
proof (cases a)
  case (AE_Snapshot e)
  moreover assume "loggable a"
  ultimately show ?thesis using mod_bound [of "length (ls_symbol e)"] by (simp add: serialise_def serialise_defs loggable_def)
next
  case (AE_Cancel e)
  then show ?thesis using mod_bound [of "length (ce_symbol e)"] mod_bound [of "length (ce_reason e)"] by (simp add: serialise_def serialise_defs)
next
  case (AE_Rejection e)
  then show ?thesis using mod_bound [of "length (re_symbol e)"] mod_bound [of "length (re_reason e)"] by (simp add: serialise_def serialise_defs)
next
  case (AE_Funding e)
  then show ?thesis using mod_bound [of "length (fu_symbol e)"] mod_bound [of "length (fu_reason e)"] by (simp add: serialise_def serialise_defs)
next
  case (AE_Market e) then show ?thesis using mod_bound [of "length (me_symbol e)"] by (simp add: serialise_def serialise_defs)
next
  case (AE_Signal e) then show ?thesis using mod_bound [of "length (se_symbol e)"] by (simp add: serialise_def serialise_defs)
next
  case (AE_Order e) then show ?thesis using mod_bound [of "length (oe_symbol e)"] by (simp add: serialise_def serialise_defs)
next
  case (AE_Fill e) then show ?thesis using mod_bound [of "length (fe_symbol e)"] by (simp add: serialise_def serialise_defs)
next
  case (AE_Tick e) then show ?thesis using mod_bound [of "length (te_symbol e)"] by (simp add: serialise_def serialise_defs)
next
  case (AE_Update e) then show ?thesis using mod_bound [of "length (lu_symbol e)"] by (simp add: serialise_def serialise_defs)
next
  case (AE_Amend e) then show ?thesis using mod_bound [of "length (ae_symbol e)"] by (simp add: serialise_def serialise_defs)
qed

subsection \<open>The file a logger writes\<close>

definition event_us :: "any_event \<Rightarrow> int" where "event_us a = to_micros (time_of_event a)"

definition frame_of :: "(byte list \<Rightarrow> byte list option) \<Rightarrow> bool \<Rightarrow> any_event \<Rightarrow> byte list" where
  "frame_of zc z a = frame a (the (log_content zc z a))"

definition frames :: "(byte list \<Rightarrow> byte list option) \<Rightarrow> bool \<Rightarrow> any_event list \<Rightarrow> byte list" where
  "frames zc z as = concat (map (frame_of zc z) as)"

lemma frames_simps [simp]: "frames zc z [] = []" "frames zc z (a # as) = frame_of zc z a @ frames zc z as"
  "frames zc z (as @ bs) = frames zc z as @ frames zc z bs"
  by (simp_all add: frames_def)

fun index_points :: "(byte list \<Rightarrow> byte list option) \<Rightarrow> bool \<Rightarrow> nat \<Rightarrow> nat \<Rightarrow> any_event list \<Rightarrow> index_entry list" where
  "index_points zc z pos n [] = []"
| "index_points zc z pos n (a # as) = (if n mod EVENT_LOG_INDEX_INTERVAL = 0 then [(event_us a, int pos)] else []) @
     index_points zc z (pos + length (frame_of zc z a)) (Suc n) as"

text \<open>What the log relies on for one event: its content exists, fits the size field and decodes.\<close>

definition content_ok :: "(byte list \<Rightarrow> byte list option) \<Rightarrow> (byte list \<Rightarrow> byte list option) \<Rightarrow> bool \<Rightarrow> any_event \<Rightarrow> bool" where
  "content_ok zc zd z a \<longleftrightarrow> (case log_content zc z a of None \<Rightarrow> False
     | Some c \<Rightarrow> length c < 2 ^ 32 - 5 \<and> (if z then zd c else Some c) = Some (serialise a))"

lemma content_okD:
  assumes "content_ok zc zd z a"
  shows "log_content zc z a = Some (the (log_content zc z a))" "length (the (log_content zc z a)) < 2 ^ 32 - 5"
    "(if z then zd (the (log_content zc z a)) else Some (the (log_content zc z a))) = Some (serialise a)"
  using assms by (auto simp: content_ok_def split: option.splits)

lemma length_frame_of: "content_ok zc zd z a \<Longrightarrow> length (frame_of zc z a) < 2 ^ 32"
  using content_okD(2) [of zc zd z a] by (simp add: frame_of_def)

lemma length_frames: "list_all (content_ok zc zd z) as \<Longrightarrow> length (frames zc z as) \<le> length as * 2 ^ 32"
  by (induction as) (auto dest!: length_frame_of)

lemma zstd_content_ok: "zstd_ok zc zd \<Longrightarrow> loggable a \<Longrightarrow> content_ok zc zd True a"
  using length_serialise [of a] unfolding zstd_ok_def content_ok_def log_content_def by fastforce

lemma plain_content_ok: "loggable a \<Longrightarrow> content_ok zc zd False a"
  using length_serialise [of a] by (simp add: content_ok_def log_content_def)

lemma log_events_file:
  assumes "list_all (content_ok zc zd (lg_compress l)) as" "lg_max_bytes l = 0"
  shows "log_events zc as l = Some (l\<lparr>lg_out := lg_out l @ frames zc (lg_compress l) as, lg_count := lg_count l + length as,
           lg_index := lg_index l @ index_points zc (lg_compress l) (length (lg_out l)) (lg_count l) as\<rparr>)"
  using assms
proof (induction as arbitrary: l)
  case (Cons a as)
  define l1 where "l1 = l\<lparr>lg_index := lg_index l @ (if lg_count l mod EVENT_LOG_INDEX_INTERVAL = 0 then [(event_us a, int (length (lg_out l)))] else []),
    lg_count := lg_count l + 1, lg_out := lg_out l @ frame_of zc (lg_compress l) a\<rparr>"
  have c: "log_content zc (lg_compress l) a = Some (the (log_content zc (lg_compress l) a))" using content_okD(1) [of zc zd "lg_compress l" a] Cons.prems(1) by simp
  have "log_event zc a l = Some l1" unfolding log_event_def l1_def by (subst c) (simp add: Let_def event_us_def frame_of_def Cons.prems(2))
  moreover have "log_events zc as l1 = Some (l1\<lparr>lg_out := lg_out l1 @ frames zc (lg_compress l1) as, lg_count := lg_count l1 + length as,
           lg_index := lg_index l1 @ index_points zc (lg_compress l1) (length (lg_out l1)) (lg_count l1) as\<rparr>)"
    using Cons.prems by (intro Cons.IH) (simp_all add: l1_def)
  ultimately show ?case by (simp add: l1_def)
qed simp

definition log_file :: "(byte list \<Rightarrow> byte list option) \<Rightarrow> bool \<Rightarrow> any_event list \<Rightarrow> byte list" where
  "log_file zc z as = frames zc z as @ index_trailer (int (length (frames zc z as))) (index_points zc z 0 0 as)"

lemma logger_writes:
  assumes "list_all (content_ok zc zd z) as"
  shows "map_option (\<lambda>l. lg_out (finalize l)) (log_events zc as (mk_event_logger z 0 mf)) = Some (log_file zc z as)"
  using log_events_file [of zc zd "mk_event_logger z 0 mf" as] assms by (simp add: mk_event_logger_def finalize_def log_file_def)

subsection \<open>The index, read back\<close>

lemma index_points_nth:
  "e \<in> set (index_points zc z pos n as) \<Longrightarrow> \<exists>j < length as. e = (event_us (as ! j), int (pos + length (frames zc z (take j as))))"
proof (induction as arbitrary: pos n)
  case (Cons a as)
  then consider "e = (event_us a, int pos)" | "e \<in> set (index_points zc z (pos + length (frame_of zc z a)) (Suc n) as)"
    by (auto split: if_splits)
  then show ?case
  proof cases
    case 1 then show ?thesis by (intro exI [of _ 0]) simp
  next
    case 2
    from Cons.IH [OF this] obtain j where "j < length as"
      "e = (event_us (as ! j), int (pos + length (frame_of zc z a) + length (frames zc z (take j as))))" by blast
    then show ?thesis by (intro exI [of _ "Suc j"]) simp
  qed
qed simp

lemma length_index_points: "length (index_points zc z pos n as) \<le> length as"
  by (induction as arbitrary: pos n) (auto simp: le_SucI)

lemma index_points_append:
  "index_points zc z pos n (as @ bs) = index_points zc z pos n as @ index_points zc z (pos + length (frames zc z as)) (n + length as) bs"
  by (induction as arbitrary: pos n) (simp_all add: add.assoc)

definition index_entry_ok :: "index_entry \<Rightarrow> bool" where
  "index_entry_ok e \<longleftrightarrow> - (2 ^ 63) \<le> fst e \<and> fst e < 2 ^ 63 \<and> 0 \<le> snd e \<and> snd e < 2 ^ 64"

lemma read_index_write: "list_all index_entry_ok es \<Longrightarrow> read_index (length es) (length pre) (pre @ write_index es @ post) = es"
proof (induction es arbitrary: pre)
  case (Cons e es)
  obtain t off where e: "e = (t, off)" by (cases e)
  let ?b = "le_bytes 8 t @ le_bytes 8 (uint (word_of_int off :: u64)) @ write_index es @ post"
  have b: "bytes_at 0 8 ?b = le_bytes 8 t" "bytes_at (8 + 0) 8 ?b = le_bytes 8 (uint (word_of_int off :: u64))"
    by (simp_all only: bytes_at_field length_le_bytes)
  have w: "pre @ write_index (e # es) @ post = pre @ ?b" by (simp add: write_index_def e write_i64_def write_u64_def)
  have p: "pre @ ?b = (pre @ le_bytes 8 t @ le_bytes 8 (uint (word_of_int off :: u64))) @ write_index es @ post" by simp
  have r: "read_index (length es) (length pre + 16) (pre @ ?b) = es" unfolding p using Cons.IH [of "pre @ le_bytes 8 t @ le_bytes 8 (uint (word_of_int off :: u64))"] Cons.prems by simp
  have t: "t mod 2 ^ 64 = (if t < 0 then t + 2 ^ 64 else t)" using Cons.prems mod_pos_pos_trivial [of "t + 2 ^ 64" "2 ^ 64"] by (simp add: index_entry_ok_def e)
  have o: "off mod 2 ^ 64 = off" using Cons.prems by (simp add: index_entry_ok_def e)
  have v: "le_value (le_bytes 8 t) = t mod 2 ^ 64" "le_value (le_bytes 8 (uint (word_of_int off :: u64))) = off"
    using o by (simp_all add: le_value_bytes uint_word_of_int)
  have "read_index (length (e # es)) (length pre) (pre @ ?b) =
    (if t mod 2 ^ 64 \<ge> 2 ^ 63 then t mod 2 ^ 64 - 2 ^ 64 else t mod 2 ^ 64, off) # es"
    using b r bytes_at_append [of pre 8 8 ?b] bytes_at_prefix [of pre 8 ?b] v by (simp add: Let_def)
  then show ?case unfolding w using Cons.prems t by (simp add: e index_entry_ok_def)
qed simp

subsection \<open>The replayer on such a file\<close>

lemma bytes_at_end: "length xs = k \<Longrightarrow> bytes_at (length (pre @ xs) - k) k (pre @ xs) = xs"
  by (simp add: bytes_at_def)

lemma trailer_fields:
  assumes "length (frames zc z as) < 2 ^ 64" "length (index_points zc z 0 0 as) < 2 ^ 32"
  defines "f \<equiv> log_file zc z as"
  shows "16 \<le> length f" "le_value (bytes_at (length f - 16) 8 f) = int (length (frames zc z as))"
    "le_value (bytes_at (length f - 8) 4 f) = int (length (index_points zc z 0 0 as))"
    "le_value (bytes_at (length f - 4) 4 f) = EVENT_LOG_INDEX_MAGIC"
proof -
  define es where "es = index_points zc z 0 0 as"
  define pre where "pre = frames zc z as @ write_index es"
  let ?o = "le_bytes 8 (uint (word_of_int (int (length (frames zc z as))) :: u64))" and ?c = "le_bytes 4 (int (length es))"
  let ?m = "le_bytes 4 EVENT_LOG_INDEX_MAGIC"
  have f: "f = pre @ ?o @ ?c @ ?m" by (simp add: f_def log_file_def index_trailer_def pre_def es_def write_u64_def write_u32_def)
  then show "16 \<le> length f" by simp
  have p: "length f - 16 = length pre" "length f - 8 = length (pre @ ?o)" "length f - 4 = length (pre @ ?o @ ?c)" by (simp_all add: f)
  have "bytes_at (length f - 16) 8 f = ?o" unfolding p by (simp only: f bytes_at_prefix bytes_at_field length_le_bytes)
  moreover have "uint (word_of_int (int (length (frames zc z as))) :: u64) = int (length (frames zc z as))"
    using assms(1) by (simp add: uint_word_of_int del: of_int_of_nat_eq)
  ultimately show "le_value (bytes_at (length f - 16) 8 f) = int (length (frames zc z as))"
    using assms(1) le_value_exact [of "int (length (frames zc z as))" 8] by (simp del: of_int_of_nat_eq)
  have "f = (pre @ ?o) @ ?c @ ?m" by (simp add: f)
  then have "bytes_at (length f - 8) 4 f = ?c" unfolding p by (simp only: bytes_at_prefix bytes_at_field length_le_bytes)
  then show "le_value (bytes_at (length f - 8) 4 f) = int (length (index_points zc z 0 0 as))"
    using assms(2) le_value_exact [of "int (length es)" 4] by (simp add: es_def)
  have "f = (pre @ ?o @ ?c) @ ?m @ []" by (simp add: f)
  then have "bytes_at (length f - 4) 4 f = ?m" unfolding p by (simp only: bytes_at_prefix bytes_at_field length_le_bytes)
  then show "le_value (bytes_at (length f - 4) 4 f) = EVENT_LOG_INDEX_MAGIC" by (simp add: le_value_bytes EVENT_LOG_INDEX_MAGIC_def)
qed

definition start_of :: "int \<Rightarrow> index_entry list \<Rightarrow> nat" where
  "start_of from es = (if from > 0 \<and> es \<noteq> [] then seek_entry from es else 0)"

lemma event_us_bounds: "loggable a \<Longrightarrow> - (2 ^ 63) \<le> event_us a \<and> event_us a < 2 ^ 63"
proof -
  assume "loggable a"
  then have "ts_ok (time_of_event a)" by (simp add: loggable_def)
  then show ?thesis by (auto simp: ts_ok_def event_us_def to_micros_def elim!: dvdE simp flip: dvd_eq_mod_eq_0)
qed

lemma index_entries_ok:
  assumes "list_all loggable as" "list_all (content_ok zc zd z) as" "length as < 2 ^ 32"
  shows "list_all index_entry_ok (index_points zc z 0 0 as)" "length (frames zc z as) < 2 ^ 64"
proof -
  have n: "length (frames zc z (take j as)) < 2 ^ 64" for j
  proof -
    have "list_all (content_ok zc zd z) (take j as)" using assms(2) by (auto simp: list_all_iff dest: in_set_takeD)
    from length_frames [OF this] assms(3) show ?thesis by simp
  qed
  from n [of "length as"] show "length (frames zc z as) < 2 ^ 64" by simp
  show "list_all index_entry_ok (index_points zc z 0 0 as)" unfolding list_all_iff
  proof
    fix e assume "e \<in> set (index_points zc z 0 0 as)"
    from index_points_nth [OF this] obtain j where j: "j < length as" "e = (event_us (as ! j), int (length (frames zc z (take j as))))" by auto
    with assms(1) have "loggable (as ! j)" by (simp add: list_all_length)
    from event_us_bounds [OF this] n [of j] j show "index_entry_ok e" by (simp add: index_entry_ok_def)
  qed
qed

lemma replayer_on_log:
  assumes "list_all loggable as" "list_all (content_ok zc zd z) as" "length as < 2 ^ 32"
  defines "f \<equiv> log_file zc z as"
  shows "mk_event_replayer f from to = \<lparr>rp_file = f, rp_pos = start_of from (index_points zc z 0 0 as),
    rp_compressed = sniff_compressed (start_of from (index_points zc z 0 0 as)) f, rp_from = from, rp_to = to, rp_indexed = True,
    rp_data_end = length (frames zc z as), rp_index = index_points zc z 0 0 as\<rparr>"
proof -
  note ok = index_entries_ok [OF assms(1-3)]
  have i: "read_index (length (index_points zc z 0 0 as)) (length (frames zc z as)) f = index_points zc z 0 0 as"
    using read_index_write [OF ok(1)] by (simp add: f_def log_file_def index_trailer_def)
  have "length (index_points zc z 0 0 as) < 2 ^ 32" using length_index_points [of zc z 0 0 as] assms(3) by simp
  note t = trailer_fields [OF ok(2) this, folded f_def]
  show ?thesis unfolding mk_event_replayer_def Let_def t(2-4) using t(1) i by (simp add: start_of_def)
qed

lemma replay_next_frame:
  assumes "rp_file r = pre @ frame_of zc z a @ post" "rp_data_end r > length pre" "rp_compressed r = z" "content_ok zc zd z a" "loggable a"
  shows "replay_next zd r (length pre) = (if event_us a > rp_to r then R_End
     else if event_us a < rp_from r then replay_next zd r (length (pre @ frame_of zc z a)) else R_Event (replayed a) (length (pre @ frame_of zc z a)))"
proof -
  note c = content_okD [OF assms(4)]
  have f: "read_frame (length pre) (rp_file r) = Some (type_byte a, the (log_content zc z a), length (pre @ frame_of zc z a))"
    unfolding assms(1) frame_of_def using read_frame_at [of "the (log_content zc z a)" pre a post] c(2) by simp
  have d: "decode_frame zd (rp_compressed r) (type_byte a) (the (log_content zc z a)) = Inr (replayed a)"
    unfolding decode_frame_def assms(3) c(3) using deserialise_serialise [OF assms(5)] by simp
  have "time_of_event (replayed a) = time_of_event a" by (cases a) (simp_all add: replayed_def time_of_event_def)
  with f d assms(2) show ?thesis by (subst replay_next.simps) (simp add: Let_def event_us_def)
qed

definition window :: "int \<Rightarrow> int \<Rightarrow> any_event list \<Rightarrow> any_event list" where
  "window from to as = filter (\<lambda>a. from \<le> event_us a) (takeWhile (\<lambda>a. event_us a \<le> to) as)"

lemma replay_frames:
  assumes "rp_file r = pre @ frames zc z as @ post" "rp_indexed r" "rp_data_end r = length (pre @ frames zc z as)"
    "as = [] \<or> rp_compressed r = z" "list_all (content_ok zc zd z) as" "list_all loggable as"
  shows "replay_all zd r (length pre) = Inr (map replayed (window (rp_from r) (rp_to r) as))"
  using assms
proof (induction as arbitrary: pre)
  case Nil
  then show ?case by (simp add: replay_all.simps [of zd r] replay_next.simps [of zd r] window_def)
next
  case (Cons a as)
  have IH: "replay_all zd r (length (pre @ frame_of zc z a)) = Inr (map replayed (window (rp_from r) (rp_to r) as))"
    using Cons.prems by (intro Cons.IH) simp_all
  have "rp_data_end r > length pre" using Cons.prems(3) by (simp add: frame_of_def)
  moreover have "rp_file r = pre @ frame_of zc z a @ (frames zc z as @ post)" using Cons.prems(1) by simp
  ultimately have n: "replay_next zd r (length pre) = (if event_us a > rp_to r then R_End
     else if event_us a < rp_from r then replay_next zd r (length (pre @ frame_of zc z a)) else R_Event (replayed a) (length (pre @ frame_of zc z a)))"
    using Cons.prems by (intro replay_next_frame) simp_all
  consider "event_us a > rp_to r" | "event_us a \<le> rp_to r" "event_us a < rp_from r" | "event_us a \<le> rp_to r" "rp_from r \<le> event_us a" by linarith
  then show ?case
  proof cases
    case 1 then show ?thesis using n by (simp add: replay_all.simps [of zd r "length pre"] window_def)
  next
    case 2
    then have "replay_all zd r (length pre) = replay_all zd r (length (pre @ frame_of zc z a))"
      using n by (simp add: replay_all.simps [of zd r "length pre"] replay_all.simps [of zd r "length (pre @ frame_of zc z a)"] del: length_append)
    with IH 2 show ?thesis by (simp add: window_def del: length_append)
  next
    case 3 with n IH show ?thesis by (simp add: replay_all.simps [of zd r "length pre"] window_def del: length_append)
  qed
qed

text \<open>The replayer decides on compression by the first four bytes of the content it starts at.\<close>

definition sniffable :: "(byte list \<Rightarrow> byte list option) \<Rightarrow> bool \<Rightarrow> any_event \<Rightarrow> bool" where
  "sniffable zc z a \<longleftrightarrow> 4 \<le> length (the (log_content zc z a)) \<and> (le_value (take 4 (the (log_content zc z a))) = ZSTD_MAGIC) = z"

lemma sniff_frame:
  assumes "sniffable zc z a" "content_ok zc zd z a"
  shows "sniff_compressed (length pre) (pre @ frame_of zc z a @ post) = z"
proof -
  define c where "c = the (log_content zc z a)"
  let ?f = "le_bytes 1 (type_byte a) @ le_bytes 4 (int (length c)) @ c @ post"
  have c: "4 \<le> length c" "(le_value (take 4 c) = ZSTD_MAGIC) = z" "length c < 2 ^ 32"
    using assms(1) content_okD(2) [OF assms(2)] by (simp_all add: sniffable_def c_def)
  have f: "frame_of zc z a @ post = ?f" by (simp add: frame_of_def frame_def write_enum_type write_u32_def c_def)
  have "bytes_at (1 + 0) 4 ?f = le_bytes 4 (int (length c))" "bytes_at (1 + (4 + 0)) 4 ?f = bytes_at 0 4 (c @ post)"
    by (simp_all only: bytes_at_field length_le_bytes)
  moreover have "bytes_at 0 4 (c @ post) = take 4 c" using c(1) by (simp add: bytes_at_def)
  moreover have "le_value (le_bytes 4 (int (length c))) = int (length c)" using c(3) by (intro le_value_exact) simp_all
  ultimately show ?thesis using c bytes_at_append [of pre 1 4 ?f] bytes_at_append [of pre 5 4 ?f] unfolding sniff_compressed_def f by simp
qed

lemma serialise_starts: "\<exists>rest. serialise a = write_ts (time_of_event a) @ rest"
  by (cases a) (simp_all add: serialise_def serialise_defs time_of_event_def)

lemma take_le_bytes: "take 4 (le_bytes 8 n) = le_bytes 4 n"
  by (simp add: eval_nat_numeral)

lemma plain_sniffable: "sniffable zc False a \<longleftrightarrow> event_us a mod 2 ^ 32 \<noteq> ZSTD_MAGIC"
proof -
  obtain rest where "serialise a = le_bytes 8 (event_us a) @ rest" using serialise_starts [of a] by (auto simp: write_ts_def write_i64_def event_us_def)
  then show ?thesis by (simp add: sniffable_def log_content_def take_le_bytes le_value_bytes)
qed

lemma zstd_sniffable:
  assumes "zstd_ok zc zd" "loggable a"
  shows "sniffable zc True a"
proof -
  obtain c where "zc (serialise a) = Some (le_bytes 4 ZSTD_MAGIC @ c)"
    using assms length_serialise [OF assms(2)] unfolding zstd_ok_def by blast
  then show ?thesis by (simp add: sniffable_def log_content_def le_value_bytes ZSTD_MAGIC_def)
qed

lemma seek_index_point:
  obtains j where "j \<le> length as" "start_of from (index_points zc z 0 0 as) = length (frames zc z (take j as))"
    "j = 0 \<or> j < length as \<and> event_us (as ! j) \<le> from"
proof (cases "from > 0 \<and> index_points zc z 0 0 as \<noteq> []")
  case True
  define es where "es = index_points zc z 0 0 as"
  define k where "k = length (takeWhile (\<lambda>(t, off). \<not> from < t) es)"
  have st: "start_of from es = nat (snd (es ! (if k \<noteq> 0 then k - 1 else k)))" using True by (simp add: start_of_def seek_entry_def k_def es_def)
  show ?thesis
  proof (cases "k = 0")
    case True
    obtain a as' where "as = a # as'" using \<open>from > 0 \<and> index_points zc z 0 0 as \<noteq> []\<close> by (cases as) auto
    then show ?thesis using st True that [of 0] by (simp add: es_def)
  next
    case False
    then have l: "k - 1 < length (takeWhile (\<lambda>(t, off). \<not> from < t) es)" by (simp add: k_def)
    have k: "es ! (k - 1) \<in> set (takeWhile (\<lambda>(t, off). \<not> from < t) es)" using nth_mem [OF l] unfolding takeWhile_nth [OF l] .
    then have e: "es ! (k - 1) \<in> set es" "\<not> from < fst (es ! (k - 1))" using set_takeWhileD [OF k] by (auto split: prod.splits)
    from index_points_nth [OF e(1) [unfolded es_def]] obtain j where "j < length as"
      "es ! (k - 1) = (event_us (as ! j), int (length (frames zc z (take j as))))" by (auto simp: es_def)
    then show ?thesis using st False e(2) that [of j] by (simp add: es_def)
  qed
next
  case False
  then have "start_of from (index_points zc z 0 0 as) = 0" by (auto simp: start_of_def)
  then show ?thesis using that [of 0] by simp
qed

lemma replay_from_point:
  assumes "list_all loggable as" "list_all (content_ok zc zd z) as" "list_all (sniffable zc z) as" "length as < 2 ^ 32"
    "start_of from (index_points zc z 0 0 as) = length (frames zc z (take j as))"
  shows "replay_file zd (log_file zc z as) from to = Inr (map replayed (window from to (drop j as)))"
proof -
  define r where "r = mk_event_replayer (log_file zc z as) from to"
  note r = r_def [unfolded replayer_on_log [OF assms(1,2,4)] assms(5)]
  let ?post = "index_trailer (int (length (frames zc z as))) (index_points zc z 0 0 as)"
  have s: "frames zc z as = frames zc z (take j as) @ frames zc z (drop j as)" by (simp flip: frames_simps(3))
  then have f: "log_file zc z as = frames zc z (take j as) @ frames zc z (drop j as) @ ?post" by (simp add: log_file_def)
  have ok: "list_all (content_ok zc zd z) (drop j as)" "list_all loggable (drop j as)" "list_all (sniffable zc z) (drop j as)"
    using assms(1-3) by (auto simp: list_all_iff dest: in_set_dropD)
  have c: "drop j as = [] \<or> sniff_compressed (length (frames zc z (take j as))) (log_file zc z as) = z"
  proof (cases "drop j as")
    case (Cons a bs)
    then show ?thesis using ok sniff_frame [of zc z a zd "frames zc z (take j as)" "frames zc z bs @ ?post"] by (simp add: f)
  qed simp
  have "replay_all zd r (length (frames zc z (take j as))) = Inr (map replayed (window (rp_from r) (rp_to r) (drop j as)))"
    using f s c ok by (intro replay_frames [where post = ?post and z = z and zc = zc]) (simp_all add: r)
  then show ?thesis by (simp add: replay_file_def r_def [symmetric]) (simp add: r)
qed

lemma window_skips: "\<forall>a \<in> set xs. event_us a < from \<Longrightarrow> window from to (xs @ ys) = window from to ys"
proof (cases "from \<le> to")
  case True
  assume "\<forall>a \<in> set xs. event_us a < from"
  with True show ?thesis unfolding window_def by (subst takeWhile_append2) (auto simp: filter_empty_conv)
next
  case False
  then have "window from to zs = []" for zs unfolding window_def by (auto simp: filter_empty_conv dest!: set_takeWhileD)
  then show ?thesis by simp
qed

lemma window_from_point:
  assumes "sorted_wrt (<) (map event_us as)" "j = 0 \<or> j < length as \<and> event_us (as ! j) \<le> from"
  shows "window from to (drop j as) = window from to as"
proof -
  have "\<forall>a \<in> set (take j as). event_us a < from"
  proof
    fix a assume "a \<in> set (take j as)"
    then obtain i where i: "i < j" "i < length as" "a = as ! i" by (auto simp: in_set_conv_nth)
    with assms have "j < length as" "event_us (as ! j) \<le> from" by auto
    with i sorted_wrt_nth_less [OF assms(1), of i j] show "event_us a < from" by simp
  qed
  from window_skips [OF this, of to "drop j as"] show ?thesis by simp
qed

lemma log_ok:
  assumes "list_all loggable as" "if z then zstd_ok zc zd else list_all (\<lambda>a. event_us a mod 2 ^ 32 \<noteq> ZSTD_MAGIC) as"
  shows "list_all (content_ok zc zd z) as" "list_all (sniffable zc z) as"
  using assms zstd_content_ok [of zc zd] plain_content_ok [of _ zc zd] zstd_sniffable [of zc zd] plain_sniffable [of zc]
  by (cases z; simp add: list_all_iff)+

text \<open>C11: Events logged without rotation and replayed come back: after any number of \<open>log\<close> calls and \<open>finalize\<close>, calling \<open>next\<close> to
  the end returns, in the logged order, the events from the first one on up to the first one later than \<open>to\<close> that are not earlier than
  \<open>from\<close>, and no call throws. With \<open>from\<close> at most 0 this needs no order of the timestamps; with a later \<open>from\<close>, where the replayer seeks by
  the index, they are strictly increasing. A compressed log relies on zstd decompressing what it compressed; an uncompressed one on no
  timestamp having the low half of zstd's magic number.\<close>

theorem replay_returns_logged:
  assumes "list_all loggable as" "length as < 2 ^ 32" "if z then zstd_ok zc zd else list_all (\<lambda>a. event_us a mod 2 ^ 32 \<noteq> ZSTD_MAGIC) as"
    "from \<le> 0 \<or> sorted_wrt (<) (map event_us as)"
  shows "map_option (\<lambda>l. replay_file zd (lg_out (finalize l)) from to) (log_events zc as (mk_event_logger z 0 mf)) =
    Some (Inr (map replayed (window from to as)))"
proof -
  note ok = log_ok [OF assms(1,3)]
  have "replay_file zd (log_file zc z as) from to = Inr (map replayed (window from to as))"
  proof (cases "from \<le> 0")
    case True
    then show ?thesis using replay_from_point [OF assms(1) ok assms(2), of "from" 0] by (simp add: start_of_def)
  next
    case False
    obtain j where j: "start_of from (index_points zc z 0 0 as) = length (frames zc z (take j as))" "j = 0 \<or> j < length as \<and> event_us (as ! j) \<le> from"
      by (rule seek_index_point)
    from replay_from_point [OF assms(1) ok assms(2) j(1)] window_from_point [OF _ j(2)] assms(4) False show ?thesis by simp
  qed
  moreover obtain l where "log_events zc as (mk_event_logger z 0 mf) = Some l" "lg_out (finalize l) = log_file zc z as"
    using logger_writes [OF ok(1), of mf] by auto
  ultimately show ?thesis by simp
qed

definition some_event :: "time_point \<Rightarrow> any_event" where
  "some_event t = AE_Cancel (mk_cancel_event t ''BTC'' 7 ''user'')"

lemma some_event_simps [simp]: "replayed (some_event t) = some_event t" "time_of_event (some_event t) = t"
  by (simp_all add: replayed_def some_event_def mk_cancel_event_def time_of_event_def)

lemma some_event_loggable [simp]: "loggable (some_event t) = ts_ok t"
  by (simp add: loggable_def) (simp add: some_event_def mk_cancel_event_def str_ok_def)

definition tag :: "byte list \<Rightarrow> byte list option" where "tag p = Some (le_bytes 4 ZSTD_MAGIC @ p)"
definition untag :: "byte list \<Rightarrow> byte list option" where "untag p = Some (drop 4 p)"

lemma tag_zstd_ok: "zstd_ok tag untag"
  by (simp add: zstd_ok_def tag_def untag_def)

lemma replay_returns_logged_witness:
  "map_option (\<lambda>l. replay_file untag (lg_out (finalize l)) 2 3) (log_events tag (map some_event [1000, 2000, 3000, 4000]) (mk_event_logger True 0 5)) =
     Some (Inr (map some_event [2000, 3000]))"
  using replay_returns_logged [of "map some_event [1000, 2000, 3000, 4000]" True tag untag 2 3 5]
  by (simp add: tag_zstd_ok ts_ok_def event_us_def to_micros_def window_def)

subsection \<open>Where the replay differs from the log\<close>

lemma no_index_points: "n mod 1000 > 0 \<Longrightarrow> n mod 1000 + length as \<le> 1000 \<Longrightarrow> index_points zc z pos n as = []"
proof (induction as arbitrary: pos n)
  case (Cons a as)
  have "as = [] \<or> Suc n mod 1000 = Suc (n mod 1000)" using Cons.prems by (cases as) (auto simp: mod_Suc)
  with Cons show ?case by (auto simp: EVENT_LOG_INDEX_INTERVAL_def)
qed simp

lemma one_index_point: "as \<noteq> [] \<Longrightarrow> length as \<le> 1000 \<Longrightarrow> n mod 1000 = 0 \<Longrightarrow> index_points zc z pos n as = [(event_us (as ! 0), int pos)]"
  by (cases as) (auto simp: EVENT_LOG_INDEX_INTERVAL_def mod_Suc intro!: no_index_points)

lemma two_index_points:
  assumes "1000 < length as" "length as \<le> 2000"
  shows "index_points zc z 0 0 as = [(event_us (as ! 0), 0), (event_us (as ! 1000), int (length (frames zc z (take 1000 as))))]"
proof -
  have "index_points zc z 0 0 as = index_points zc z 0 0 (take 1000 as) @ index_points zc z (length (frames zc z (take 1000 as))) 1000 (drop 1000 as)"
    using index_points_append [of zc z 0 0 "take 1000 as" "drop 1000 as"] assms(1) by simp
  moreover have "take 1000 as \<noteq> []" "drop 1000 as \<noteq> []" using assms(1) by auto
  ultimately show ?thesis using assms one_index_point [of "take 1000 as" 0 zc z 0] one_index_point [of "drop 1000 as" 1000 zc z "length (frames zc z (take 1000 as))"]
    by simp
qed

text \<open>C32: A replay that starts at a timestamp shared by the events around an index point loses the ones before it: \<open>upper_bound\<close> goes past
  every index entry equal to \<open>from\<close> and steps back one, onto the last of them. Of up to 2000 events with the time \<open>t\<close>, a replay of the window
  from \<open>t\<close> to \<open>t\<close> returns all but the first 1000.\<close>

theorem replay_skips_equal_timestamps:
  assumes "list_all loggable as" "1000 < length as" "length as \<le> 2000" "list_all (\<lambda>a. event_us a = t) as" "0 < t" "t mod 2 ^ 32 \<noteq> ZSTD_MAGIC"
  shows "map_option (\<lambda>l. replay_file zd (lg_out (finalize l)) t t) (log_events zc as (mk_event_logger False 0 mf)) =
    Some (Inr (map replayed (drop 1000 as)))"
proof -
  have m: "list_all (\<lambda>a. event_us a mod 2 ^ 32 \<noteq> ZSTD_MAGIC) as" using assms(4,6) by (auto simp: list_all_iff)
  have ok: "list_all (content_ok zc zd False) as" "list_all (sniffable zc False) as" using log_ok [of as False zc zd] assms(1) m by simp_all
  have "i < length as \<Longrightarrow> event_us (as ! i) = t" for i using assms(4) by (simp add: list_all_length)
  from this [of 0] this [of 1000] assms(2) have "event_us (as ! 0) = t" "event_us (as ! 1000) = t" by linarith+
  then have "start_of t (index_points zc False 0 0 as) = length (frames zc False (take 1000 as))"
    using assms(5) by (simp add: two_index_points [OF assms(2,3)] start_of_def seek_entry_def)
  from replay_from_point [OF assms(1) ok _ this] assms(3) have r: "replay_file zd (log_file zc False as) t t = Inr (map replayed (window t t (drop 1000 as)))" by simp
  have "window t t (drop 1000 as) = drop 1000 as"
    unfolding window_def using assms(4) by (subst takeWhile_eq_all_conv [THEN iffD2]) (auto simp: list_all_iff filter_id_conv dest: in_set_dropD)
  moreover obtain l where "log_events zc as (mk_event_logger False 0 mf) = Some l" "lg_out (finalize l) = log_file zc False as"
    using logger_writes [OF ok(1), of mf] by auto
  ultimately show ?thesis using r by simp
qed

lemma replay_skips_equal_timestamps_witness:
  "map_option (\<lambda>l. replay_file untag (lg_out (finalize l)) 1 1) (log_events tag (replicate 1001 (some_event 1000)) (mk_event_logger False 0 5)) =
     Some (Inr [some_event 1000])"
  using replay_skips_equal_timestamps [of "replicate 1001 (some_event 1000)" 1 untag tag 5]
  by (simp add: list_all_iff ts_ok_def event_us_def to_micros_def ZSTD_MAGIC_def)

text \<open>An uncompressed log whose first timestamp has zstd's magic number in its low half is taken for a compressed one: the first event is
  not decoded.\<close>

lemma plain_log_taken_for_compressed:
  assumes "list_all loggable (a # as)" "length (a # as) < 2 ^ 32" "event_us a mod 2 ^ 32 = ZSTD_MAGIC" "zd (serialise a) = None"
  shows "replay_file zd (log_file zc False (a # as)) 0 to = Inl Replay_Zstd"
proof -
  have ok: "list_all (content_ok zc zd False) (a # as)" using assms(1) plain_content_ok by (auto simp: list_all_iff)
  let ?post = "frames zc False as @ index_trailer (int (length (frames zc False (a # as)))) (index_points zc False 0 0 (a # as))"
  define r where "r = mk_event_replayer (log_file zc False (a # as)) 0 to"
  note r = r_def [unfolded replayer_on_log [OF assms(1) ok assms(2)]]
  have f: "log_file zc False (a # as) = frame a (serialise a) @ ?post" by (simp add: log_file_def frame_of_def log_content_def)
  obtain rest where s: "serialise a = le_bytes 8 (event_us a) @ rest" using serialise_starts [of a] by (auto simp: write_ts_def write_i64_def event_us_def)
  have l: "length (serialise a) < 2 ^ 32" using length_serialise assms(1) by fastforce
  have rf: "read_frame 0 (log_file zc False (a # as)) = Some (type_byte a, serialise a, length (frame a (serialise a)))"
    using read_frame_at [OF l, of "[]" a ?post] by (simp only: f append_Nil list.size add_0_left)
  have "bytes_at (1 + 0) 4 (frame a (serialise a) @ ?post) = le_bytes 4 (int (length (serialise a)))"
    "bytes_at (1 + (4 + 0)) 4 (frame a (serialise a) @ ?post) = bytes_at 0 4 (serialise a @ ?post)"
    unfolding frame_def write_enum_type write_u32_def append_assoc by (simp_all only: bytes_at_field length_le_bytes)
  moreover have "bytes_at 0 4 (serialise a @ ?post) = le_bytes 4 (event_us a)" unfolding s by (simp add: bytes_at_def take_le_bytes)
  moreover have "le_value (le_bytes 4 (int (length (serialise a)))) = int (length (serialise a))" using l by (intro le_value_exact) simp_all
  ultimately have "sniff_compressed 0 (log_file zc False (a # as))"
    using assms(3) s unfolding f by (simp add: sniff_compressed_def le_value_bytes)
  then have "replay_next zd r 0 = R_Throw Replay_Zstd"
    using rf assms(4) by (subst replay_next.simps) (simp add: r start_of_def decode_frame_def frame_of_def)
  then show ?thesis by (simp add: replay_file_def r_def [symmetric]) (simp add: replay_all.simps r start_of_def)
qed

end
