(* ===== verification/Registry.thy ===== *)
theory Registry
  imports Event_Types Orderbook
begin

text \<open>
  The symbol table of \<open>src/types/symbol_table.h\<close> and the registry of order books of \<open>src/orderbook/orderbook_registry.h\<close>.

  Books are shared: the registry and the execution adapters hold \<open>shared_ptr\<close>s to the same object. A book is therefore a reference into a
  heap of books, and a registry slot holds an optional reference. The pool settings a new book is configured with are storage only and are
  left out.
\<close>

datatype registry_error = Symbol_Table_Full

record symbol_table =
  st_symbols :: "symbol list"
  st_index :: "(symbol, 16 word) umap"

definition kInvalidId :: "16 word" where "kInvalidId = 0xFFFF"

definition kMaxSymbols :: nat where "kMaxSymbols = 256"

definition mk_symbol_table :: symbol_table where
  "mk_symbol_table = \<lparr>st_symbols = [], st_index = []\<rparr>"

definition intern_id :: "symbol \<Rightarrow> symbol_table \<Rightarrow> registry_error + 16 word \<times> symbol_table" where
  "intern_id sy t =
     (case map_of (st_index t) sy of Some i \<Rightarrow> Inr (i, t)
      | None \<Rightarrow>
         if length (st_symbols t) \<ge> kMaxSymbols then Inl Symbol_Table_Full
         else let i = of_nat (length (st_symbols t))
              in Inr (i, \<lparr>st_symbols = st_symbols t @ [sy], st_index = AList.update sy i (st_index t)\<rparr>))"

text \<open>\<open>resolve\<close>: \<open>vector::at\<close> throws outside the table.\<close>

definition resolve :: "16 word \<Rightarrow> symbol_table \<Rightarrow> symbol option" where
  "resolve i t = (if unat i < length (st_symbols t) then Some (st_symbols t ! unat i) else None)"

definition id_of :: "symbol \<Rightarrow> symbol_table \<Rightarrow> 16 word" where
  "id_of sy t = (case map_of (st_index t) sy of Some i \<Rightarrow> i | None \<Rightarrow> kInvalidId)"

definition st_clear :: "symbol_table \<Rightarrow> symbol_table" where
  "st_clear t = mk_symbol_table"

subsection \<open>Books\<close>

type_synonym book_ref = nat

record book_heap =
  bh_book :: "book_ref \<Rightarrow> orderbook"
  bh_next :: book_ref

definition set_book :: "book_ref \<Rightarrow> orderbook \<Rightarrow> book_heap \<Rightarrow> book_heap" where
  "set_book r b h = h\<lparr>bh_book := (bh_book h)(r := b)\<rparr>"

definition new_book :: "book_heap \<Rightarrow> book_ref \<times> book_heap" where
  "new_book h = (bh_next h, (set_book (bh_next h) empty_book h)\<lparr>bh_next := bh_next h + 1\<rparr>)"

record book_registry =
  rg_symbols :: symbol_table
  rg_books :: "book_ref option list"

definition mk_registry :: book_registry where
  "mk_registry = \<lparr>rg_symbols = mk_symbol_table, rg_books = []\<rparr>"

definition ensure_slot :: "nat \<Rightarrow> book_ref option list \<Rightarrow> book_ref option list" where
  "ensure_slot i bs = bs @ replicate (i + 1 - length bs) None"

definition get_or_create :: "symbol \<Rightarrow> book_registry \<times> book_heap \<Rightarrow> registry_error + book_ref \<times> book_registry \<times> book_heap" where
  "get_or_create sy = (\<lambda>(r, h).
     case intern_id sy (rg_symbols r) of Inl e \<Rightarrow> Inl e
     | Inr (i, t) \<Rightarrow>
        (let bs = ensure_slot (unat i) (rg_books r) in
         case bs ! unat i of
           Some n \<Rightarrow> Inr (n, \<lparr>rg_symbols = t, rg_books = bs\<rparr>, h)
         | None \<Rightarrow> (let (n, h') = new_book h in Inr (n, \<lparr>rg_symbols = t, rg_books = bs[unat i := Some n]\<rparr>, h'))))"

definition rg_get :: "symbol \<Rightarrow> book_registry \<Rightarrow> book_ref option" where
  "rg_get sy r = (let i = id_of sy (rg_symbols r) in
     if i = kInvalidId \<or> unat i \<ge> length (rg_books r) then None else rg_books r ! unat i)"

definition rg_list :: "book_registry \<Rightarrow> symbol option list" where
  "rg_list r = map (\<lambda>i. resolve (of_nat i) (rg_symbols r)) (filter (\<lambda>i. rg_books r ! i \<noteq> None) [0..<length (rg_books r)])"

definition rg_size :: "book_registry \<Rightarrow> nat" where
  "rg_size r = length (filter (\<lambda>b. b \<noteq> None) (rg_books r))"

definition clear_slot :: "book_ref option \<Rightarrow> book_heap \<Rightarrow> book_heap" where
  "clear_slot b h = (case b of None \<Rightarrow> h | Some n \<Rightarrow> set_book n (clear (bh_book h n)) h)"

definition rg_clear :: "book_registry \<times> book_heap \<Rightarrow> book_registry \<times> book_heap" where
  "rg_clear = (\<lambda>(r, h). (\<lparr>rg_symbols = st_clear (rg_symbols r), rg_books = []\<rparr>, fold clear_slot (rg_books r) h))"

subsection \<open>The registry is a map from symbols to distinct books\<close>

definition table_ok :: "symbol_table \<Rightarrow> bool" where
  "table_ok t \<longleftrightarrow> length (st_symbols t) \<le> kMaxSymbols \<and> distinct (st_symbols t) \<and>
     (\<forall>sy i. map_of (st_index t) sy = Some i \<longleftrightarrow> unat i < length (st_symbols t) \<and> st_symbols t ! unat i = sy)"

definition registry_ok :: "book_registry \<Rightarrow> book_heap \<Rightarrow> bool" where
  "registry_ok r h \<longleftrightarrow> table_ok (rg_symbols r) \<and> length (rg_books r) \<le> length (st_symbols (rg_symbols r)) \<and>
     (\<forall>i n. i < length (rg_books r) \<longrightarrow> rg_books r ! i = Some n \<longrightarrow> n < bh_next h) \<and>
     (\<forall>i j n. i < length (rg_books r) \<longrightarrow> j < length (rg_books r) \<longrightarrow> rg_books r ! i = Some n \<longrightarrow> rg_books r ! j = Some n \<longrightarrow> i = j)"

lemma table_index:
  assumes "table_ok t"
  shows "map_of (st_index t) sy = None \<longleftrightarrow> sy \<notin> set (st_symbols t)"
    "i < length (st_symbols t) \<Longrightarrow> map_of (st_index t) (st_symbols t ! i) = Some (of_nat i)"
    "map_of (st_index t) sy = Some j \<Longrightarrow> unat j < length (st_symbols t) \<and> st_symbols t ! unat j = sy \<and> j \<noteq> kInvalidId"
proof -
  have len: "length (st_symbols t) \<le> 256" using assms by (simp add: table_ok_def kMaxSymbols_def)
  have iff: "map_of (st_index t) s = Some i \<longleftrightarrow> unat i < length (st_symbols t) \<and> st_symbols t ! unat i = s" for s i
    using assms by (simp add: table_ok_def)
  have small: "unat (of_nat k :: 16 word) = k" if "k < 256" for k using that by (simp add: unat_of_nat)
  show two: "map_of (st_index t) (st_symbols t ! i) = Some (of_nat i)" if "i < length (st_symbols t)" for i
    using that len small [of i] by (simp add: iff)
  show "map_of (st_index t) sy = None \<longleftrightarrow> sy \<notin> set (st_symbols t)"
    using iff two by (metis in_set_conv_nth not_None_eq)
  assume j: "map_of (st_index t) sy = Some j"
  then have "unat j < 256" using iff len by fastforce
  moreover have "unat kInvalidId = 65535" by (simp add: kInvalidId_def)
  ultimately show "unat j < length (st_symbols t) \<and> st_symbols t ! unat j = sy \<and> j \<noteq> kInvalidId" using j by (auto simp: iff)
qed

lemma intern_id_ok:
  assumes "table_ok t" "intern_id sy t = Inr (i, t')"
  shows "table_ok t'" "unat i < length (st_symbols t')" "st_symbols t' ! unat i = sy"
    "st_symbols t' = st_symbols t \<or> sy \<notin> set (st_symbols t) \<and> st_symbols t' = st_symbols t @ [sy] \<and> unat i = length (st_symbols t)"
proof -
  have "table_ok t' \<and> unat i < length (st_symbols t') \<and> st_symbols t' ! unat i = sy \<and> (st_symbols t' = st_symbols t \<or>
    sy \<notin> set (st_symbols t) \<and> st_symbols t' = st_symbols t @ [sy] \<and> unat i = length (st_symbols t))"
  proof (cases "map_of (st_index t) sy")
    case (Some j)
    then show ?thesis using assms table_index(3) [OF assms(1) Some] by (simp add: intern_id_def)
  next
    case None
    note new = iffD1 [OF table_index(1) [OF assms(1)] None]
    define n where "n = length (st_symbols t)"
    have n: "n < 256" and i: "i = of_nat n" and t': "t' = \<lparr>st_symbols = st_symbols t @ [sy], st_index = AList.update sy i (st_index t)\<rparr>"
      using assms(2) None by (auto simp: intern_id_def Let_def n_def kMaxSymbols_def split: if_splits)
    have ui: "unat i = n" using n by (simp add: i unat_of_nat)
    have "map_of (st_index t') s = Some j \<longleftrightarrow> unat j < length (st_symbols t') \<and> st_symbols t' ! unat j = s" for s j
    proof (cases "s = sy")
      case True
      have "unat j = n" if "unat j < Suc n" "(st_symbols t @ [sy]) ! unat j = sy"
        using that new by (cases "unat j < n") (auto simp: nth_append n_def)
      then have "unat j < Suc n \<and> (st_symbols t @ [sy]) ! unat j = sy \<longleftrightarrow> unat j = n" by (auto simp: n_def)
      moreover have "map_of (st_index t') s = Some j \<longleftrightarrow> unat j = n" using True ui by (auto simp: t' word_unat_eq_iff)
      ultimately show ?thesis using True by (simp add: t' n_def)
    next
      case False
      then show ?thesis using assms(1) n_def by (auto simp: t' table_ok_def nth_append)
    qed
    then have "table_ok t'" using assms(1) new n by (simp add: table_ok_def t' kMaxSymbols_def n_def)
    then show ?thesis using ui new by (simp add: t' n_def)
  qed
  then show "table_ok t'" "unat i < length (st_symbols t')" "st_symbols t' ! unat i = sy"
    "st_symbols t' = st_symbols t \<or> sy \<notin> set (st_symbols t) \<and> st_symbols t' = st_symbols t @ [sy] \<and> unat i = length (st_symbols t)" by blast+
qed

lemma rg_get_iff:
  assumes "table_ok (rg_symbols r)" "length (rg_books r) \<le> length (st_symbols (rg_symbols r))"
  shows "rg_get sy r = Some n \<longleftrightarrow> (\<exists>i < length (rg_books r). st_symbols (rg_symbols r) ! i = sy \<and> rg_books r ! i = Some n)"
proof (cases "map_of (st_index (rg_symbols r)) sy")
  case None
  then have "sy \<notin> set (st_symbols (rg_symbols r))" using table_index(1) [OF assms(1)] by simp
  then have "st_symbols (rg_symbols r) ! i \<noteq> sy" if "i < length (rg_books r)" for i using that assms(2) by auto
  then show ?thesis using None by (auto simp: rg_get_def id_of_def)
next
  case (Some j)
  note t = table_index(3) [OF assms(1) Some]
  have "unat j = i" if "i < length (rg_books r)" "st_symbols (rg_symbols r) ! i = sy" for i
    using that t assms by (metis (no_types) nth_eq_iff_index_eq order_less_le_trans table_ok_def)
  moreover have "rg_get sy r = Some n \<longleftrightarrow> unat j < length (rg_books r) \<and> rg_books r ! unat j = Some n"
    using t Some by (auto simp: rg_get_def id_of_def Let_def)
  ultimately show ?thesis using t by blast
qed

text \<open>C20: The registry of order books is a map from symbols to distinct books: asking for a symbol's book returns the book it already has, or
  a new empty one, leaves the book of every other symbol alone and never hands two symbols the same book; it fails only for a 257th symbol.\<close>

theorem registry_is_map:
  assumes "registry_ok r h"
  shows "case get_or_create sy (r, h) of
      Inl e \<Rightarrow> length (st_symbols (rg_symbols r)) = 256 \<and> sy \<notin> set (st_symbols (rg_symbols r))
    | Inr (n, r', h') \<Rightarrow> registry_ok r' h' \<and> rg_get sy r' = Some n \<and> (\<forall>s. s \<noteq> sy \<longrightarrow> rg_get s r' = rg_get s r \<and> rg_get s r' \<noteq> Some n) \<and>
        (case rg_get sy r of Some m \<Rightarrow> n = m \<and> h' = h
         | None \<Rightarrow> n = bh_next h \<and> bh_book h' n = empty_book \<and> (\<forall>m. m \<noteq> n \<longrightarrow> bh_book h' m = bh_book h m))"
proof (cases "intern_id sy (rg_symbols r)")
  case (Inl e)
  then have n: "map_of (st_index (rg_symbols r)) sy = None" "length (st_symbols (rg_symbols r)) \<ge> 256"
    by (auto simp: intern_id_def Let_def kMaxSymbols_def split: option.splits if_splits)
  have ok: "table_ok (rg_symbols r)" using assms by (simp add: registry_ok_def)
  then have "length (st_symbols (rg_symbols r)) \<le> 256" by (simp add: table_ok_def kMaxSymbols_def)
  then show ?thesis using n table_index(1) [OF ok] Inl by (simp add: get_or_create_def)
next
  case (Inr p)
  obtain i t where it: "intern_id sy (rg_symbols r) = Inr (i, t)" using Inr by (cases p) simp
  have ok: "table_ok (rg_symbols r)" "length (rg_books r) \<le> length (st_symbols (rg_symbols r))" using assms by (simp_all add: registry_ok_def)
  note ii = intern_id_ok [OF ok(1) it]
  define bs where "bs = ensure_slot (unat i) (rg_books r)"
  have bl: "unat i < length bs" "length (rg_books r) \<le> length bs" "length bs \<le> length (st_symbols t)"
    using ii(2,4) ok(2) by (auto simp: bs_def ensure_slot_def)
  have bn: "bs ! k = (if k < length (rg_books r) then rg_books r ! k else None)" if "k < length bs" for k
    using that by (auto simp: bs_def ensure_slot_def nth_append)
  have sm: "st_symbols t ! k = st_symbols (rg_symbols r) ! k" if "k < length (rg_books r)" for k
    using that ii(4) ok(2) by (auto simp: nth_append)
  define n where "n = (case bs ! unat i of Some m \<Rightarrow> m | None \<Rightarrow> bh_next h)"
  define h' where "h' = (case bs ! unat i of Some m \<Rightarrow> h | None \<Rightarrow> snd (new_book h))"
  define r' where "r' = \<lparr>rg_symbols = t, rg_books = bs[unat i := Some n]\<rparr>"
  have e: "get_or_create sy (r, h) = Inr (n, r', h')"
    by (auto simp: get_or_create_def it Let_def bs_def [symmetric] n_def h'_def r'_def new_book_def split: option.split) (metis list_update_id)
  note g = rg_get_iff [of r', simplified r'_def, simplified, OF ii(1) bl(3)] and g0 = rg_get_iff [OF ok]
  have uniq: "k = unat i" if "k < length bs" "st_symbols t ! k = sy" for k
    using that ii(1-3) bl(3) by (metis nth_eq_iff_index_eq order_less_le_trans table_ok_def)
  have gn: "rg_get sy r' = Some n" using bl(1) ii(3) by (auto simp: r'_def g)
  have same: "rg_get s r' = Some m \<longleftrightarrow> rg_get s r = Some m" if "s \<noteq> sy" for s m
    using that bl bn sm ii(3) unfolding r'_def g g0 by (auto simp: nth_list_update split: if_splits) (metis option.distinct(1) order_less_le_trans)+
  then have other: "rg_get s r' = rg_get s r" if "s \<noteq> sy" for s using that by (metis not_Some_eq)
  have fresh: "m < bh_next h" if "k < length bs" "bs ! k = Some m" for k m
    using that bn [OF that(1)] assms by (auto simp: registry_ok_def split: if_splits)
  have inj: "k = l" if "k < length bs" "l < length bs" "bs ! k = Some m" "bs ! l = Some m" for k l m
    using that bn [OF that(1)] bn [OF that(2)] assms unfolding registry_ok_def by (metis option.distinct(1))
  have un: "k = unat i" if "k < length bs" "bs ! k = Some n" for k
    using that fresh [OF that] inj [OF that(1) bl(1) that(2)] by (auto simp: n_def split: option.splits)
  have ok': "registry_ok r' h'" using ii(1) bl fresh inj un
    by (auto simp: registry_ok_def r'_def h'_def new_book_def n_def nth_list_update less_Suc_eq split: option.split)
  have dis: "rg_get s r' \<noteq> Some n" if "s \<noteq> sy" for s
    using that un ii(3) bl(1) unfolding r'_def g by (metis length_list_update nth_list_update_neq)
  have old: "rg_get sy r = bs ! unat i"
  proof (cases "unat i < length (rg_books r)")
    case True
    then show ?thesis using bn [OF bl(1)] uniq sm ii(3) g0 bl(2) by (metis (no_types, lifting) not_Some_eq order_less_le_trans)
  next
    case False
    then have "rg_get sy r \<noteq> Some m" for m using uniq sm bl(2) unfolding g0 by (metis order_less_le_trans)
    then have "rg_get sy r = None" by (metis not_Some_eq)
    then show ?thesis using False bn [OF bl(1)] by simp
  qed
  show ?thesis using ok' gn other dis old by (auto simp: e n_def h'_def new_book_def set_book_def split: option.split)
qed

theorem registry_is_map_witness:
  "\<exists>n r h. get_or_create ''BTC'' (mk_registry, \<lparr>bh_book = (\<lambda>_. empty_book), bh_next = 0\<rparr>) = Inr (n, r, h) \<and> rg_get ''BTC'' r = Some n \<and>
     rg_get ''ETH'' r = None"
proof -
  have ok: "registry_ok mk_registry \<lparr>bh_book = (\<lambda>_. empty_book), bh_next = 0\<rparr>"
    by (simp add: registry_ok_def mk_registry_def table_ok_def mk_symbol_table_def)
  obtain n r h where g: "get_or_create ''BTC'' (mk_registry, \<lparr>bh_book = (\<lambda>_. empty_book), bh_next = 0\<rparr>) = Inr (n, r, h)"
    by (simp add: get_or_create_def intern_id_def mk_registry_def mk_symbol_table_def kMaxSymbols_def Let_def new_book_def ensure_slot_def)
  have "rg_get ''ETH'' mk_registry = None" by (simp add: rg_get_def mk_registry_def mk_symbol_table_def id_of_def)
  then show ?thesis using registry_is_map [OF ok, of "''BTC''"] g by simp
qed

end
