(* ===== verification/Sqrt64.thy ===== *)
theory Sqrt64
  imports Binary64
begin

text \<open>
  \<open>std::sqrt\<close> on doubles, correctly rounded as IEEE 754 requires. The integer square root of the argument scaled to about
  120 bits has 60 significant bits; a half is added when it is inexact, so that rounding to 53 bits sees the
  same side of every rounding boundary as the real root does.
\<close>

function isqrt :: "int \<Rightarrow> int" where
  "isqrt n = (if n \<le> 0 then 0 else let r = 2 * isqrt (n div 4) in if (r + 1) * (r + 1) \<le> n then r + 1 else r)"
  by pat_completeness auto
termination by (relation "measure nat") auto

declare isqrt.simps [simp del]

definition sqrt_scale :: "rat \<Rightarrow> int" where
  "sqrt_scale q = 60 - ilog2 q div 2"

definition fsqrt :: "double \<Rightarrow> double" where
  "fsqrt a = (case a of
     Fin q \<Rightarrow> if q < 0 then NaN else if q = 0 then 0
       else let k = sqrt_scale q; x = q * 4 powi k; r = isqrt \<lfloor>x\<rfloor>
            in rnd ((of_int r + (if of_int (r * r) = x then 0 else 1 / 2)) / 2 powi k)
   | PInf \<Rightarrow> PInf | NInf \<Rightarrow> NaN | NaN \<Rightarrow> NaN)"

lemma isqrt_spec: "0 \<le> n \<Longrightarrow> 0 \<le> isqrt n \<and> isqrt n * isqrt n \<le> n \<and> n < (isqrt n + 1) * (isqrt n + 1)"
proof (induction n rule: isqrt.induct)
  case (1 n)
  show ?case
  proof (cases "n \<le> 0")
    case True
    with 1 show ?thesis by (simp add: isqrt.simps)
  next
    case False
    define r where "r = isqrt (n div 4)"
    have ih: "0 \<le> r" "r * r \<le> n div 4" "n div 4 < (r + 1) * (r + 1)" using 1 False by (simp_all add: r_def)
    have lo: "(2 * r) * (2 * r) \<le> n" using ih(2) by (simp add: algebra_simps)
    have "n div 4 + 1 \<le> (r + 1) * (r + 1)" using ih(3) by simp
    then have "4 * (n div 4) + 4 \<le> 4 * ((r + 1) * (r + 1))" by simp
    moreover have "n < 4 * (n div 4) + 4" by presburger
    ultimately have hi: "n < (2 * r + 2) * (2 * r + 2)" by (simp add: algebra_simps)
    have e: "isqrt n = (if (2 * r + 1) * (2 * r + 1) \<le> n then 2 * r + 1 else 2 * r)"
      using False by (subst isqrt.simps) (simp add: r_def Let_def)
    show ?thesis using lo hi ih(1) unfolding e by (auto simp: algebra_simps)
  qed
qed

lemma isqrt_square: "0 \<le> n \<Longrightarrow> isqrt (n * n) = n"
proof -
  assume n: "0 \<le> n"
  have s: "0 \<le> isqrt (n * n)" "isqrt (n * n) * isqrt (n * n) \<le> n * n" "n * n < (isqrt (n * n) + 1) * (isqrt (n * n) + 1)"
    using isqrt_spec [of "n * n"] by simp_all
  have "isqrt (n * n) \<le> n" using s(1,2) n by (metis abs_le_square_iff abs_of_nonneg power2_eq_square)
  moreover have "n < isqrt (n * n) + 1" using s n
    by (metis abs_of_nonneg add_nonneg_nonneg zero_le_one power2_eq_square abs_less_iff power2_less_imp_less)
  ultimately show ?thesis by simp
qed

lemma fsqrt_zero [simp]: "fsqrt 0 = 0"
  by (simp add: fsqrt_def zero_double_def)

lemma fsqrt_nonneg: "0 \<le> a \<Longrightarrow> 0 \<le> fsqrt a"
proof (cases a)
  case (Fin q)
  have "0 \<le> isqrt \<lfloor>q * 4 powi sqrt_scale q\<rfloor>" if "0 \<le> q" using isqrt_spec that by simp
  then show "0 \<le> a \<Longrightarrow> 0 \<le> fsqrt a" using Fin
    by (auto simp: fsqrt_def Let_def zero_double_def [symmetric] intro!: rnd_nonneg) (auto simp: zero_double_def)
qed (simp_all add: fsqrt_def double_defs)

end
