(* ===== verification/Adverse_Selection.thy ===== *)
theory Adverse_Selection
  imports Event_Types Sqrt64
begin

text \<open>
  The markout statistics of fills, \<open>src/analytics/adverse_selection_tracker.h\<close> and \<open>.cpp\<close>: a fill waits in a bounded queue until a mark of
  its symbol arrives after the horizon.
\<close>

record pending_fill =
  pf_symbol :: symbol
  pf_fill_price :: double
  pf_side_sign :: int
  pf_ready_ts :: time_point

record adverse_selection =
  as_horizon_ms :: int
  as_max_pending :: nat
  as_pending :: "pending_fill list"
  as_sample_n :: nat
  as_mean_bps :: double
  as_m2_bps :: double
  as_dropped :: nat

definition mk_adverse_selection :: adverse_selection where
  "mk_adverse_selection = \<lparr>as_horizon_ms = 10000, as_max_pending = 16384, as_pending = [], as_sample_n = 0, as_mean_bps = 0, as_m2_bps = 0, as_dropped = 0\<rparr>"

definition as_on_fill :: "fill_event \<Rightarrow> adverse_selection \<Rightarrow> adverse_selection" where
  "as_on_fill f t =
     (let full = (as_max_pending t > 0 \<and> length (as_pending t) \<ge> as_max_pending t);
          kept = (if full then tl (as_pending t) else as_pending t)
      in t\<lparr>as_pending := kept @ [\<lparr>pf_symbol = fe_symbol f, pf_fill_price = fe_fill_price f, pf_side_sign = (if fe_side f = Buy then 1 else - 1),
             pf_ready_ts = timestamp f + as_horizon_ms t * 1000000\<rparr>],
           as_dropped := (if full then as_dropped t + 1 else as_dropped t)\<rparr>)"

definition due :: "symbol \<Rightarrow> time_point \<Rightarrow> pending_fill \<Rightarrow> bool" where
  "due sy ts pf \<longleftrightarrow> pf_ready_ts pf \<le> ts \<and> pf_symbol pf = sy"

definition take_sample :: "double \<Rightarrow> pending_fill \<Rightarrow> adverse_selection \<Rightarrow> adverse_selection" where
  "take_sample mid pf t =
     (let markout = (mid - pf_fill_price pf) / pf_fill_price pf * Fin 10000 * double_of_i64 (pf_side_sign pf);
          n = as_sample_n t + 1; delta = markout - as_mean_bps t; mean = as_mean_bps t + delta / double_of_i64 (int n)
      in t\<lparr>as_sample_n := n, as_mean_bps := mean, as_m2_bps := as_m2_bps t + delta * (markout - mean)\<rparr>)"

definition as_on_mark :: "symbol \<Rightarrow> double \<Rightarrow> time_point \<Rightarrow> adverse_selection \<Rightarrow> adverse_selection" where
  "as_on_mark sy mid ts t =
     (if \<not> mid > 0 then t
      else (fold (take_sample mid) (filter (due sy ts) (as_pending t)) t)\<lparr>as_pending := filter (\<lambda>pf. \<not> due sy ts pf) (as_pending t)\<rparr>)"

definition stdev_bps :: "adverse_selection \<Rightarrow> double" where
  "stdev_bps t = (if as_sample_n t < 2 then 0 else fsqrt (as_m2_bps t / double_of_i64 (int (as_sample_n t) - 1)))"

definition as_reset :: "adverse_selection \<Rightarrow> adverse_selection" where
  "as_reset t = t\<lparr>as_pending := [], as_sample_n := 0, as_mean_bps := 0, as_m2_bps := 0, as_dropped := 0\<rparr>"

text \<open>Every fill is waiting, sampled or dropped: none is counted twice or lost.\<close>

lemma take_sample_counts: "as_sample_n (fold (take_sample mid) pfs t) = as_sample_n t + length pfs" "as_dropped (fold (take_sample mid) pfs t) = as_dropped t"
  by (induction pfs arbitrary: t) (simp_all add: take_sample_def Let_def)

lemma adverse_accounting:
  "length (as_pending (as_on_mark sy mid ts t)) + as_sample_n (as_on_mark sy mid ts t) + as_dropped (as_on_mark sy mid ts t) =
     length (as_pending t) + as_sample_n t + as_dropped t"
  "length (as_pending (as_on_fill f t)) + as_sample_n (as_on_fill f t) + as_dropped (as_on_fill f t) = Suc (length (as_pending t) + as_sample_n t + as_dropped t)"
  "0 < as_max_pending t \<Longrightarrow> length (as_pending t) \<le> as_max_pending t \<Longrightarrow> length (as_pending (as_on_fill f t)) \<le> as_max_pending t"
  using sum_length_filter_compl [of "due sy ts" "as_pending t"] by (auto simp: as_on_mark_def as_on_fill_def take_sample_counts Let_def)

end
