(* ===== verification/Exec_Models.thy ===== *)
theory Exec_Models
  imports Event_Types Book_Types Sqrt64
begin

text \<open>
  The small pluggable models of \<open>src/execution\<close> and \<open>src/orderbook/fill_model.h\<close>: fees, latency, cancel attribution in a queue,
  L2 queue position, trading rules of an instrument, and the order status table. Each class hierarchy is a
  datatype with one constructor per class; a null \<open>shared_ptr\<close> is \<open>None\<close>.

  Random draws (\<open>std::normal_distribution\<close>) are a parameter: a function from the number of the draw. \<open>std::exp\<close>, which no
  standard makes exact, is a parameter too; nothing stated here depends on it.
\<close>

subsection \<open>Fees\<close>

datatype fee_model = ZeroFeeModel | FixedFeeModel double | TieredFeeModel double double

definition compute_commission :: "fee_model \<Rightarrow> order_side \<Rightarrow> double \<Rightarrow> double \<Rightarrow> bool \<Rightarrow> double" where
  "compute_commission fm sd q px is_taker =
     (case fm of ZeroFeeModel \<Rightarrow> 0 | FixedFeeModel fee \<Rightarrow> fee
      | TieredFeeModel maker_rate taker_rate \<Rightarrow> \<bar>q * px\<bar> * (if is_taker then taker_rate else maker_rate))"

definition commission_of :: "fee_model option \<Rightarrow> order_side \<Rightarrow> double \<Rightarrow> double \<Rightarrow> bool \<Rightarrow> double" where
  "commission_of fm sd q px is_taker = (case fm of None \<Rightarrow> 0 | Some m \<Rightarrow> compute_commission m sd q px is_taker)"

subsection \<open>Latency\<close>

text \<open>Microseconds. A stochastic model holds its three distributions as functions of the number of the draw, because
  they share one generator.\<close>

datatype latency_model = ZeroLatencyModel | FixedLatencyModel int int int
  | StochasticLatencyModel "nat \<Rightarrow> double" "nat \<Rightarrow> double" "nat \<Rightarrow> double" nat

definition mk_fixed_latency :: "int \<Rightarrow> int \<Rightarrow> int \<Rightarrow> latency_model" where
  "mk_fixed_latency ord md cancel = FixedLatencyModel ord md (if cancel < 0 then ord else cancel)"

text \<open>\<open>static_cast<long long>(std::max(0.0, x))\<close>; \<open>None\<close> where the conversion is undefined.\<close>

definition nonneg_llong :: "double \<Rightarrow> int option" where
  "nonneg_llong x = (case std_max 0 x of Fin q \<Rightarrow> if q < 2 ^ 63 then Some \<lfloor>q\<rfloor> else None | _ \<Rightarrow> None)"

definition get_order_latency :: "latency_model \<Rightarrow> (int \<times> latency_model) option" where
  "get_order_latency m = (case m of ZeroLatencyModel \<Rightarrow> Some (0, m) | FixedLatencyModel a b c \<Rightarrow> Some (a, m)
     | StochasticLatencyModel f g h k \<Rightarrow> map_option (\<lambda>v. (v, StochasticLatencyModel f g h (Suc k))) (nonneg_llong (f k)))"

definition get_market_data_latency :: "latency_model \<Rightarrow> (int \<times> latency_model) option" where
  "get_market_data_latency m = (case m of ZeroLatencyModel \<Rightarrow> Some (0, m) | FixedLatencyModel a b c \<Rightarrow> Some (b, m)
     | StochasticLatencyModel f g h k \<Rightarrow> map_option (\<lambda>v. (v, StochasticLatencyModel f g h (Suc k))) (nonneg_llong (g k)))"

definition get_cancel_latency :: "latency_model \<Rightarrow> (int \<times> latency_model) option" where
  "get_cancel_latency m = (case m of ZeroLatencyModel \<Rightarrow> Some (0, m) | FixedLatencyModel a b c \<Rightarrow> Some (c, m)
     | StochasticLatencyModel f g h k \<Rightarrow> map_option (\<lambda>v. (v, StochasticLatencyModel f g h (Suc k))) (nonneg_llong (h k)))"

subsection \<open>Queue models\<close>

datatype queue_model = FrontCancelModel | BackCancelModel | UniformCancelModel

definition update_on_cancels :: "queue_model \<Rightarrow> double \<Rightarrow> double \<Rightarrow> double \<Rightarrow> double" where
  "update_on_cancels qm size_ahead total_size cancels =
     (case qm of FrontCancelModel \<Rightarrow> std_max 0 (size_ahead - cancels)
      | BackCancelModel \<Rightarrow> size_ahead
      | UniformCancelModel \<Rightarrow>
         if total_size \<le> 0 \<or> cancels \<le> 0 then size_ahead
         else std_max 0 (size_ahead - cancels * (size_ahead / total_size)))"

text \<open>The L2 snapshot queue model: one ladder per side, a map from price to size. \<open>now\<close> is \<open>clock_now()\<close>.\<close>

record depth_book =
  db_bids :: "(double, double) umap"
  db_asks :: "(double, double) umap"
  db_last_update :: time_point

record l2_queue_model =
  qm_books :: "(symbol, depth_book) umap"
  qm_max_staleness :: time_point

definition book_of :: "symbol \<Rightarrow> l2_queue_model \<Rightarrow> depth_book" where
  "book_of sy m = (case map_of (qm_books m) sy of Some b \<Rightarrow> b | None \<Rightarrow> \<lparr>db_bids = [], db_asks = [], db_last_update = 0\<rparr>)"

definition depth_ladder :: "(double \<times> double) list \<Rightarrow> (double, double) umap" where
  "depth_ladder ls = fold (\<lambda>(p, q) m. if q > 0 then AList.update p q m else m) ls []"

definition qm_on_snapshot :: "symbol \<Rightarrow> (double \<times> double) list \<Rightarrow> (double \<times> double) list \<Rightarrow> time_point \<Rightarrow> l2_queue_model \<Rightarrow> l2_queue_model" where
  "qm_on_snapshot sy bids asks now m =
     m\<lparr>qm_books := AList.update sy \<lparr>db_bids = depth_ladder bids, db_asks = depth_ladder asks, db_last_update = now\<rparr> (qm_books m)\<rparr>"

definition set_level :: "double \<Rightarrow> double \<Rightarrow> (double, double) umap \<Rightarrow> (double, double) umap" where
  "set_level p q m = (if q > 0 then AList.update p q m else AList.delete p m)"

definition qm_on_update :: "symbol \<Rightarrow> order_side \<Rightarrow> double \<Rightarrow> double \<Rightarrow> time_point \<Rightarrow> l2_queue_model \<Rightarrow> l2_queue_model" where
  "qm_on_update sy sd p q now m =
     (let b = book_of sy m;
          b' = (case sd of Buy \<Rightarrow> b\<lparr>db_bids := set_level p q (db_bids b)\<rparr> | Sell \<Rightarrow> b\<lparr>db_asks := set_level p q (db_asks b)\<rparr>)
      in m\<lparr>qm_books := AList.update sy (b'\<lparr>db_last_update := now\<rparr>) (qm_books m)\<rparr>)"

definition qm_queue_ahead :: "symbol \<Rightarrow> order_side \<Rightarrow> double \<Rightarrow> time_point \<Rightarrow> l2_queue_model \<Rightarrow> double" where
  "qm_queue_ahead sy sd limit_price ts m =
     (case map_of (qm_books m) sy of None \<Rightarrow> 0
      | Some b \<Rightarrow>
         if ts - db_last_update b > qm_max_staleness m then 0
         else case map_of (case sd of Buy \<Rightarrow> db_bids b | Sell \<Rightarrow> db_asks b) limit_price of None \<Rightarrow> 0 | Some q \<Rightarrow> q)"

definition no_queue_ahead :: "symbol \<Rightarrow> order_side \<Rightarrow> double \<Rightarrow> time_point \<Rightarrow> double" where
  "no_queue_ahead sy sd limit_price ts = 0"

subsection \<open>Fill model and instrument rules\<close>

text \<open>\<open>IFillModel\<close>: the fade rate and the fill probability by side and distance.\<close>

record fill_model =
  fm_fade_rate :: double
  fm_probability :: "order_side \<Rightarrow> double \<Rightarrow> double"

definition perfect_fill_model :: fill_model where
  "perfect_fill_model = \<lparr>fm_fade_rate = 0, fm_probability = (\<lambda>sd x. 1)\<rparr>"

definition std_clamp :: "double \<Rightarrow> double \<Rightarrow> double \<Rightarrow> double" where
  "std_clamp v lo hi = (if v < lo then lo else if hi < v then hi else v)"

definition realistic_fill_model :: "(double \<Rightarrow> double) \<Rightarrow> double \<Rightarrow> double \<Rightarrow> double \<Rightarrow> fill_model" where
  "realistic_fill_model expf fade_rate base_fill_prob distance_decay =
     \<lparr>fm_fade_rate = std_clamp fade_rate 0 1,
      fm_probability = (\<lambda>sd x. std_clamp base_fill_prob 0 1 * expf (- distance_decay * \<bar>x\<bar>))\<rparr>"

datatype impact_model = ZeroImpactModel | SquareRootImpactModel double double

definition effective_price :: "impact_model \<Rightarrow> order_side \<Rightarrow> double \<Rightarrow> double \<Rightarrow> double" where
  "effective_price im sd q reference_px =
     (case im of ZeroImpactModel \<Rightarrow> reference_px
      | SquareRootImpactModel k_bps adv \<Rightarrow>
         if \<not> adv > 0 \<or> \<not> q > 0 \<or> \<not> reference_px > 0 then reference_px
         else (let impact_bps = k_bps * fsqrt (q / adv); impact_frac = impact_bps / Fin 10000;
                   sgn = (if sd = Buy then 1 else - 1)
               in reference_px * (1 + sgn * impact_frac)))"

record instrument_spec =
  is_symbol :: symbol
  tick_size :: double
  lot_size :: double
  min_qty :: double
  min_notional :: double
  maker_rate :: double
  taker_rate :: double

definition quantize_price_to_tick :: "double \<Rightarrow> double \<Rightarrow> double" where
  "quantize_price_to_tick price tick = (if tick \<le> 0 then price else fround (price / tick) * tick)"

definition floor_qty_to_lot :: "double \<Rightarrow> double \<Rightarrow> double" where
  "floor_qty_to_lot q lt = (if lt \<le> 0 then q else ffloor (q / lt) * lt)"

definition meets_min_qty :: "double \<Rightarrow> double \<Rightarrow> bool" where
  "meets_min_qty q mq \<longleftrightarrow> mq \<le> 0 \<or> q \<ge> mq - eps12"

definition meets_min_notional :: "double \<Rightarrow> double \<Rightarrow> double \<Rightarrow> bool" where
  "meets_min_notional q price mn \<longleftrightarrow> mn \<le> 0 \<or> q * price \<ge> mn - lit (1 / 10 ^ 9)"

subsection \<open>Order status\<close>

datatype order_status = Pending | Open | Partially_Filled | Filled | Cancelled | Rejected

type_synonym order_tracker = "(order_id, order_status) umap"

definition set_status :: "order_id \<Rightarrow> order_status \<Rightarrow> order_tracker \<Rightarrow> order_tracker" where
  "set_status i st t = AList.update i st t"

definition get_order_status :: "order_id \<Rightarrow> order_tracker \<Rightarrow> order_status" where
  "get_order_status i t = (case map_of t i of Some st \<Rightarrow> st | None \<Rightarrow> Pending)"

definition active_status :: "order_status \<Rightarrow> bool" where
  "active_status st \<longleftrightarrow> st = Pending \<or> st = Open \<or> st = Partially_Filled"

definition get_open_orders :: "order_tracker \<Rightarrow> order_id list" where
  "get_open_orders t = map fst (filter (\<lambda>(i, st). active_status st) t)"

definition is_active :: "order_id \<Rightarrow> order_tracker \<Rightarrow> bool" where
  "is_active i t = active_status (get_order_status i t)"

definition active_count :: "order_tracker \<Rightarrow> nat" where
  "active_count t = length (filter (\<lambda>(i, st). active_status st) t)"

definition tracker_reset :: "order_tracker \<Rightarrow> order_tracker" where
  "tracker_reset t = []"

subsection \<open>Facts\<close>

lemma active_count_open: "active_count t = length (get_open_orders t)"
  by (simp add: active_count_def get_open_orders_def)

lemma set_get_status [simp]: "get_order_status j (set_status i st t) = (if j = i then st else get_order_status j t)"
  by (simp add: set_status_def get_order_status_def)

lemma set_level_lookup: "map_of (set_level p q m) x = (if x = p then (if q > 0 then Some q else None) else map_of m x)"
  by (simp add: set_level_def)

lemma nonneg_llong_nonneg: "nonneg_llong x = Some v \<Longrightarrow> 0 \<le> v"
  by (cases x) (auto simp: nonneg_llong_def std_max_def double_defs split: if_splits)

lemma update_on_cancels_bounds:
  assumes "isfinite size_ahead" "0 \<le> size_ahead" "ieee size_ahead" "isfinite cancels" "0 \<le> cancels"
  shows "0 \<le> update_on_cancels FrontCancelModel size_ahead total_size cancels \<and>
    update_on_cancels FrontCancelModel size_ahead total_size cancels \<le> update_on_cancels BackCancelModel size_ahead total_size cancels"
proof -
  have "size_ahead - cancels \<le> size_ahead" by (rule dsub_le) (use assms in simp_all)
  then show ?thesis using assms dle_refl [of 0] dless_imp_le by (auto simp: update_on_cancels_def std_max_def zero_double_def)
qed

end
