(* ===== verification/Tape_Adapter.thy ===== *)
theory Tape_Adapter
  imports Exec_Models
begin

text \<open>
  The shadow-mode adapter, \<open>src/execution/trade_tape_shadow_adapter.h\<close>: open orders are matched against the prints of the real
  tape. The latency a call draws from the latency model, in microseconds, is an argument of that call
  (\<open>None\<close> without a model). The loop over the open orders is \<open>tape_loop\<close>; one order's turn is \<open>drain_queue\<close> and then
  \<open>tape_fill\<close>.
\<close>

record open_order =
  oo_id :: order_id
  oo_symbol :: symbol
  oo_side :: order_side
  oo_type :: order_type
  oo_limit :: double
  oo_qty :: double
  oo_queue_ahead :: double
  oo_initial_queue :: double
  oo_queue_consumed :: double
  oo_counted_drain :: bool
  oo_submit_ts :: time_point
  oo_strategy :: string
  oo_opener :: order_id

record queue_stats =
  submitted_with_queue :: u64
  filled_after_drain :: u64
  blocked_at_eos :: u64

record tape_adapter =
  ta_stats :: queue_stats
  ta_open :: "open_order list"
  ta_fills :: "fill_event list"
  ta_next_fill_id :: u64
  ta_fee :: "fee_model option"
  ta_queue :: "l2_queue_model option"
  ta_cancels :: "(order_id, time_point) umap"
  ta_time :: time_point

definition mk_tape_adapter :: "fee_model option \<Rightarrow> l2_queue_model option \<Rightarrow> tape_adapter" where
  "mk_tape_adapter fm qm = \<lparr>ta_stats = \<lparr>submitted_with_queue = 0, filled_after_drain = 0, blocked_at_eos = 0\<rparr>, ta_open = [],
     ta_fills = [], ta_next_fill_id = 0, ta_fee = fm, ta_queue = qm, ta_cancels = [], ta_time = 0\<rparr>"

definition micros :: "int \<Rightarrow> time_point" where "micros us = us * 1000"

definition tape_submit_order :: "order_event \<Rightarrow> int option \<Rightarrow> tape_adapter \<Rightarrow> tape_adapter" where
  "tape_submit_order o1 lat a =
     (let arrival = oe_earliest_eligible_ts o1 + (case lat of Some us \<Rightarrow> micros us | None \<Rightarrow> 0);
          queued = (case ta_queue a of Some qm \<Rightarrow> if oe_order_type o1 = OT_Limit
              then qm_queue_ahead (oe_symbol o1) (oe_side o1) (oe_price o1) arrival qm else 0 | None \<Rightarrow> 0);
          oo = \<lparr>oo_id = oe_order_id o1, oo_symbol = oe_symbol o1, oo_side = oe_side o1, oo_type = oe_order_type o1,
                oo_limit = oe_price o1, oo_qty = oe_quantity o1, oo_queue_ahead = queued, oo_initial_queue = queued,
                oo_queue_consumed = 0, oo_counted_drain = False, oo_submit_ts = arrival,
                oo_strategy = oe_strategy_name o1, oo_opener = oe_opener_order_id o1\<rparr>
      in a\<lparr>ta_open := ta_open a @ [oo],
           ta_stats := (if queued > 0 then (ta_stats a)\<lparr>submitted_with_queue := submitted_with_queue (ta_stats a) + 1\<rparr>
                        else ta_stats a)\<rparr>)"

definition tape_poll_fills :: "fill_event list \<Rightarrow> tape_adapter \<Rightarrow> bool \<times> fill_event list \<times> tape_adapter" where
  "tape_poll_fills out a = (if ta_fills a = [] then (False, out, a) else (True, out @ ta_fills a, a\<lparr>ta_fills := []\<rparr>))"

definition drop_order :: "order_id \<Rightarrow> open_order list \<Rightarrow> open_order list" where
  "drop_order i os = filter (\<lambda>oo. oo_id oo \<noteq> i) os"

definition tape_cancel_order :: "order_id \<Rightarrow> int option \<Rightarrow> tape_adapter \<Rightarrow> bool \<times> tape_adapter" where
  "tape_cancel_order i lat a =
     (let found = list_ex (\<lambda>oo. oo_id oo = i) (ta_open a) in
      case lat of
        Some us \<Rightarrow> if found then (True, a\<lparr>ta_cancels := AList.update i (ta_time a + micros us) (ta_cancels a)\<rparr>) else (False, a)
      | None \<Rightarrow> (found, a\<lparr>ta_open := drop_order i (ta_open a)\<rparr>))"

definition tape_advance_time :: "time_point \<Rightarrow> tape_adapter \<Rightarrow> tape_adapter" where
  "tape_advance_time ts a =
     a\<lparr>ta_time := ts,
       ta_open := fold (\<lambda>(i, t) os. if t \<le> ts then drop_order i os else os) (ta_cancels a) (ta_open a),
       ta_cancels := filter (\<lambda>(i, t). \<not> t \<le> ts) (ta_cancels a)\<rparr>"

definition tape_modify_order :: "order_id \<Rightarrow> double \<Rightarrow> double \<Rightarrow> tape_adapter \<Rightarrow> bool \<times> tape_adapter" where
  "tape_modify_order i px q a =
     (if list_ex (\<lambda>oo. oo_id oo = i) (ta_open a)
      then (True, a\<lparr>ta_open := update_first (\<lambda>oo. oo_id oo = i) (\<lambda>oo. oo\<lparr>oo_limit := px, oo_qty := q\<rparr>) (ta_open a)\<rparr>)
      else (False, a))"

subsection \<open>Prints\<close>

definition tape_crosses :: "double \<Rightarrow> open_order \<Rightarrow> bool" where
  "tape_crosses px oo \<longleftrightarrow> oo_type oo = OT_Market \<or> oo_side oo = Buy \<and> px \<le> oo_limit oo \<or> oo_side oo = Sell \<and> px \<ge> oo_limit oo"

text \<open>Whether the order still waits, the print's quantity left, the order, and whether its queue drained just now.\<close>

definition drain_queue :: "double \<Rightarrow> open_order \<Rightarrow> bool \<times> double \<times> open_order \<times> bool" where
  "drain_queue tape oo =
     (if oo_queue_ahead oo > 0 then
        (let eaten = std_min (oo_queue_ahead oo) tape;
             o1 = oo\<lparr>oo_queue_ahead := oo_queue_ahead oo - eaten, oo_queue_consumed := oo_queue_consumed oo + eaten\<rparr>;
             tape1 = tape - eaten
         in if oo_queue_ahead o1 > eps12 \<or> tape1 \<le> 0 then (True, tape1, o1, False)
            else if oo_initial_queue o1 > 0 \<and> \<not> oo_counted_drain o1 then (False, tape1, o1\<lparr>oo_counted_drain := True\<rparr>, True)
            else (False, tape1, o1, False))
      else (False, tape, oo, False))"

definition tape_fill :: "double \<Rightarrow> time_point \<Rightarrow> fee_model option \<Rightarrow> u64 \<Rightarrow> double \<Rightarrow> open_order \<Rightarrow> fill_event \<times> double \<times> open_order" where
  "tape_fill px ts fm fid tape oo =
     (let q = std_min (oo_qty oo) tape; o1 = oo\<lparr>oo_qty := oo_qty oo - q\<rparr>;
          f = (mk_fill_event ts (oo_symbol oo) (oo_id oo) (oo_side oo) q px (commission_of fm (oo_side oo) q px True)
                 (std_max 0 (oo_qty o1)) fid (oo_strategy oo) (oo_opener oo))\<lparr>fe_source := FS_Exchange\<rparr>
      in (f, tape - q, o1))"

record tape_result =
  tr_open :: "open_order list"
  tr_fills :: "fill_event list"
  tr_next_id :: u64
  tr_drained :: u64

definition keep_order :: "open_order \<Rightarrow> tape_result \<Rightarrow> tape_result" where
  "keep_order oo r = r\<lparr>tr_open := oo # tr_open r\<rparr>"

fun tape_loop :: "symbol \<Rightarrow> double \<Rightarrow> time_point \<Rightarrow> fee_model option \<Rightarrow> u64 \<Rightarrow> double \<Rightarrow> open_order list \<Rightarrow> tape_result" where
  "tape_loop sy px ts fm next_id tape [] = \<lparr>tr_open = [], tr_fills = [], tr_next_id = next_id, tr_drained = 0\<rparr>"
| "tape_loop sy px ts fm next_id tape (oo # os) =
     (if \<not> tape > 0 then \<lparr>tr_open = oo # os, tr_fills = [], tr_next_id = next_id, tr_drained = 0\<rparr>
      else if oo_symbol oo \<noteq> sy \<or> ts < oo_submit_ts oo \<or> \<not> tape_crosses px oo
      then keep_order oo (tape_loop sy px ts fm next_id tape os)
      else case drain_queue tape oo of
        (True, tape1, o1, dr) \<Rightarrow> keep_order o1 (tape_loop sy px ts fm next_id tape1 os)
      | (False, tape1, o1, dr) \<Rightarrow>
          (let (f, tape2, o2) = tape_fill px ts fm (next_id + 1) tape1 o1;
               r = tape_loop sy px ts fm (next_id + 1) tape2 os;
               r1 = (if oo_qty o2 \<le> eps12 then r else keep_order o2 r)
           in r1\<lparr>tr_fills := f # tr_fills r1, tr_drained := tr_drained r1 + (if dr then 1 else 0)\<rparr>))"

definition tape_on_trade :: "symbol \<Rightarrow> double \<Rightarrow> double \<Rightarrow> time_point \<Rightarrow> tape_adapter \<Rightarrow> tape_adapter" where
  "tape_on_trade sy px q ts a =
     (if ta_open a = [] \<or> \<not> q > 0 \<or> \<not> px > 0 then a
      else let r = tape_loop sy px ts (ta_fee a) (ta_next_fill_id a) q (ta_open a) in
        a\<lparr>ta_open := tr_open r, ta_fills := ta_fills a @ tr_fills r, ta_next_fill_id := tr_next_id r,
          ta_stats := (ta_stats a)\<lparr>filled_after_drain := filled_after_drain (ta_stats a) + tr_drained r\<rparr>\<rparr>)"

definition tape_on_l2_snapshot :: "symbol \<Rightarrow> (double \<times> double) list \<Rightarrow> (double \<times> double) list \<Rightarrow> time_point \<Rightarrow> tape_adapter \<Rightarrow> tape_adapter" where
  "tape_on_l2_snapshot sy bids asks now a = a\<lparr>ta_queue := map_option (qm_on_snapshot sy bids asks now) (ta_queue a)\<rparr>"

definition tape_on_l2_update :: "symbol \<Rightarrow> order_side \<Rightarrow> double \<Rightarrow> double \<Rightarrow> time_point \<Rightarrow> tape_adapter \<Rightarrow> tape_adapter" where
  "tape_on_l2_update sy sd p q now a = a\<lparr>ta_queue := map_option (qm_on_update sy sd p q now) (ta_queue a)\<rparr>"

definition get_queue_stats :: "tape_adapter \<Rightarrow> queue_stats" where
  "get_queue_stats a = (ta_stats a)\<lparr>blocked_at_eos := blocked_at_eos (ta_stats a) +
     of_nat (length (filter (\<lambda>oo. oo_initial_queue oo > 0 \<and> oo_queue_ahead oo > 0) (ta_open a)))\<rparr>"

subsection \<open>Fills respect the order\<close>

lemma drain_queue_frame:
  "drain_queue tape oo = (b, tape1, o1, dr) \<Longrightarrow> oo_id o1 = oo_id oo \<and> oo_symbol o1 = oo_symbol oo \<and> oo_side o1 = oo_side oo \<and>
     oo_type o1 = oo_type oo \<and> oo_limit o1 = oo_limit oo \<and> oo_qty o1 = oo_qty oo \<and> oo_submit_ts o1 = oo_submit_ts oo"
  by (auto simp: drain_queue_def Let_def split: if_splits)

definition fill_for :: "symbol \<Rightarrow> double \<Rightarrow> time_point \<Rightarrow> open_order \<Rightarrow> fill_event \<Rightarrow> bool" where
  "fill_for sy px ts oo f \<longleftrightarrow> fe_order_id f = oo_id oo \<and> fe_symbol f = sy \<and> fe_side f = oo_side oo \<and> oo_symbol oo = sy \<and>
     fe_fill_price f = px \<and> timestamp f = ts \<and> oo_submit_ts oo \<le> ts \<and> tape_crosses px oo \<and>
     (\<exists>t. fe_filled_quantity f = std_min (oo_qty oo) t)"

lemma tape_loop_fill_for:
  "f \<in> set (tr_fills (tape_loop sy px ts fm next_id tape os)) \<Longrightarrow> \<exists>oo\<in>set os. fill_for sy px ts oo f"
proof (induction os arbitrary: next_id tape)
  case Nil
  then show ?case by simp
next
  case (Cons oo os)
  consider (stop) "\<not> tape > 0" | (skip) "tape > 0" "oo_symbol oo \<noteq> sy \<or> ts < oo_submit_ts oo \<or> \<not> tape_crosses px oo"
    | (turn) "tape > 0" "oo_symbol oo = sy" "oo_submit_ts oo \<le> ts" "tape_crosses px oo" by force
  then show ?case
  proof cases
    case stop
    then show ?thesis using Cons.prems by simp
  next
    case skip
    then have "f \<in> set (tr_fills (tape_loop sy px ts fm next_id tape os))" using Cons.prems by (simp add: keep_order_def)
    from Cons.IH [OF this] show ?thesis by auto
  next
    case turn
    obtain b tape1 o1 dr where d: "drain_queue tape oo = (b, tape1, o1, dr)" by (metis prod_cases4)
    note fr = drain_queue_frame [OF d]
    show ?thesis
    proof (cases b)
      case True
      then have "f \<in> set (tr_fills (tape_loop sy px ts fm next_id tape1 os))"
        using Cons.prems turn d by (simp add: keep_order_def)
      from Cons.IH [OF this] show ?thesis by auto
    next
      case False
      obtain g tape2 o2 where t: "tape_fill px ts fm (next_id + 1) tape1 o1 = (g, tape2, o2)" by (metis prod_cases3)
      have "f = g \<or> f \<in> set (tr_fills (tape_loop sy px ts fm (next_id + 1) tape2 os))"
        using Cons.prems turn d False t by (auto simp: keep_order_def Let_def split: if_splits)
      then show ?thesis
      proof
        assume "f = g"
        then have "fill_for sy px ts oo f" using t turn fr
          by (auto simp: fill_for_def tape_fill_def mk_fill_event_def Let_def)
        then show ?thesis by simp
      next
        assume "f \<in> set (tr_fills (tape_loop sy px ts fm (next_id + 1) tape2 os))"
        from Cons.IH [OF this] show ?thesis by auto
      qed
    qed
  qed
qed

text \<open>C28: A shadow fill is one the tape allowed: it belongs to an order that was open and had arrived before the print,
  it is priced at the print, and the print does not cross the order's limit the wrong way; no fill
  exceeds what the order has left.\<close>

theorem tape_fills_respect_limits:
  assumes "f \<in> set (ta_fills (tape_on_trade sy px q ts a))" "f \<notin> set (ta_fills a)"
  shows "\<exists>oo\<in>set (ta_open a). fe_order_id f = oo_id oo \<and> fe_side f = oo_side oo \<and> fe_fill_price f = px \<and>
    oo_submit_ts oo \<le> ts \<and> (oo_type oo = OT_Market \<or> (if oo_side oo = Buy then px \<le> oo_limit oo else oo_limit oo \<le> px)) \<and>
    \<not> fe_filled_quantity f > oo_qty oo"
proof -
  have "f \<in> set (tr_fills (tape_loop sy px ts (ta_fee a) (ta_next_fill_id a) q (ta_open a)))"
    using assms by (auto simp: tape_on_trade_def Let_def split: if_splits)
  from tape_loop_fill_for [OF this] obtain oo t where o: "oo \<in> set (ta_open a)" "fill_for sy px ts oo f"
      "fe_filled_quantity f = std_min (oo_qty oo) t" by (auto simp: fill_for_def)
  have "\<not> x < std_min x y" for x y :: double by (cases x; cases y) (auto simp: std_min_def double_defs)
  then show ?thesis using o by (intro bexI [of _ oo]) (auto simp: fill_for_def tape_crosses_def)
qed

subsection \<open>A print is spent once\<close>

text \<open>Amounts in whole units, for which the subtractions of the loop are exact.\<close>

definition whole_order :: "open_order \<Rightarrow> bool" where
  "whole_order oo \<longleftrightarrow> (\<exists>a b. oo_qty oo = dint a \<and> 0 \<le> a \<and> a \<le> 2 ^ 53 \<and> oo_queue_ahead oo = dint b \<and> 0 \<le> b \<and> b \<le> 2 ^ 53)"

lemma drain_queue_whole:
  assumes "whole_order oo" "0 \<le> n" "n \<le> 2 ^ 53" "drain_queue (dint n) oo = (b, tape1, o1, dr)"
  shows "\<exists>m. tape1 = dint m \<and> 0 \<le> m \<and> m \<le> n"
proof -
  obtain k where k: "oo_queue_ahead oo = dint k" "0 \<le> k" using assms(1) by (auto simp: whole_order_def)
  have "dint n - dint (min k n) = dint (n - min k n)" using assms(2,3) k(2) by (intro dint_ops) linarith
  then show ?thesis using assms(2-4) k
    by (intro exI [of _ "if k > 0 then n - min k n else n"])
       (auto simp: drain_queue_def Let_def dint_min_max dint_zero simp del: dint_simps(8,9) split: if_splits)
qed

lemma tape_fill_whole:
  assumes "whole_order oo" "0 \<le> n" "n \<le> 2 ^ 53" "tape_fill px ts fm fid (dint n) oo = (f, tape2, o2)"
  shows "\<exists>k. fe_filled_quantity f = dint k \<and> tape2 = dint (n - k) \<and> 0 \<le> k \<and> k \<le> n"
proof -
  obtain a where a: "oo_qty oo = dint a" "0 \<le> a" using assms(1) by (auto simp: whole_order_def)
  have "dint n - dint (min a n) = dint (n - min a n)" using assms(2,3) a(2) by (intro dint_ops) linarith
  then show ?thesis using assms(2,4) a
    by (intro exI [of _ "min a n"]) (auto simp: tape_fill_def Let_def dint_min_max mk_fill_event_def)
qed

lemma tape_loop_whole:
  assumes "list_all whole_order os" "0 \<le> n" "n \<le> 2 ^ 53"
  shows "\<exists>ks. map fe_filled_quantity (tr_fills (tape_loop sy px ts fm next_id (dint n) os)) = map dint ks \<and>
    list_all (\<lambda>k. 0 \<le> k) ks \<and> sum_list ks \<le> n"
  using assms
proof (induction os arbitrary: next_id n)
  case Nil
  then show ?case by simp
next
  case (Cons oo os)
  have os: "list_all whole_order os" and oo: "whole_order oo" using Cons.prems by simp_all
  obtain b tape1 o1 dr where d: "drain_queue (dint n) oo = (b, tape1, o1, dr)" by (metis prod_cases4)
  obtain m where m: "tape1 = dint m" "0 \<le> m" "m \<le> n" using drain_queue_whole [OF oo Cons.prems(2,3) d] by auto
  obtain f tape2 o2 where t: "tape_fill px ts fm (next_id + 1) (dint m) o1 = (f, tape2, o2)" by (metis prod_cases3)
  have m53: "m \<le> 2 ^ 53" using m(3) Cons.prems(3) by linarith
  have w1: "oo_qty o1 = oo_qty oo" using drain_queue_frame [OF d] by simp
  obtain k where k: "fe_filled_quantity f = dint k" "tape2 = dint (m - k)" "0 \<le> k" "k \<le> m"
    using tape_fill_whole [of "oo\<lparr>oo_qty := oo_qty oo\<rparr>" m px ts fm "next_id + 1"] oo m(2) m53 t w1
    by (fastforce simp: tape_fill_def Let_def mk_fill_event_def)
  have turn: "\<exists>ks. map fe_filled_quantity (tr_fills (tape_loop sy px ts fm i (dint j) os)) = map dint ks \<and>
      list_all (\<lambda>k. 0 \<le> k) ks \<and> sum_list ks \<le> j" if "0 \<le> j" "j \<le> n" for i j
    using that Cons.prems(3) by (intro Cons.IH [OF os]) linarith+
  obtain ks where ks: "map fe_filled_quantity (tr_fills (tape_loop sy px ts fm (next_id + 1) (dint (m - k)) os)) = map dint ks"
      "list_all (\<lambda>k. 0 \<le> k) ks" "sum_list ks \<le> m - k" using turn [of "m - k" "next_id + 1"] k m(3) by auto
  show ?case
  proof (cases "dint n > 0 \<and> oo_symbol oo = sy \<and> \<not> ts < oo_submit_ts oo \<and> tape_crosses px oo \<and> \<not> b")
    case True
    then show ?thesis using d m t k ks by (intro exI [of _ "k # ks"]) (simp add: keep_order_def Let_def)
  next
    case False
    then show ?thesis using turn [of n next_id] turn [of m next_id] Cons.prems(2) d m
      by (cases b) (auto simp: keep_order_def intro: exI [of _ "[]"])
  qed
qed

text \<open>One print is not given away twice: in whole units, the quantities filled against a print add up to at most the
  printed quantity, however many open orders it crosses, and none of them is negative.\<close>

theorem tape_print_spent_once:
  assumes "list_all whole_order (ta_open a)" "0 \<le> n" "n \<le> 2 ^ 53"
  shows "\<exists>fs ks. ta_fills (tape_on_trade sy px (dint n) ts a) = ta_fills a @ fs \<and> map fe_filled_quantity fs = map dint ks \<and>
    list_all (\<lambda>k. 0 \<le> k) ks \<and> sum_list ks \<le> n"
proof (cases "ta_open a = [] \<or> \<not> dint n > 0 \<or> \<not> px > 0")
  case True
  then show ?thesis using assms(2) by (intro exI [of _ "[]"]) (auto simp: tape_on_trade_def)
next
  case False
  from tape_loop_whole [OF assms, of sy px ts "ta_fee a" "ta_next_fill_id a"] False show ?thesis
    by (auto simp: tape_on_trade_def Let_def)
qed

subsection \<open>Examples\<close>

definition tape_order_demo :: open_order where
  "tape_order_demo = \<lparr>oo_id = 4, oo_symbol = ''BTCUSDT'', oo_side = Buy, oo_type = OT_Limit, oo_limit = dint 100, oo_qty = dint 5,
     oo_queue_ahead = dint 2, oo_initial_queue = dint 2, oo_queue_consumed = 0, oo_counted_drain = False, oo_submit_ts = 10,
     oo_strategy = ''sma'', oo_opener = 0\<rparr>"

definition tape_demo :: tape_adapter where
  "tape_demo = (mk_tape_adapter None None)\<lparr>ta_open := [tape_order_demo, tape_order_demo\<lparr>oo_id := 5\<rparr>]\<rparr>"

lemma tape_demo_fills: "map fe_filled_quantity (ta_fills (tape_on_trade ''BTCUSDT'' (dint 99) (dint 4) 20 tape_demo)) = [dint 2]"
  by (simp add: tape_demo_def tape_order_demo_def mk_tape_adapter_def tape_on_trade_def Let_def dint_zero tape_crosses_def
      drain_queue_def dint_min_max dint_ops dint_eps dint_eps(2) [of 0, simplified] tape_fill_def keep_order_def mk_fill_event_def)

theorem tape_fills_respect_limits_witness:
  "\<exists>f. ta_fills (tape_on_trade ''BTCUSDT'' (dint 99) (dint 4) 20 tape_demo) = [f] \<and> fe_fill_price f = dint 99"
proof -
  obtain f where f: "ta_fills (tape_on_trade ''BTCUSDT'' (dint 99) (dint 4) 20 tape_demo) = [f]" using tape_demo_fills by auto
  then have "fe_fill_price f = dint 99"
    using tape_fills_respect_limits [of f "''BTCUSDT''" "dint 99" "dint 4" 20 tape_demo]
    by (simp add: tape_demo_def mk_tape_adapter_def) blast
  with f show ?thesis by simp
qed

theorem tape_print_spent_once_witness:
  "list_all whole_order (ta_open tape_demo) \<and>
   (\<exists>ks. map fe_filled_quantity (ta_fills (tape_on_trade ''BTCUSDT'' (dint 99) (dint 4) 20 tape_demo)) = map dint ks \<and> sum_list ks \<le> 4)"
proof -
  have w: "list_all whole_order (ta_open tape_demo)"
    by (simp add: tape_demo_def tape_order_demo_def mk_tape_adapter_def whole_order_def)
  from tape_print_spent_once [OF w, of 4 "''BTCUSDT''" "dint 99" 20] have
    "\<exists>ks. map fe_filled_quantity (ta_fills (tape_on_trade ''BTCUSDT'' (dint 99) (dint 4) 20 tape_demo)) = map dint ks \<and> sum_list ks \<le> 4"
    by (auto simp: tape_demo_def mk_tape_adapter_def)
  with w show ?thesis by simp
qed

end
