(* ===== verification/Local_Adapter.thy ===== *)
theory Local_Adapter
  imports Tape_Adapter Orderbook_Spec
begin

text \<open>
  The paper-trading adapter on the local book, \<open>LocalBookAdapter\<close> of \<open>src/execution/execution_adapter.h\<close>: an order event becomes a
  book order, the trades it causes become fill events, and what rests is tracked so that later crossings and bar
  traversals surface as maker fills.

  The book is the one of theory \<open>Orderbook\<close>; a tracked order is a reference into its store, as the code holds a
  \<open>shared_ptr\<close> to the live order. Arguments of \<open>submit_order\<close>: the uniform draw of the fill model (\<open>draw\<close>) and the steady clock
  (\<open>now\<close>). A conversion from \<open>double\<close> outside the range of the integer type is undefined and ends in \<open>Undefined_Conversion\<close>;
  the exception of the book is passed on. The debug print of fills is left out.
\<close>

datatype adapter_error = Undefined_Conversion | Book_Exception book_error

record resting_info =
  ri_order :: oref
  ri_symbol :: symbol
  ri_side :: order_side

record local_adapter =
  la_book :: orderbook
  la_fee :: "fee_model option"
  la_fill_model :: "fill_model option"
  la_impact :: "impact_model option"
  la_fills :: "fill_event list"
  la_mid :: double
  la_aggression :: double
  la_qty_scale :: double
  la_next_fill_id :: u64
  la_resting :: "(order_id, resting_info) umap"
  la_l2_seeded :: bool
  la_walked :: bool
  la_cancels :: "(order_id, time_point) umap"
  la_time :: time_point

definition mk_local_adapter :: "orderbook \<Rightarrow> fee_model option \<Rightarrow> fill_model option \<Rightarrow> impact_model option \<Rightarrow> double \<Rightarrow> double \<Rightarrow> bool
    \<Rightarrow> local_adapter" where
  "mk_local_adapter b fee fm im aggression scale walked =
     \<lparr>la_book = b, la_fee = fee, la_fill_model = fm, la_impact = im, la_fills = [], la_mid = 0, la_aggression = aggression,
      la_qty_scale = scale, la_next_fill_id = 1, la_resting = [], la_l2_seeded = False, la_walked = walked, la_cancels = [],
      la_time = 0\<rparr>"

definition la_set_mid_price :: "double \<Rightarrow> local_adapter \<Rightarrow> local_adapter" where
  "la_set_mid_price p a = a\<lparr>la_mid := p\<rparr>"

definition la_set_l2_seeded :: "bool \<Rightarrow> local_adapter \<Rightarrow> local_adapter" where
  "la_set_l2_seeded s a = a\<lparr>la_l2_seeded := s\<rparr>"

subsection \<open>Walking the book\<close>

fun walk_levels :: "lvl_info list \<Rightarrow> double \<Rightarrow> double \<Rightarrow> double \<Rightarrow> double \<times> double \<times> double" where
  "walk_levels [] remaining cost taken = (remaining, cost, taken)"
| "walk_levels (l # ls) remaining cost taken =
     (if remaining \<le> 0 then (remaining, cost, taken)
      else let tk = std_min remaining (double_of_u64 (li_quantity l))
           in walk_levels ls (remaining - tk) (cost + tk * price_to_double (li_price l)) (taken + tk))"

definition walked_book_vwap :: "order_side \<Rightarrow> double \<Rightarrow> local_adapter \<Rightarrow> double" where
  "walked_book_vwap sd q a =
     (let infos = get_order_infos (la_book a);
          (remaining, cost, taken) = walk_levels (if sd = Buy then infos_asks infos else infos_bids infos) (q * la_qty_scale a) 0 0
      in if remaining > 0 \<or> taken \<le> 0 then 0 else cost / taken)"

subsection \<open>Fills\<close>

definition scaled :: "quantity \<Rightarrow> local_adapter \<Rightarrow> double" where
  "scaled q a = double_of_u64 q / la_qty_scale a"

definition left_over :: "oref \<Rightarrow> local_adapter \<Rightarrow> double" where
  "left_over n a = scaled (remaining_quantity (ob_store (la_book a) n)) a"

definition emit_fill :: "fill_event \<Rightarrow> local_adapter \<Rightarrow> local_adapter" where
  "emit_fill f a = a\<lparr>la_fills := la_fills a @ [f], la_next_fill_id := la_next_fill_id a + 1\<rparr>"

definition record_resting_fill :: "time_point \<Rightarrow> trade_info \<Rightarrow> local_adapter \<Rightarrow> local_adapter" where
  "record_resting_fill ts ti a =
     (case map_of (la_resting a) (ti_order_id ti) of None \<Rightarrow> a
      | Some ri \<Rightarrow>
         (let q = scaled (ti_quantity ti) a; px = price_to_double (ti_price ti);
              f = mk_fill_event ts (ri_symbol ri) (ti_order_id ti) (ri_side ri) q px (commission_of (la_fee a) (ri_side ri) q px False)
                    (left_over (ri_order ri) a) (la_next_fill_id a) [] 0;
              a1 = emit_fill f a
          in if is_filled (ob_store (la_book a) (ri_order ri))
             then a1\<lparr>la_resting := AList.delete (ti_order_id ti) (la_resting a1)\<rparr> else a1))"

definition taker :: "order_event \<Rightarrow> double \<Rightarrow> bool" where
  "taker o1 mid \<longleftrightarrow> oe_order_type o1 = OT_Market \<or> oe_side o1 = Buy \<and> mid > 0 \<and> oe_price o1 \<ge> mid \<or>
     oe_side o1 = Sell \<and> mid > 0 \<and> oe_price o1 \<le> mid"

definition our_fill :: "order_event \<Rightarrow> oref \<Rightarrow> int \<Rightarrow> double \<Rightarrow> trade_info \<Rightarrow> trade_info \<Rightarrow> local_adapter \<Rightarrow> local_adapter" where
  "our_fill o1 n now fade our counter a =
     (let px = price_to_double (ti_price counter); q0 = scaled (ti_quantity our) a;
          q = (if fade > 0 then q0 * (1 - fade) else q0)
      in if fade > 0 \<and> q \<le> 0 then a
         else emit_fill ((mk_fill_event (oe_earliest_eligible_ts o1) (oe_symbol o1) (oe_order_id o1) (oe_side o1) q px
                (commission_of (la_fee a) (oe_side o1) q px (taker o1 (la_mid a))) (left_over n a) (la_next_fill_id a) [] 0)
                \<lparr>recv_ns := recv_ns o1, latency_ns := (if recv_ns o1 > 0 then now - recv_ns o1 else 0)\<rparr>) a)"

definition submit_trade :: "order_event \<Rightarrow> oref \<Rightarrow> int \<Rightarrow> double \<Rightarrow> trade \<Rightarrow> local_adapter \<Rightarrow> local_adapter" where
  "submit_trade o1 n now fade t a =
     (let we_are_bid = (ti_order_id (bid_trade t) = oe_order_id o1);
          our = (if we_are_bid then bid_trade t else ask_trade t);
          counter = (if we_are_bid then ask_trade t else bid_trade t);
          a1 = (if ti_order_id counter \<noteq> oe_order_id o1 then record_resting_fill (oe_earliest_eligible_ts o1) counter a else a)
      in if ti_order_id our = oe_order_id o1 then our_fill o1 n now fade our counter a1 else a1)"

subsection \<open>Submission\<close>

definition book_type :: "time_in_force \<Rightarrow> ob_order_type" where
  "book_type tif = (case tif of TIF_FOK \<Rightarrow> Fill_Or_Kill | TIF_IOC \<Rightarrow> Immediate_Or_Cancel | _ \<Rightarrow> Good_Till_Cancel)"

definition book_side :: "order_side \<Rightarrow> side" where
  "book_side sd = (case sd of Buy \<Rightarrow> Side_Buy | Sell \<Rightarrow> Side_Sell)"

definition market_reference :: "order_event \<Rightarrow> local_adapter \<Rightarrow> double" where
  "market_reference o1 a =
     (let ref = (if la_mid a > 0 then la_mid a else oe_price o1);
          vwap = (if la_walked a \<and> la_l2_seeded a then walked_book_vwap (oe_side o1) (oe_quantity o1) a else 0)
      in if vwap > 0 then vwap
         else case la_impact a of Some im \<Rightarrow> effective_price im (oe_side o1) (oe_quantity o1) ref | None \<Rightarrow> ref)"

definition submit_price :: "order_event \<Rightarrow> local_adapter \<Rightarrow> price option" where
  "submit_price o1 a =
     (if oe_order_type o1 = OT_Market
      then price_from_double (market_reference o1 a * (if oe_side o1 = Buy then la_aggression a else Fin 2 - la_aggression a))
      else price_from_double (oe_price o1))"

definition unlucky :: "order_event \<Rightarrow> double \<Rightarrow> local_adapter \<Rightarrow> bool" where
  "unlucky o1 draw a = (case la_fill_model a of None \<Rightarrow> False
     | Some fm \<Rightarrow> oe_order_type o1 = OT_Limit \<and> la_mid a > 0 \<and>
        draw > fm_probability fm (oe_side o1) (\<bar>oe_price o1 - la_mid a\<bar> / la_mid a))"

definition la_submit_order :: "order_event \<Rightarrow> double \<Rightarrow> int \<Rightarrow> local_adapter \<Rightarrow> adapter_error + local_adapter" where
  "la_submit_order o1 draw now a =
     (if oe_order_type o1 = OT_Stop \<or> oe_order_type o1 = OT_Stop_Limit \<or> unlucky o1 draw a then Inr a
      else case (submit_price o1 a, u64_of_double (fround (oe_quantity o1 * la_qty_scale a))) of
        (Some p, Some q) \<Rightarrow>
          (let (n, b) = create_order (mk_order (book_type (oe_tif o1)) (oe_order_id o1) (book_side (oe_side o1)) p q) (la_book a)
           in case add_order n b of Inl e \<Rightarrow> Inl (Book_Exception e)
              | Inr (b', ts) \<Rightarrow>
                 (let a1 = a\<lparr>la_book := b'\<rparr>;
                      a2 = (if book_type (oe_tif o1) = Good_Till_Cancel \<and> remaining_quantity (ob_store b' n) > 0
                            then a1\<lparr>la_resting := AList.update (oe_order_id o1)
                              \<lparr>ri_order = n, ri_symbol = oe_symbol o1, ri_side = oe_side o1\<rparr> (la_resting a1)\<rparr> else a1);
                      fade = (case la_fill_model a of Some fm \<Rightarrow> fm_fade_rate fm | None \<Rightarrow> 0)
                  in Inr (fold (submit_trade o1 n now fade) ts a2)))
      | _ \<Rightarrow> Inl Undefined_Conversion)"

definition la_poll_fills :: "fill_event list \<Rightarrow> local_adapter \<Rightarrow> bool \<times> fill_event list \<times> local_adapter" where
  "la_poll_fills out a = (if la_fills a = [] then (False, out, a) else (True, out @ la_fills a, a\<lparr>la_fills := []\<rparr>))"

definition drop_resting :: "order_id \<Rightarrow> local_adapter \<Rightarrow> local_adapter" where
  "drop_resting i a = a\<lparr>la_book := cancel_order i (la_book a), la_resting := AList.delete i (la_resting a)\<rparr>"

definition la_cancel_order :: "order_id \<Rightarrow> int option \<Rightarrow> local_adapter \<Rightarrow> bool \<times> local_adapter" where
  "la_cancel_order i lat a =
     (case lat of Some us \<Rightarrow> (True, a\<lparr>la_cancels := AList.update i (la_time a + micros us) (la_cancels a)\<rparr>)
      | None \<Rightarrow> (True, drop_resting i a))"

definition la_modify_order :: "order_id \<Rightarrow> double \<Rightarrow> double \<Rightarrow> local_adapter \<Rightarrow> (bool \<times> local_adapter) option" where
  "la_modify_order i px q a =
     (case (price_from_double px, u64_of_double (fround (q * la_qty_scale a))) of
        (Some p, Some bq) \<Rightarrow>
          (let (ok, b) = modify_order i p bq (la_book a) in Some (ok, a\<lparr>la_book := b, la_resting := AList.delete i (la_resting a)\<rparr>))
      | _ \<Rightarrow> None)"

definition la_advance_time :: "time_point \<Rightarrow> local_adapter \<Rightarrow> local_adapter" where
  "la_advance_time ts a =
     (fold (\<lambda>(i, t) a. if t \<le> ts then drop_resting i a else a) (la_cancels a) (a\<lparr>la_time := ts\<rparr>))
       \<lparr>la_cancels := filter (\<lambda>(i, t). \<not> t \<le> ts) (la_cancels a)\<rparr>"

definition la_on_book_trades :: "trade list \<Rightarrow> time_point \<Rightarrow> local_adapter \<Rightarrow> local_adapter" where
  "la_on_book_trades trs ts a =
     fold (\<lambda>t a. record_resting_fill ts (ask_trade t) (record_resting_fill ts (bid_trade t) a)) trs a"

subsection \<open>Bar traversal\<close>

definition traversed :: "double \<Rightarrow> double \<Rightarrow> order_side \<Rightarrow> double \<Rightarrow> bool" where
  "traversed low high sd px = (if sd = Buy then low \<le> px else high \<ge> px)"

definition sweep_one :: "symbol \<Rightarrow> double \<Rightarrow> double \<Rightarrow> time_point \<Rightarrow> order_id \<times> resting_info \<Rightarrow> bool \<times> local_adapter \<Rightarrow> bool \<times> local_adapter" where
  "sweep_one sy low high ts = (\<lambda>(i, ri) (any, a).
     let px = price_to_double (ord_price (ob_store (la_book a) (ri_order ri))); q = left_over (ri_order ri) a in
     if ri_symbol ri \<noteq> sy \<or> map_of (la_cancels a) i \<noteq> None \<or> \<not> traversed low high (ri_side ri) px then (any, a)
     else if q \<le> 0 then (any, a\<lparr>la_resting := AList.delete i (la_resting a)\<rparr>)
     else (True, drop_resting i (emit_fill (mk_fill_event ts (ri_symbol ri) i (ri_side ri) q px
            (commission_of (la_fee a) (ri_side ri) q px False) 0 (la_next_fill_id a) [] 0) a)))"

definition sweep_resting_range :: "symbol \<Rightarrow> double \<Rightarrow> double \<Rightarrow> time_point \<Rightarrow> local_adapter \<Rightarrow> bool \<times> local_adapter" where
  "sweep_resting_range sy low high ts a =
     (if la_resting a = [] \<or> \<not> low > 0 \<or> \<not> high > 0 then (False, a)
      else let (lo, hi) = (if low > high then (high, low) else (low, high))
           in fold (sweep_one sy lo hi ts) (la_resting a) (False, a))"

subsection \<open>Who trades with whom\<close>

definition own_leg :: "side \<Rightarrow> trade \<Rightarrow> trade_info" where
  "own_leg s t = (case s of Side_Buy \<Rightarrow> bid_trade t | Side_Sell \<Rightarrow> ask_trade t)"

definition other_leg :: "side \<Rightarrow> trade \<Rightarrow> trade_info" where
  "other_leg s t = own_leg (opposite s) t"

lemma matched_legs:
  "matched b ts b' \<Longrightarrow> t \<in> set ts \<Longrightarrow> \<exists>bn an. bn \<in> set (refs (bid_levels b)) \<and> an \<in> set (refs (ask_levels b)) \<and>
     ti_order_id (bid_trade t) = ord_id (ob_store b bn) \<and> ti_order_id (ask_trade t) = ord_id (ob_store b an) \<and>
     ti_price (bid_trade t) = ord_price (ob_store b bn) \<and> ti_price (ask_trade t) = ord_price (ob_store b an) \<and>
     ord_price (ob_store b an) \<le> ord_price (ob_store b bn)"
proof (induction rule: matched.induct)
  case (matched_trade b bn bns an ans b1 ts b2)
  have tm: "ord_id (ob_store b1 k) = ord_id (ob_store b k)" "ord_price (ob_store b1 k) = ord_price (ob_store b k)" for k
    using traded_store_terms matched_trade.hyps(4) by (simp_all add: same_terms_def)
  have sub: "set (refs (bid_levels b1)) \<subseteq> set (refs (bid_levels b))" "set (refs (ask_levels b1)) \<subseteq> set (refs (ask_levels b))"
    using matched_trade.hyps(1,2,6,7) by auto
  show ?case
  proof (cases "t = trade_of (ob_store b) bn an")
    case True
    with matched_trade.hyps(1-3) show ?thesis by (intro exI [of _ bn] exI [of _ an]) simp
  next
    case False
    with matched_trade.prems matched_trade.IH sub show ?thesis unfolding tm by fastforce
  qed
qed simp

text \<open>On an uncrossed book every trade of \<open>add_order\<close> has the new order on one leg and a resting order of the other side, at
  a price the new order accepts, on the other.\<close>

lemma add_order_legs:
  assumes "book_ok b" "uncrossed b" "n < ob_next_ref b" "add_order n b = Inr (b', ts)" "t \<in> set ts"
  defines "s \<equiv> ord_side (ob_store b n)"
  shows "ti_order_id (own_leg s t) = ord_id (ob_store b n) \<and> (\<exists>k\<in>linked b. ti_order_id (other_leg s t) = ord_id (ob_store b k) \<and>
    ord_id (ob_store b k) \<noteq> ord_id (ob_store b n) \<and> ti_price (other_leg s t) = ord_price (ob_store b k) \<and>
    crosses s (ord_price (ob_store b n)) (ord_price (ob_store b k)))"
  using assms(1,3)
proof (cases rule: add_order_cases)
  case away
  with assms(4,5) show ?thesis by simp
next
  case (link b'' ts' b1)
  let ?r = "rest_order n b"
  have st: "ob_store ?r = ob_store b" by (simp add: rest_order_def Let_def set_levels_def split: prod.splits side.splits)
  obtain bn an where l: "bn \<in> set (refs (bid_levels ?r))" "an \<in> set (refs (ask_levels ?r))"
    "ti_order_id (bid_trade t) = ord_id (ob_store b bn)" "ti_order_id (ask_trade t) = ord_id (ob_store b an)"
    "ti_price (bid_trade t) = ord_price (ob_store b bn)" "ti_price (ask_trade t) = ord_price (ob_store b an)"
    "ord_price (ob_store b an) \<le> ord_price (ob_store b bn)"
    using matched_legs [OF link(6), of t] link(2) assms(4,5) st by auto
  have sd: "ord_side (ob_store b bn) = Side_Buy" "ord_side (ob_store b an) = Side_Sell"
    using l(1,2) link(3) side_okD [of "ob_store ?r"] st by (auto simp: book_ok_def)
  have li: "bn \<in> insert n (linked b)" "an \<in> insert n (linked b)" using l(1,2) link(4) by (auto simp: linked_def)
  have ne: "bn \<noteq> an" using sd by auto
  have "bn = n \<or> an = n" by (rule rest_order_single [OF assms(1,2) link(5) l(1,2) link(4,3) l(7)])
  moreover have new: "order_map b (ord_id (ob_store b n)) = None" using link(1) by (auto simp: turned_away_def)
  have "ord_id (ob_store b k) \<noteq> ord_id (ob_store b n)" if "k \<in> linked b" for k using index_linked [OF assms(1) that] new by auto
  ultimately show ?thesis using l(3-7) sd li ne link(5)
    by (auto simp: s_def own_leg_def other_leg_def crosses_def)
qed

text \<open>A good-till-cancel order that still has quantity left is still linked after \<open>add_order\<close>; orders outside the book are not touched.\<close>

lemma add_order_survivor:
  assumes "book_ok b" "n < ob_next_ref b" "add_order n b = Inr (b', ts)"
    and "k \<in> linked b \<or> k = n \<and> order_map b (ord_id (ob_store b n)) = None"
    and "ord_type (ob_store b k) = Good_Till_Cancel" "remaining_quantity (ob_store b' k) > 0"
  shows "k \<in> linked b'"
  using assms(1,2)
proof (cases rule: add_order_cases)
  case away
  then have "k \<in> linked b" using assms(3-5) by (auto simp: turned_away_def)
  with away assms(3) show ?thesis by simp
next
  case (link b'' ts' b1)
  have e: "b'' = b'" using link(2) assms(3) by simp
  have k1: "k \<in> linked b1" using matched_gone [OF link(6,3), of k] link(4,11) assms(4,6) e by force
  have "ord_type (ob_store b1 k) = Good_Till_Cancel" using matched_terms [OF link(6), of k] assms(5)
    by (simp add: same_terms_def rest_order_def Let_def set_levels_def split: prod.splits side.splits)
  then have na: "\<not> aggressive (ob_store b1 k)" by (simp add: aggressive_def)
  obtain s where "k \<in> set (refs (levels s b1))" using k1 linked_sides [of b1 Side_Buy] by auto
  then have "k \<in> set (drop_aggressive (ob_store b1) (refs (levels s b1)))"
    using na by (cases "refs (levels s b1)") (auto simp: drop_aggressive_Cons)
  then have "k \<in> set (refs (levels s b'))" using link(14) e by simp
  then show ?thesis using linked_sides [of b' s] by simp
qed

lemma add_order_untouched:
  assumes "book_ok b" "n < ob_next_ref b" "add_order n b = Inr (b', ts)" "k \<notin> insert n (linked b)"
  shows "ob_store b' k = ob_store b k"
  using assms(1,2)
proof (cases rule: add_order_cases)
  case (link b'' ts' b1)
  have "ob_store (rest_order n b) = ob_store b" by (simp add: rest_order_def Let_def set_levels_def split: prod.splits side.splits)
  with matched_frame [OF link(6), of k] link(2,4,11) assms(3,4) show ?thesis by simp
qed (use assms(3) in simp)

subsection \<open>Recording fills\<close>

lemma emit_fill_frame [simp, tt_frame]:
  "la_book (emit_fill f a) = la_book a" "la_resting (emit_fill f a) = la_resting a" "la_qty_scale (emit_fill f a) = la_qty_scale a"
  "la_cancels (emit_fill f a) = la_cancels a" "la_fills (emit_fill f a) = la_fills a @ [f]"
  by (simp_all add: emit_fill_def)

lemma record_frame [simp, tt_frame]:
  "la_book (record_resting_fill ts ti a) = la_book a" "la_qty_scale (record_resting_fill ts ti a) = la_qty_scale a"
  "la_cancels (record_resting_fill ts ti a) = la_cancels a"
  by (simp_all add: record_resting_fill_def Let_def split: option.splits)

lemma our_fill_frame [simp, tt_frame]:
  "la_book (our_fill o1 n now fade our counter a) = la_book a" "la_resting (our_fill o1 n now fade our counter a) = la_resting a"
  "la_qty_scale (our_fill o1 n now fade our counter a) = la_qty_scale a"
  by (simp_all add: our_fill_def Let_def)

lemma record_subset: "set (la_resting (record_resting_fill ts ti a)) \<subseteq> set (la_resting a)"
  by (auto simp: record_resting_fill_def Let_def AList.delete_eq split: option.splits)

lemma record_distinct: "distinct (map fst (la_resting a)) \<Longrightarrow> distinct (map fst (la_resting (record_resting_fill ts ti a)))"
  by (simp add: record_resting_fill_def Let_def AList.distinct_delete split: option.splits)

lemma record_fills:
  "\<exists>fs. la_fills (record_resting_fill ts ti a) = la_fills a @ fs \<and>
     (\<forall>f\<in>set fs. fe_order_id f = ti_order_id ti \<and> fe_fill_price f = price_to_double (ti_price ti) \<and>
        fe_filled_quantity f = scaled (ti_quantity ti) a \<and> (\<exists>ri. (ti_order_id ti, ri) \<in> set (la_resting a) \<and> fe_side f = ri_side ri))"
  by (auto simp: record_resting_fill_def Let_def mk_fill_event_def dest: map_of_SomeD split: option.splits)

lemma submit_trade_legs:
  assumes "ti_order_id (own_leg s t) = oe_order_id o1" "ti_order_id (other_leg s t) \<noteq> oe_order_id o1"
  shows "submit_trade o1 n now fade t a = our_fill o1 n now fade (own_leg s t) (other_leg s t)
    (record_resting_fill (oe_earliest_eligible_ts o1) (other_leg s t) a)"
  using assms by (cases s) (auto simp: submit_trade_def Let_def own_leg_def other_leg_def)

subsection \<open>The table of resting orders\<close>

text \<open>Recording fills only ever shortens the table and leaves the book alone.\<close>

definition shorter :: "local_adapter \<Rightarrow> local_adapter \<Rightarrow> bool" where
  "shorter a a' \<longleftrightarrow> la_book a' = la_book a \<and> set (la_resting a') \<subseteq> set (la_resting a) \<and>
     (distinct (map fst (la_resting a)) \<longrightarrow> distinct (map fst (la_resting a')))"

lemma shorter_refl [simp]: "shorter a a"
  by (simp add: shorter_def)

lemma shorter_trans: "shorter a b \<Longrightarrow> shorter b c \<Longrightarrow> shorter a c"
  by (auto simp: shorter_def)

lemma shorter_fold: "(\<And>t a. shorter a (g t a)) \<Longrightarrow> shorter a (fold g ts a)"
  by (induction ts arbitrary: a) (auto intro: shorter_trans)

lemma shorter_record: "shorter a (record_resting_fill ts ti a)"
  using record_subset record_distinct by (simp add: shorter_def)

lemma shorter_ours: "shorter a (our_fill o1 n now fade our counter a)"
  by (simp add: shorter_def)

lemma shorter_submit: "shorter a (submit_trade o1 n now fade t a)"
  using shorter_record shorter_ours shorter_trans [OF shorter_record shorter_ours] by (simp add: submit_trade_def Let_def)

lemma shorter_trades: "shorter a (la_on_book_trades trs ts a)"
  unfolding la_on_book_trades_def by (rule shorter_fold) (rule shorter_trans [OF shorter_record shorter_record])

text \<open>An entry of the table names a good-till-cancel order of its own id and side; while that order has quantity left and its id has not been
  wiped from the book behind the adapter's back (\<open>W\<close>), it is linked in the book.\<close>

definition entry_ok :: "orderbook \<Rightarrow> order_id set \<Rightarrow> order_id \<times> resting_info \<Rightarrow> bool" where
  "entry_ok b W e \<longleftrightarrow> ri_order (snd e) < ob_next_ref b \<and>
     (let ord = ob_store b (ri_order (snd e)) in
      ord_id ord = fst e \<and> ord_side ord = book_side (ri_side (snd e)) \<and> ord_type ord = Good_Till_Cancel \<and>
      (remaining_quantity ord > 0 \<longrightarrow> fst e \<notin> W \<longrightarrow> ri_order (snd e) \<in> linked b))"

definition la_tracks :: "local_adapter \<Rightarrow> order_id set \<Rightarrow> bool" where
  "la_tracks a W \<longleftrightarrow> book_ok (la_book a) \<and> distinct (map fst (la_resting a)) \<and> (\<forall>e\<in>set (la_resting a). entry_ok (la_book a) W e)"

definition la_ok :: "local_adapter \<Rightarrow> bool" where
  "la_ok a \<longleftrightarrow> book_ok (la_book a) \<and> uncrossed (la_book a)"

lemma alist_update_set: "e \<in> set (AList.update k v xs) \<Longrightarrow> e = (k, v) \<or> e \<in> set xs"
  by (induction xs) (auto split: if_splits)

lemma entry_moves:
  assumes "entry_ok b W e" "ob_next_ref b \<le> ob_next_ref b'" "same_terms (ob_store b' (ri_order (snd e))) (ob_store b (ri_order (snd e)))"
    and "remaining_quantity (ob_store b' (ri_order (snd e))) > 0 \<Longrightarrow> fst e \<notin> W' \<Longrightarrow> ri_order (snd e) \<in> linked b'"
  shows "entry_ok b' W' e"
  using assms by (auto simp: entry_ok_def Let_def same_terms_def)

lemma tracks_shorter: "la_tracks a W \<Longrightarrow> shorter a a' \<Longrightarrow> la_tracks a' W"
  by (auto simp: la_tracks_def shorter_def)

lemma tracks_cong: "la_tracks a W \<Longrightarrow> la_book a' = la_book a \<Longrightarrow> la_resting a' = la_resting a \<Longrightarrow> la_tracks a' W"
  by (simp add: la_tracks_def)

lemma submit_cases:
  assumes "la_submit_order o1 draw now a = Inr a'"
  obtains (skip) "a' = a"
  | (book) p q n b b' ts where "submit_price o1 a = Some p"
    "create_order (mk_order (book_type (oe_tif o1)) (oe_order_id o1) (book_side (oe_side o1)) p q) (la_book a) = (n, b)"
    "add_order n b = Inr (b', ts)"
    "a' = fold (submit_trade o1 n now (case la_fill_model a of Some fm \<Rightarrow> fm_fade_rate fm | None \<Rightarrow> 0)) ts
       (if book_type (oe_tif o1) = Good_Till_Cancel \<and> remaining_quantity (ob_store b' n) > 0
        then a\<lparr>la_book := b', la_resting := AList.update (oe_order_id o1)
          \<lparr>ri_order = n, ri_symbol = oe_symbol o1, ri_side = oe_side o1\<rparr> (la_resting a)\<rparr> else a\<lparr>la_book := b'\<rparr>)"
proof (cases "oe_order_type o1 = OT_Stop \<or> oe_order_type o1 = OT_Stop_Limit \<or> unlucky o1 draw a")
  case True
  with assms skip show thesis by (simp add: la_submit_order_def)
next
  case False
  note go = assms [unfolded la_submit_order_def if_not_P [OF False]]
  obtain p q where pq: "submit_price o1 a = Some p" "u64_of_double (fround (oe_quantity o1 * la_qty_scale a)) = Some q"
    using go by (auto split: option.splits)
  obtain n b where c: "create_order (mk_order (book_type (oe_tif o1)) (oe_order_id o1) (book_side (oe_side o1)) p q) (la_book a) = (n, b)"
    by fastforce
  show thesis
  proof (cases "add_order n b")
    case (Inl e)
    then show thesis using go by (simp add: pq c)
  next
    case (Inr r)
    obtain b' ts where r: "r = (b', ts)" by fastforce
    show thesis by (rule book [OF pq(1) c]) (use go Inr r in \<open>auto simp: pq c Let_def split: if_splits\<close>)
  qed
qed

text \<open>An order added to the book, by the adapter or by anybody else, keeps the entries.\<close>

lemma entry_add:
  assumes ok: "book_ok b" and c: "create_order ord b = (n, b1)" and r: "add_order n b1 = Inr (b', ts)" and e: "entry_ok b W e"
  shows "entry_ok b' W e"
proof -
  let ?k = "ri_order (snd e)"
  note k = create_order_ok [OF ok c]
  have n: "n < ob_next_ref b1" using k(1,7) by simp
  note f = add_order_frame [OF k(8) n r]
  have kn: "?k \<noteq> n" using e k(1) by (auto simp: entry_ok_def)
  have st: "ob_store b1 ?k = ob_store b ?k" using kn k(6) by simp
  show ?thesis
  proof (rule entry_moves [OF e])
    show "ob_next_ref b \<le> ob_next_ref b'" using f(3) k(7) by simp
    show "same_terms (ob_store b' ?k) (ob_store b ?k)" using f(2) [of ?k] st by simp
    assume q: "remaining_quantity (ob_store b' ?k) > 0" "fst e \<notin> W"
    have "?k \<in> linked b"
    proof (rule ccontr)
      assume nl: "?k \<notin> linked b"
      then have "ob_store b' ?k = ob_store b ?k" using add_order_untouched [OF k(8) n r, of ?k] kn k(3) st by simp
      with q nl e show False by (auto simp: entry_ok_def Let_def)
    qed
    then show "?k \<in> linked b'" using add_order_survivor [OF k(8) n r, of ?k] q(1) e k(3) st by (auto simp: entry_ok_def Let_def)
  qed
qed

lemma la_submit_tracks [tt_inv]:
  assumes a: "la_tracks a W" and new: "order_map (la_book a) (oe_order_id o1) = None" and s: "la_submit_order o1 draw now a = Inr a'"
  shows "la_tracks a' W"
  using s
proof (cases rule: submit_cases)
  case skip
  with a show ?thesis by simp
next
  case (book p q n b b' ts)
  have A: "book_ok (la_book a)" "distinct (map fst (la_resting a))" "\<And>e. e \<in> set (la_resting a) \<Longrightarrow> entry_ok (la_book a) W e"
    using a by (simp_all add: la_tracks_def)
  note k = create_order_ok [OF A(1) book(2)]
  have n: "n < ob_next_ref b" using k(1,7) by simp
  have st: "ob_store b n = mk_order (book_type (oe_tif o1)) (oe_order_id o1) (book_side (oe_side o1)) p q" using k(6) by simp
  let ?ri = "\<lparr>ri_order = n, ri_symbol = oe_symbol o1, ri_side = oe_side o1\<rparr>"
  let ?go = "book_type (oe_tif o1) = Good_Till_Cancel \<and> remaining_quantity (ob_store b' n) > 0"
  have new_ok: "entry_ok b' W (oe_order_id o1, ?ri)" if g: "?go"
  proof -
    have "n \<in> linked b'" using add_order_survivor [OF k(8) n book(3), of n] g st new k(4) by simp
    then show ?thesis using add_order_frame(2) [OF k(8) n book(3), of n] add_order_frame(3) [OF k(8) n book(3)] n st g by (simp add: entry_ok_def same_terms_def Let_def)
  qed
  have ok': "book_ok b'" by (rule add_created_ok [OF A(1) book(2,3)])
  have old: "entry_ok b' W e" if "e \<in> set (la_resting a)" for e by (rule entry_add [OF A(1) book(2,3) A(3) [OF that]])
  have "la_tracks (if ?go then a\<lparr>la_book := b', la_resting := AList.update (oe_order_id o1) ?ri (la_resting a)\<rparr> else a\<lparr>la_book := b'\<rparr>) W"
    using ok' old new_ok A(2) by (auto simp: la_tracks_def AList.distinct_update dest: alist_update_set)
  then show ?thesis unfolding book(4) by (rule tracks_shorter) (rule shorter_fold, rule shorter_submit)
qed

lemma cancel_store: "ob_store (cancel_order i b) = ob_store b" "ob_next_ref (cancel_order i b) = ob_next_ref b"
  by (simp_all add: cancel_order_def Let_def set_levels_def split: option.splits side.splits)

lemma entry_cancel: "book_ok b \<Longrightarrow> entry_ok b W e \<Longrightarrow> fst e \<noteq> i \<or> i \<in> W' \<Longrightarrow> W \<subseteq> W' \<Longrightarrow> entry_ok (cancel_order i b) W' e"
  using cancel_order_ok(2) [of b i] linked_index [of b i] by (auto simp: entry_ok_def Let_def cancel_store)

lemma drop_resting_tracks [tt_inv]: "la_tracks a W \<Longrightarrow> la_tracks (drop_resting i a) W"
  using cancel_order_ok(1) entry_cancel AList.distinct_delete
  by (auto simp: la_tracks_def drop_resting_def AList.delete_eq)

lemma delete_tracks: "la_tracks a W \<Longrightarrow> la_tracks (a\<lparr>la_resting := AList.delete i (la_resting a)\<rparr>) W"
  using AList.distinct_delete by (auto simp: la_tracks_def AList.delete_eq)

lemma modify_tracks [tt_inv]:
  assumes a: "la_tracks a W" and m: "la_modify_order i px q a = Some (r, a')"
  shows "la_tracks a' W"
proof -
  obtain p bq b where b: "modify_order i p bq (la_book a) = (r, b)" "a' = a\<lparr>la_book := b, la_resting := AList.delete i (la_resting a)\<rparr>"
    using m by (auto simp: la_modify_order_def split: option.splits prod.splits)
  have A: "book_ok (la_book a)" "distinct (map fst (la_resting a))" "\<And>e. e \<in> set (la_resting a) \<Longrightarrow> entry_ok (la_book a) W e"
    using a by (simp_all add: la_tracks_def)
  have "entry_ok b W e" if e: "e \<in> set (la_resting a)" "fst e \<noteq> i" for e
  proof (cases "order_map (la_book a) i")
    case None
    then show ?thesis using b(1) A(3) [OF e(1)] by (simp add: modify_order_def)
  next
    case (Some n)
    let ?b = "la_book a" and ?c = "cancel_order i (la_book a)" and ?k = "ri_order (snd e)"
    let ?o = "mk_order (ord_type (ob_store ?b n)) i (ord_side (ob_store ?b n)) p bq"
    have c: "entry_ok ?c W e" by (rule entry_cancel [OF A(1) A(3) [OF e(1)]]) (use e(2) in auto)
    obtain b2 where c2: "create_order ?o ?c = (ob_next_ref ?b, b2)" by (simp add: create_order_def cancel_store)
    note k = create_order_ok [OF cancel_order_ok(1) [OF A(1)] c2]
    have b': "b = rest_order (ob_next_ref ?b) b2" using b(1) Some c2 by (simp add: modify_order_def)
    have "order_map b2 (ord_id (ob_store b2 (ob_next_ref ?b))) = None" using k(4,6) by simp
    note R = rest_order_ok [OF k(8) this, of]
    have kn: "?k \<noteq> ob_next_ref ?b" using c by (simp add: entry_ok_def cancel_store)
    then have st: "ob_store b ?k = ob_store ?c ?k" using b' k(6) by simp
    show ?thesis
    proof (rule entry_moves [OF c])
      show "ob_next_ref ?c \<le> ob_next_ref b" using b' k(7) by (simp add: cancel_store)
      show "same_terms (ob_store b ?k) (ob_store ?c ?k)" by (simp add: st)
      show "?k \<in> linked b" if "remaining_quantity (ob_store b ?k) > 0" "fst e \<notin> W"
        using that c st R(2) k(3,7) b' by (auto simp: entry_ok_def Let_def cancel_store)
    qed
  qed
  then show ?thesis using modify_book(1) [OF A(1) b(1)] A(2) AList.distinct_delete by (auto simp: b(2) la_tracks_def AList.delete_eq)
qed

lemma drop_resting_fold_tracks: "la_tracks a W \<Longrightarrow> la_tracks (fold (\<lambda>(i, t) a. if t \<le> ts then drop_resting i a else a) cs a) W"
  by (induction cs arbitrary: a) (auto simp: drop_resting_tracks)

lemma sweep_one_tracks [tt_inv]: assumes "la_tracks (snd x) W" shows "la_tracks (snd (sweep_one sy lo hi ts e x)) W"
proof -
  obtain i ri any a where x: "e = (i, ri)" "x = (any, a)" by force
  have a: "la_tracks a W" using assms x by simp
  have "la_tracks (emit_fill f a) W" for f using tracks_cong [OF a] by simp
  then show ?thesis using a drop_resting_tracks delete_tracks by (simp add: sweep_one_def x Let_def)
qed

lemma sweep_fold_tracks: "la_tracks (snd x) W \<Longrightarrow> la_tracks (snd (fold (sweep_one sy lo hi ts) es x)) W"
  by (induction es arbitrary: x) (auto simp: sweep_one_tracks)

subsection \<open>Level-2 data under the adapter\<close>

lemma place_depth_later:
  assumes "place_depth s p q (b, c) = (b', c')" "k < ob_next_ref b"
  shows "ob_store b' k = ob_store b k" "ob_next_ref b \<le> ob_next_ref b'"
  using assms by (auto simp: place_depth_def order_id_next_def create_order_def rest_order_def Let_def set_levels_def split: prod.splits side.splits)

lemma snapshot_side_later:
  "snapshot_side s xs (b, c) = (b', c') \<Longrightarrow> k < ob_next_ref b \<Longrightarrow> ob_store b' k = ob_store b k \<and> ob_next_ref b \<le> ob_next_ref b'"
proof (induction xs arbitrary: b c)
  case (Cons x xs)
  obtain p q where x: "x = (p, q)" by fastforce
  show ?case
  proof (cases "q = 0")
    case False
    obtain b1 c1 where p: "place_depth s p q (b, c) = (b1, c1)" by fastforce
    note l = place_depth_later [OF p Cons.prems(2)]
    have "snapshot_side s xs (b1, c1) = (b', c')" using Cons.prems(1) False p x by simp
    from Cons.IH [OF this] l Cons.prems(2) show ?thesis by simp
  qed (use Cons x in auto)
qed simp

lemma snapshot_later:
  assumes "apply_l2_snapshot bids asks (b, c) = (b', c')" "k < ob_next_ref b"
  shows "ob_store b' k = ob_store b k \<and> ob_next_ref b \<le> ob_next_ref b'"
proof -
  obtain b1 c1 where 1: "snapshot_side Side_Buy bids (clear b, c) = (b1, c1)" by fastforce
  then have 2: "snapshot_side Side_Sell asks (b1, c1) = (b', c')" using assms(1) by (simp add: apply_l2_snapshot_def)
  have "ob_store (clear b) = ob_store b" "ob_next_ref (clear b) = ob_next_ref b" by (simp_all add: clear_def)
  with snapshot_side_later [OF 1, of k] snapshot_side_later [OF 2, of k] assms(2) show ?thesis by simp
qed

lemma entry_snapshot:
  assumes "book_ok b" "apply_l2_snapshot bids asks (b, c) = (b', c')" "entry_ok b W e"
  shows "entry_ok b' (W \<union> dom (order_map b)) e"
proof -
  have k: "ri_order (snd e) < ob_next_ref b" using assms(3) by (simp add: entry_ok_def)
  note l = snapshot_later [OF assms(2) k]
  have "fst e \<in> W \<union> dom (order_map b)" if "remaining_quantity (ob_store b (ri_order (snd e))) > 0"
    using that assms(3) index_linked [OF assms(1), of "ri_order (snd e)"] by (auto simp: entry_ok_def Let_def)
  then show ?thesis using l by (intro entry_moves [OF assms(3)]) auto
qed

lemma l2_update_sets:
  assumes ok: "book_ok b" and new: "order_map b c = None" and u: "apply_l2_update s p q (b, c) = (b', c')"
  shows "book_ok b'" "ob_next_ref b \<le> ob_next_ref b'" "k < ob_next_ref b \<Longrightarrow> ob_store b' k = ob_store b k"
    "(t, x) \<noteq> (s, p) \<Longrightarrow> queue t x b' = queue t x b"
proof -
  note w = l2_wiped_ok [OF ok, where s = s and p = p]
  have e: "(if q > 0 then place_depth s p q (l2_wiped s p b, c) else (l2_wiped s p b, c)) = (b', c')"
    using u by (simp only: apply_l2_update_def l2_wiped_def Let_def prod.case)
  have "book_ok b' \<and> ob_next_ref b \<le> ob_next_ref b' \<and> (k < ob_next_ref b \<longrightarrow> ob_store b' k = ob_store b k) \<and>
      ((t, x) \<noteq> (s, p) \<longrightarrow> queue t x b' = queue t x b)"
  proof (cases "q > 0")
    case True
    then have r: "place_depth s p q (l2_wiped s p b, c) = (b', c')" using e by simp
    note P = place_depth_ok [OF w(1) w(5) [OF new] r]
    show ?thesis using P(1,4,5,6) w(2,3,6) by auto
  next
    case False
    then show ?thesis using e w(1,2,3,6) by auto
  qed
  then show "book_ok b'" "ob_next_ref b \<le> ob_next_ref b'" "k < ob_next_ref b \<Longrightarrow> ob_store b' k = ob_store b k"
    "(t, x) \<noteq> (s, p) \<Longrightarrow> queue t x b' = queue t x b" by simp_all
qed

definition ids_at :: "side \<Rightarrow> price \<Rightarrow> orderbook \<Rightarrow> order_id set" where
  "ids_at s p b = (\<lambda>k. ord_id (ob_store b k)) ` set (queue s p b)"

lemma update_keeps:
  assumes ok: "book_ok b" and new: "order_map b c = None" and u: "apply_l2_update s p q (b, c) = (b', c')" and k: "k \<in> linked b" "k \<notin> set (queue s p b)"
  shows "k \<in> linked b'"
proof -
  obtain t where "k \<in> set (refs (levels t b))" using k(1) linked_sides [of b Side_Buy] by auto
  then have t: "k \<in> set (queue t (ord_price (ob_store b k)) b)" by (simp add: queue_def)
  then have "(t, ord_price (ob_store b k)) \<noteq> (s, p)" using k(2) by auto
  then have "queue t (ord_price (ob_store b k)) b' = queue t (ord_price (ob_store b k)) b" using l2_update_sets(4) [OF ok new u] by blast
  then show ?thesis using t queue_linked [of k t "ord_price (ob_store b k)" b'] by simp
qed

lemma entry_update:
  assumes "book_ok b" "order_map b c = None" "apply_l2_update s p q (b, c) = (b', c')" "entry_ok b W e"
  shows "entry_ok b' (W \<union> ids_at s p b) e"
proof -
  let ?k = "ri_order (snd e)"
  have k: "?k < ob_next_ref b" "ord_id (ob_store b ?k) = fst e" using assms(4) by (simp_all add: entry_ok_def Let_def)
  note u = l2_update_sets(2,3) [OF assms(1-3)]
  have st: "ob_store b' ?k = ob_store b ?k" using u(2) k(1) by simp
  show ?thesis
  proof (rule entry_moves [OF assms(4) u(1)])
    assume q: "remaining_quantity (ob_store b' ?k) > 0" "fst e \<notin> W \<union> ids_at s p b"
    then have "?k \<in> linked b" using assms(4) st by (simp add: entry_ok_def Let_def)
    moreover have "?k \<notin> set (queue s p b)" using q(2) k(2) unfolding ids_at_def by (metis UnI2 imageI)
    ultimately show "?k \<in> linked b'" by (rule update_keeps [OF assms(1-3)])
  qed (simp add: st)
qed

subsection \<open>Runs of the adapter\<close>

text \<open>Everything that happens to an adapter and its book, in any order. The calls of the adapter: \<open>submit_order\<close>, under an id that no resting order has
  (the engine draws it from the generator); \<open>cancel_order\<close>, \<open>modify_order\<close>, \<open>advance_time\<close>, \<open>on_book_trades\<close>, \<open>sweep_resting_range\<close>, \<open>poll_fills\<close> and
  the two setters. What others do to the shared book: orders added (the market maker's quotes, \<open>quote\<close>), orders cancelled directly on the book (the market maker
  pulling its quotes, the engine cancelling day orders, \<open>pull\<close>), and level-2 snapshots and updates. The second component collects the ids
  that were removed from the book without the adapter being told.\<close>

inductive la_step :: "local_adapter \<times> order_id set \<Rightarrow> local_adapter \<times> order_id set \<Rightarrow> bool" where
  submit: "order_map (la_book a) (oe_order_id o1) = None \<Longrightarrow> la_submit_order o1 draw now a = Inr a' \<Longrightarrow> la_step (a, W) (a', W)"
| cancel: "la_cancel_order i lat a = (r, a') \<Longrightarrow> la_step (a, W) (a', W)"
| modify: "la_modify_order i px q a = Some (r, a') \<Longrightarrow> la_step (a, W) (a', W)"
| tick: "la_step (a, W) (la_advance_time ts a, W)"
| trades: "la_step (a, W) (la_on_book_trades trs ts a, W)"
| sweep: "sweep_resting_range sy low high ts a = (r, a') \<Longrightarrow> la_step (a, W) (a', W)"
| poll: "la_poll_fills out a = (r, out', a') \<Longrightarrow> la_step (a, W) (a', W)"
| mid: "la_step (a, W) (la_set_mid_price p a, W)"
| seeded: "la_step (a, W) (la_set_l2_seeded s a, W)"
| quote: "create_order ord (la_book a) = (n, b) \<Longrightarrow> add_order n b = Inr (b', ts) \<Longrightarrow> la_step (a, W) (a\<lparr>la_book := b'\<rparr>, W)"
| pull: "la_step (a, W) (a\<lparr>la_book := cancel_order i (la_book a)\<rparr>, insert i W)"
| snapshot: "length bids + length asks < 2 ^ 64 \<Longrightarrow> apply_l2_snapshot bids asks (la_book a, c) = (b, c') \<Longrightarrow>
    la_step (a, W) (a\<lparr>la_book := b\<rparr>, W \<union> dom (order_map (la_book a)))"
| l2_update: "order_map (la_book a) c = None \<Longrightarrow> apply_l2_update s x q (la_book a, c) = (b, c') \<Longrightarrow>
    la_step (a, W) (a\<lparr>la_book := b\<rparr>, W \<union> ids_at s x (la_book a))"

lemma tracks_book:
  assumes "la_tracks a W" "book_ok b" "\<And>e. entry_ok (la_book a) W e \<Longrightarrow> entry_ok b W' e"
  shows "la_tracks (a\<lparr>la_book := b\<rparr>) W'"
  using assms by (simp add: la_tracks_def)

lemma tracks_ok: "la_tracks a W \<Longrightarrow> book_ok (la_book a)"
  by (simp add: la_tracks_def)

lemma la_step_tracks [tt_inv]: "la_step (a, W) (a', W') \<Longrightarrow> la_tracks a W \<Longrightarrow> la_tracks a' W'"
proof (induction "(a, W)" "(a', W')" rule: la_step.induct)
  case (cancel i lat r)
  then show ?case using drop_resting_tracks [of a W i] tracks_cong by (auto simp: la_cancel_order_def split: option.splits)
next
  case (tick ts)
  have "la_tracks (a\<lparr>la_time := ts\<rparr>) W" using tick(3) tracks_cong by simp
  from drop_resting_fold_tracks [OF this, of ts "la_cancels a"] show ?case
    using tick(1,2) unfolding la_advance_time_def by (auto elim: tracks_cong)
next
  case (trades trs ts)
  then show ?case using tracks_shorter shorter_trades by auto
next
  case (sweep sy low high ts r)
  then show ?case using sweep_fold_tracks [of "(False, a)" W sy _ _ ts "la_resting a"]
    by (auto simp: sweep_resting_range_def split: if_splits) (metis snd_conv)+
next
  case (quote ord n b b' ts)
  note ok = tracks_ok [OF quote.prems]
  have "la_tracks (a\<lparr>la_book := b'\<rparr>) W"
    by (rule tracks_book [OF quote.prems add_created_ok [OF ok quote.hyps(1,2)] entry_add [OF ok quote.hyps(1,2)]])
  with quote.hyps show ?case by simp
next
  case (pull i)
  have "la_tracks (a\<lparr>la_book := cancel_order i (la_book a)\<rparr>) (insert i W)"
    by (rule tracks_book [OF pull(3) cancel_order_ok(1) entry_cancel]) (use tracks_ok [OF pull(3)] in auto)
  with pull show ?case by simp
next
  case (snapshot bids asks c b c')
  have "la_tracks (a\<lparr>la_book := b\<rparr>) (W \<union> dom (order_map (la_book a)))"
    by (rule tracks_book [OF snapshot.prems snapshot_ok(1) [OF snapshot.hyps(1,2)] entry_snapshot [OF tracks_ok [OF snapshot.prems] snapshot.hyps(2)]])
  with snapshot.hyps show ?case by simp
next
  case (l2_update c s x q b c')
  note ok = tracks_ok [OF l2_update.prems]
  have "la_tracks (a\<lparr>la_book := b\<rparr>) (W \<union> ids_at s x (la_book a))"
    by (rule tracks_book [OF l2_update.prems l2_update_sets(1) [OF ok l2_update.hyps(1,2)] entry_update [OF ok l2_update.hyps(1,2)]])
  with l2_update.hyps show ?case by simp
qed (auto simp: la_poll_fills_def la_set_mid_price_def la_set_l2_seeded_def intro: la_submit_tracks modify_tracks elim: tracks_cong split: if_splits)


text \<open>What the exception means: after a level-2 snapshot that lists nothing the book is empty, and a bar that reaches the price of a tracked order
  still fills it there, although it no longer rests anywhere.\<close>

lemma snapshot_leaves_order_to_sweep:
  assumes "la_resting a = [(i, ri)]" "ri_symbol ri = sy" "la_cancels a = []" "0 < low" "low \<le> high"
    and "traversed low high (ri_side ri) (price_to_double (ord_price (ob_store (la_book a) (ri_order ri))))" "\<not> left_over (ri_order ri) a \<le> 0"
    and "apply_l2_snapshot [] [] (la_book a, c) = (b, c')"
  shows "linked b = {} \<and> (\<exists>f a'. sweep_resting_range sy low high ts (a\<lparr>la_book := b\<rparr>) = (True, a') \<and> la_fills a' = la_fills a @ [f] \<and> fe_order_id f = i)"
proof -
  have h: "0 < high" "\<not> high < low" using assms(4,5) by (auto intro: dless_le_trans dest: dless_le_trans)
  have b: "b = clear (la_book a)" using assms(8) by (simp add: apply_l2_snapshot_def)
  have "linked b = {}" "ob_store b = ob_store (la_book a)" by (simp_all add: b clear_def linked_def)
  with h assms(1-7) show ?thesis
    by (simp add: sweep_resting_range_def sweep_one_def Let_def drop_resting_def mk_fill_event_def left_over_def scaled_def)
qed

text \<open>Trades that reach no fill event. A modified order leaves the table, so nothing is recorded when it trades later; and when a submission sets off a trade between two
  other orders, as on the crossed book an amendment can leave, only the bid's side of it is looked up.\<close>

lemma modified_order_fills_unreported:
  assumes "la_modify_order i px q a = Some (r, a')" "ti_order_id ti = i"
  shows "record_resting_fill ts ti a' = a'"
  using assms by (auto simp: la_modify_order_def record_resting_fill_def delete_conv' split: option.splits prod.splits)

lemma third_party_ask_unreported:
  assumes "ti_order_id (bid_trade t) \<noteq> oe_order_id o1" "ti_order_id (ask_trade t) \<noteq> oe_order_id o1" "map_of (la_resting a) (ti_order_id (bid_trade t)) = None"
  shows "submit_trade o1 n now fade t a = a"
  using assms by (simp add: submit_trade_def record_resting_fill_def Let_def)

subsection \<open>Prices of fills\<close>

definition taker_fill :: "order_event \<Rightarrow> trade_info \<Rightarrow> fill_event \<Rightarrow> bool" where
  "taker_fill o1 ti f \<longleftrightarrow> fe_order_id f = oe_order_id o1 \<and> fe_side f = oe_side o1 \<and> fe_fill_price f = price_to_double (ti_price ti)"

definition maker_fill :: "(order_id, resting_info) umap \<Rightarrow> trade_info \<Rightarrow> fill_event \<Rightarrow> bool" where
  "maker_fill R ti f \<longleftrightarrow> fe_order_id f = ti_order_id ti \<and> fe_fill_price f = price_to_double (ti_price ti) \<and>
     (\<exists>ri. (ti_order_id ti, ri) \<in> set R \<and> fe_side f = ri_side ri)"

lemma submit_trade_fills:
  assumes "ti_order_id (own_leg s t) = oe_order_id o1" "ti_order_id (other_leg s t) \<noteq> oe_order_id o1"
  shows "\<exists>fs. la_fills (submit_trade o1 n now fade t a) = la_fills a @ fs \<and>
    (\<forall>f\<in>set fs. taker_fill o1 (other_leg s t) f \<or> maker_fill (la_resting a) (other_leg s t) f)"
proof -
  let ?r = "record_resting_fill (oe_earliest_eligible_ts o1) (other_leg s t) a"
  obtain fs where r: "la_fills ?r = la_fills a @ fs" "\<forall>f\<in>set fs. maker_fill (la_resting a) (other_leg s t) f"
    using record_fills [of "oe_earliest_eligible_ts o1" "other_leg s t" a] by (auto simp: maker_fill_def)
  have "\<exists>gs. la_fills (our_fill o1 n now fade (own_leg s t) (other_leg s t) ?r) = la_fills ?r @ gs \<and>
      (\<forall>f\<in>set gs. taker_fill o1 (other_leg s t) f)"
    by (simp add: our_fill_def Let_def taker_fill_def mk_fill_event_def)
  then show ?thesis unfolding submit_trade_legs [OF assms] using r by fastforce
qed

lemma submit_fold_fills:
  assumes "\<And>t. t \<in> set ts \<Longrightarrow> ti_order_id (own_leg s t) = oe_order_id o1 \<and> ti_order_id (other_leg s t) \<noteq> oe_order_id o1"
    and "set (la_resting a) \<subseteq> set R"
  shows "\<exists>fs. la_fills (fold (submit_trade o1 n now fade) ts a) = la_fills a @ fs \<and>
    (\<forall>f\<in>set fs. \<exists>t\<in>set ts. taker_fill o1 (other_leg s t) f \<or> maker_fill R (other_leg s t) f)"
  using assms
proof (induction ts arbitrary: a)
  case (Cons t ts)
  let ?a = "submit_trade o1 n now fade t a"
  have l: "ti_order_id (own_leg s t) = oe_order_id o1" "ti_order_id (other_leg s t) \<noteq> oe_order_id o1" using Cons.prems(1) by simp_all
  obtain fs where f: "la_fills ?a = la_fills a @ fs"
      "\<forall>f\<in>set fs. taker_fill o1 (other_leg s t) f \<or> maker_fill (la_resting a) (other_leg s t) f"
    using submit_trade_fills [OF l] by blast
  have "set (la_resting ?a) \<subseteq> set R" using record_subset Cons.prems(2) unfolding submit_trade_legs [OF l] by fastforce
  with Cons.IH [of ?a] Cons.prems(1) obtain gs where g: "la_fills (fold (submit_trade o1 n now fade) ts ?a) = la_fills ?a @ gs"
      "\<forall>f\<in>set gs. \<exists>t\<in>set ts. taker_fill o1 (other_leg s t) f \<or> maker_fill R (other_leg s t) f" by auto
  have "maker_fill R (other_leg s t) f" if "maker_fill (la_resting a) (other_leg s t) f" for f
    using that Cons.prems(2) by (auto simp: maker_fill_def)
  with f g show ?case by (intro exI [of _ "fs @ gs"]) auto
qed simp

text \<open>On an uncrossed book the trades of a submission are between the submitted order and resting ones, at prices it accepts.\<close>

lemma submit_legs:
  assumes ok: "book_ok (la_book a)" "uncrossed (la_book a)" and new: "order_map (la_book a) oid = None"
    and c: "create_order (mk_order ty oid sd p q) (la_book a) = (n, b)" and r: "add_order n b = Inr (b', ts)" and t: "t \<in> set ts"
  shows "ti_order_id (own_leg sd t) = oid \<and> (\<exists>k\<in>linked b. ti_order_id (other_leg sd t) = ord_id (ob_store b k) \<and>
      ord_id (ob_store b k) \<noteq> oid \<and> ti_price (other_leg sd t) = ord_price (ob_store b k) \<and> crosses sd p (ord_price (ob_store b k)))"
proof -
  note k = create_order_ok [OF ok(1) c]
  have st: "ob_store b n = mk_order ty oid sd p q" using k(6) by simp
  have "bid_levels b = bid_levels (la_book a)" "ask_levels b = ask_levels (la_book a)" using c by (auto simp: create_order_def)
  then have u: "uncrossed b" using ok(2) by (simp add: uncrossed_def)
  have "n < ob_next_ref b" using k(1,7) by simp
  from add_order_legs [OF k(8) u this r t] show ?thesis by (simp add: st)
qed

lemma la_submit_error:
  assumes "la_ok a" "la_submit_order o1 draw now a = Inl e"
  shows "e = Undefined_Conversion"
proof -
  have "e \<noteq> Book_Exception x" for x
  proof
    assume "e = Book_Exception x"
    with assms(2) obtain n b p q where c: "create_order (mk_order (book_type (oe_tif o1)) (oe_order_id o1) (book_side (oe_side o1)) p q)
        (la_book a) = (n, b)" "add_order n b = Inl x"
      by (auto simp: la_submit_order_def Let_def split: if_splits option.splits sum.splits prod.splits)
    have "book_ok (la_book a)" using assms(1) by (simp add: la_ok_def)
    note k = create_order_ok [OF this c(1)]
    have "n < ob_next_ref b" using k(1,7) by simp
    from add_order_cases [OF k(8) this] c(2) show False by auto
  qed
  then show ?thesis by (cases e) auto
qed

text \<open>Submitting an order with an id that is not in use never raises the book's overfill exception, and every fill it
  causes is honest: a fill of the submitted order itself is priced at a resting order's price, which is not worse than the
  price submitted to the book, and any other fill belongs to a tracked resting order.\<close>

theorem local_submit_fills_within_limit:
  assumes "la_ok a" "order_map (la_book a) (oe_order_id o1) = None"
  shows "case la_submit_order o1 draw now a of Inl e \<Rightarrow> e = Undefined_Conversion
    | Inr a' \<Rightarrow> \<exists>fs. la_fills a' = la_fills a @ fs \<and> (\<forall>f\<in>set fs.
        if fe_order_id f = oe_order_id o1
        then fe_side f = oe_side o1 \<and> (\<exists>p x. submit_price o1 a = Some p \<and> fe_fill_price f = price_to_double x \<and>
               (if oe_side o1 = Buy then x \<le> p else p \<le> x))
        else \<exists>ri. (fe_order_id f, ri) \<in> set (la_resting a) \<and> fe_side f = ri_side ri)"
proof (cases "la_submit_order o1 draw now a")
  case (Inl e)
  with la_submit_error [OF assms(1)] show ?thesis by simp
next
  case (Inr a')
  from Inr show ?thesis
  proof (cases rule: submit_cases)
    case skip
    with Inr show ?thesis by auto
  next
    case (book p q n b b' ts)
    let ?s = "book_side (oe_side o1)" and ?R = "(oe_order_id o1, \<lparr>ri_order = n, ri_symbol = oe_symbol o1, ri_side = oe_side o1\<rparr>) # la_resting a"
    have A: "book_ok (la_book a)" "uncrossed (la_book a)" using assms(1) by (simp_all add: la_ok_def)
    note B = submit_legs [OF A assms(2) book(2,3)]
    have legs: "ti_order_id (own_leg ?s t) = oe_order_id o1 \<and> ti_order_id (other_leg ?s t) \<noteq> oe_order_id o1" if "t \<in> set ts" for t
      using B [OF that] by auto
    let ?a2 = "if book_type (oe_tif o1) = Good_Till_Cancel \<and> remaining_quantity (ob_store b' n) > 0
        then a\<lparr>la_book := b', la_resting := AList.update (oe_order_id o1)
          \<lparr>ri_order = n, ri_symbol = oe_symbol o1, ri_side = oe_side o1\<rparr> (la_resting a)\<rparr> else a\<lparr>la_book := b'\<rparr>"
    have "set (la_resting ?a2) \<subseteq> set ?R" by (auto dest: alist_update_set)
    moreover have "la_fills ?a2 = la_fills a" by simp
    ultimately have "\<exists>fs. la_fills a' = la_fills a @ fs \<and>
        (\<forall>f\<in>set fs. \<exists>t\<in>set ts. taker_fill o1 (other_leg ?s t) f \<or> maker_fill ?R (other_leg ?s t) f)"
      unfolding book(4) using submit_fold_fills [of ts ?s o1 ?a2 ?R, OF legs] by metis
    then obtain fs where fs: "la_fills a' = la_fills a @ fs"
        "\<And>f. f \<in> set fs \<Longrightarrow> \<exists>t\<in>set ts. taker_fill o1 (other_leg ?s t) f \<or> maker_fill ?R (other_leg ?s t) f" by blast
    have "if fe_order_id f = oe_order_id o1
        then fe_side f = oe_side o1 \<and> (\<exists>p x. submit_price o1 a = Some p \<and> fe_fill_price f = price_to_double x \<and>
               (if oe_side o1 = Buy then x \<le> p else p \<le> x))
        else \<exists>ri. (fe_order_id f, ri) \<in> set (la_resting a) \<and> fe_side f = ri_side ri" if f: "f \<in> set fs" for f
    proof -
      from fs(2) [OF f] obtain t where t: "t \<in> set ts" "taker_fill o1 (other_leg ?s t) f \<or> maker_fill ?R (other_leg ?s t) f" by blast
      have "crosses ?s p (ti_price (other_leg ?s t))" using B [OF t(1)] by auto
      then show ?thesis using t(2) legs [OF t(1)] book(1)
        by (auto simp: taker_fill_def maker_fill_def crosses_def book_side_def split: order_side.splits)
    qed
    with fs(1) show ?thesis unfolding Inr sum.case by blast
  qed
qed

subsection \<open>Bar traversal\<close>

lemma sweep_one_fills:
  "\<exists>fs. la_fills (snd (sweep_one sy lo hi ts e x)) = la_fills (snd x) @ fs \<and>
     (\<forall>f\<in>set fs. fe_order_id f = fst e \<and> fe_fill_price f = price_to_double (ord_price (ob_store (la_book (snd x)) (ri_order (snd e)))) \<and>
        traversed lo hi (ri_side (snd e)) (fe_fill_price f))"
  by (cases x; cases e) (auto simp: sweep_one_def Let_def drop_resting_def mk_fill_event_def)

text \<open>The traversal test looks at one end of the bar only, so a buy limit above the bar's high is filled at its limit, a price
  at which the bar did not trade.\<close>

lemma sweep_fills_outside_bar:
  assumes "la_resting a = [(i, ri)]" "ri_symbol ri = sy" "ri_side ri = Buy" "la_cancels a = []" "0 < low" "low \<le> high"
    and "high < price_to_double (ord_price (ob_store (la_book a) (ri_order ri)))" "\<not> left_over (ri_order ri) a \<le> 0"
  shows "\<exists>f a'. sweep_resting_range sy low high ts a = (True, a') \<and> la_fills a' = la_fills a @ [f] \<and> high < fe_fill_price f"
proof -
  have "0 < high" "\<not> high < low" using assms(5,6) by (auto intro: dless_le_trans dest: dless_le_trans)
  moreover have "low \<le> price_to_double (ord_price (ob_store (la_book a) (ri_order ri)))"
    using dle_less_trans [OF assms(6,7)] by (rule dless_imp_le)
  ultimately show ?thesis using assms
    by (simp add: sweep_resting_range_def sweep_one_def Let_def traversed_def drop_resting_def mk_fill_event_def)
qed

subsection \<open>Examples\<close>

definition local_demo :: local_adapter where
  "local_demo = mk_local_adapter sample_book None None None (lit (11 / 10)) 1 False"

definition limit_demo :: order_event where
  "limit_demo = (mk_order_event 5 ''BTCUSDT'' OT_Limit Buy (dint 9) (price_to_double 102) TIF_GTC 0)\<lparr>oe_order_id := 5\<rparr>"

lemma local_demo_ok: "la_ok local_demo"
  using sample_ok sample_gtc by (simp add: la_ok_def local_demo_def mk_local_adapter_def)

lemma demo_quantity: "u64_of_double (fround (dint 9 * 1)) = Some 9"
  using dint_ieee [of 9] round_away_near [of 9 9] by (simp add: dmul_one) (simp add: dint_def u64_of_double_def)

lemma local_demo_new: "order_map (la_book local_demo) (oe_order_id limit_demo) = None"
  by (simp add: local_demo_def limit_demo_def mk_local_adapter_def mk_order_event_def sample_book_def)

text \<open>The buy of 9 at 102 takes the 7 offered at 102 and rests with 2.\<close>

lemma demo_trades:
  "case create_order (mk_order Good_Till_Cancel 5 Side_Buy 102 9) sample_book of (n, b) \<Rightarrow>
     n = 7 \<and> map_sum (\<lambda>e. e) (\<lambda>(b', ts). (remaining_quantity (ob_store b' 7), ts)) (add_order n b) =
     Inr (2, [\<lparr>bid_trade = \<lparr>ti_order_id = 5, ti_price = 102, ti_quantity = 7\<rparr>, ask_trade = \<lparr>ti_order_id = 3, ti_price = 102, ti_quantity = 7\<rparr>\<rparr>])"
  by code_simp

lemma single_fill:
  assumes "map_of (la_resting a) (ti_order_id (ask_trade t)) = None" "ti_order_id (bid_trade t) = oe_order_id o1"
  shows "\<exists>f. la_fills (submit_trade o1 n now 0 t a) = la_fills a @ [f] \<and> fe_order_id f = oe_order_id o1"
    "la_resting (submit_trade o1 n now 0 t a) = la_resting a" "la_book (submit_trade o1 n now 0 t a) = la_book a"
proof -
  have "record_resting_fill ts (ask_trade t) a = a" for ts using assms(1) by (simp add: record_resting_fill_def)
  then show "\<exists>f. la_fills (submit_trade o1 n now 0 t a) = la_fills a @ [f] \<and> fe_order_id f = oe_order_id o1"
    "la_resting (submit_trade o1 n now 0 t a) = la_resting a" "la_book (submit_trade o1 n now 0 t a) = la_book a"
    using assms(2) by (simp_all add: submit_trade_def our_fill_def Let_def mk_fill_event_def)
qed

lemma local_demo_fill:
  obtains a f where "la_submit_order limit_demo 0 0 local_demo = Inr a" "la_fills a = [f]" "fe_order_id f = 5"
    "la_resting a = [(5, \<lparr>ri_order = 7, ri_symbol = ''BTCUSDT'', ri_side = Buy\<rparr>)]" "remaining_quantity (ob_store (la_book a) 7) = 2"
proof -
  let ?t = "\<lparr>bid_trade = \<lparr>ti_order_id = 5, ti_price = 102, ti_quantity = 7\<rparr>, ask_trade = \<lparr>ti_order_id = 3, ti_price = 102, ti_quantity = 7\<rparr>\<rparr>"
  obtain b where c: "create_order (mk_order Good_Till_Cancel 5 Side_Buy 102 9) sample_book = (7, b)" using demo_trades by (auto split: prod.splits)
  obtain b' where r: "add_order 7 b = Inr (b', [?t])" "remaining_quantity (ob_store b' 7) = 2" using demo_trades c by (cases "add_order 7 b") auto
  have l: "oe_order_id limit_demo = 5" "oe_order_type limit_demo = OT_Limit" "oe_side limit_demo = Buy" "oe_tif limit_demo = TIF_GTC"
    "oe_quantity limit_demo = dint 9" "oe_price limit_demo = price_to_double 102" "oe_symbol limit_demo = ''BTCUSDT''"
    by (simp_all add: limit_demo_def mk_order_event_def)
  have d: "la_book local_demo = sample_book" "la_fill_model local_demo = None" "la_qty_scale local_demo = 1" "la_resting local_demo = []"
    "la_fills local_demo = []" by (simp_all add: local_demo_def mk_local_adapter_def)
  let ?e = "\<lparr>ri_order = 7, ri_symbol = ''BTCUSDT'', ri_side = Buy\<rparr>"
  let ?a = "local_demo\<lparr>la_book := b', la_resting := [(5, ?e)]\<rparr>"
  have "la_submit_order limit_demo 0 0 local_demo = Inr (submit_trade limit_demo 7 0 0 ?t ?a)"
    using price_roundtrip [of 102] demo_quantity c r
    by (simp add: la_submit_order_def l d unlucky_def submit_price_def book_type_def book_side_def Let_def)
  moreover have m: "map_of (la_resting ?a) (ti_order_id (ask_trade ?t)) = None" "la_fills ?a = []" by (simp_all add: d)
  moreover obtain f where "la_fills (submit_trade limit_demo 7 0 0 ?t ?a) = la_fills ?a @ [f]" "fe_order_id f = 5"
    using single_fill(1) [OF m(1), of limit_demo 7 0] l(1) by auto
  ultimately show thesis using that single_fill(2,3) [OF m(1), of limit_demo 7 0] l(1) r(2) by simp
qed


theorem local_submit_fills_within_limit_witness:
  "la_ok local_demo \<and> (\<exists>a f x. la_submit_order limit_demo 0 0 local_demo = Inr a \<and> la_fills a = [f] \<and> fe_side f = Buy \<and>
     fe_fill_price f = price_to_double x \<and> x \<le> 102)"
proof (rule local_demo_fill)
  fix a f assume a: "la_submit_order limit_demo 0 0 local_demo = Inr a" "la_fills a = [f]" "fe_order_id f = 5"
  have l: "oe_order_id limit_demo = 5" "oe_side limit_demo = Buy" "submit_price limit_demo local_demo = Some 102" "la_fills local_demo = []"
    using price_roundtrip [of 102] by (simp_all add: limit_demo_def mk_order_event_def submit_price_def local_demo_def mk_local_adapter_def)
  from local_submit_fills_within_limit [OF local_demo_ok local_demo_new, of 0 0] a l local_demo_ok show ?thesis by auto
qed

end
