(* ===== verification/Market_Maker.thy ===== *)
theory Market_Maker
  imports Local_Adapter
begin

text \<open>
  The synthetic market maker of bar and tick backtests, \<open>src/market_maker/market_maker.h\<close> and \<open>market_maker.cpp\<close>: the calibrated ladder of
  quotes around a price, widened by the volatility of recent prices, and its replacement on an order book.

  Quote ids are drawn from the process-wide counter, which is passed along with the book. The live quotes of a book are keyed by its symbol.
  The uniform draws of \<open>add_orders\<close> are its argument. The depth of a level, \<open>base_depth_ * i\<close>, is an integer without bound; in the code it is an
  \<open>int\<close>, undefined from \<open>2 ^ 31\<close> on (the default calibration reaches 1000).
\<close>

record mm_order =
  mo_side :: order_side
  mo_price :: double
  mo_quantity :: double

record mm_calibration =
  mc_levels_per_side :: int
  mc_base_depth :: int
  mc_base_spread_pct :: double
  mc_vol_spread_mult :: double
  mc_max_half_spread_pct :: double

record market_maker =
  mm_calib :: mm_calibration
  mm_price_history :: "double list"
  mm_live_quotes :: "(symbol, order_id list) umap"

definition mk_market_maker :: market_maker where
  "mk_market_maker = \<lparr>mm_calib = \<lparr>mc_levels_per_side = 10, mc_base_depth = 100, mc_base_spread_pct = lit (2 / 1000),
     mc_vol_spread_mult = lit (1 / 4), mc_max_half_spread_pct = lit (5 / 100)\<rparr>, mm_price_history = [], mm_live_quotes = []\<rparr>"

definition set_calibration :: "mm_calibration \<Rightarrow> market_maker \<Rightarrow> market_maker" where
  "set_calibration c m = m\<lparr>mm_calib := c\<rparr>"

definition mm_reset :: "market_maker \<Rightarrow> market_maker" where
  "mm_reset m = m\<lparr>mm_price_history := [], mm_live_quotes := []\<rparr>"

definition volatility_window :: nat where "volatility_window = 50"

fun bar_returns :: "double list \<Rightarrow> double list" where
  "bar_returns (x # y # zs) = (if x > 0 then [(y - x) / x] else []) @ bar_returns (y # zs)"
| "bar_returns _ = []"

definition compute_volatility :: "market_maker \<Rightarrow> double" where
  "compute_volatility m =
     (let rs = bar_returns (mm_price_history m); n = double_of_i64 (int (length rs)) in
      if length (mm_price_history m) < 2 \<or> rs = [] then 0
      else let mean = foldl (+) 0 rs / n; sq_sum = foldl (\<lambda>s r. s + (r - mean) * (r - mean)) 0 rs in fsqrt (sq_sum / n))"

definition half_spread :: "market_maker \<Rightarrow> double" where
  "half_spread m = std_min (mc_base_spread_pct (mm_calib m) + compute_volatility m * mc_vol_spread_mult (mm_calib m))
     (mc_max_half_spread_pct (mm_calib m))"

text \<open>The quotes of level \<open>i\<close>; \<open>None\<close> when the conversion of the bid to a price is undefined.\<close>

definition level_quotes :: "mm_calibration \<Rightarrow> double \<Rightarrow> double \<Rightarrow> int \<Rightarrow> mm_order list option" where
  "level_quotes c px half i =
     (let distance = half * dint i; bid = px * (1 - distance); ask = px * (1 + distance); depth = double_of_i64 (mc_base_depth c * i)
      in case price_from_double bid of None \<Rightarrow> None
         | Some p \<Rightarrow> Some ((if p > 0 then [\<lparr>mo_side = Buy, mo_price = bid, mo_quantity = depth\<rparr>] else []) @
             [\<lparr>mo_side = Sell, mo_price = ask, mo_quantity = depth\<rparr>]))"

fun ladder :: "mm_calibration \<Rightarrow> double \<Rightarrow> double \<Rightarrow> int list \<Rightarrow> mm_order list option" where
  "ladder c px half [] = Some []"
| "ladder c px half (i # is) = (case level_quotes c px half i of None \<Rightarrow> None
     | Some os \<Rightarrow> map_option (\<lambda>os'. os @ os') (ladder c px half is))"

definition note_price :: "double \<Rightarrow> market_maker \<Rightarrow> market_maker" where
  "note_price px m = (let h = mm_price_history m @ [px] in m\<lparr>mm_price_history := (if length h > volatility_window then tl h else h)\<rparr>)"

definition compute_replenish :: "double \<Rightarrow> bool \<Rightarrow> market_maker \<Rightarrow> (mm_order list \<times> market_maker) option" where
  "compute_replenish px update_history m =
     (if px \<le> 0 then Some ([], m)
      else let m1 = (if update_history then note_price px m else m)
           in map_option (\<lambda>os. (os, m1)) (ladder (mm_calib m1) px (half_spread m1) [1..mc_levels_per_side (mm_calib m1)]))"

text \<open>Inserting the quotes: the book with the id counter, the trades so far and the ids so far.\<close>

fun place_quotes :: "mm_order list \<Rightarrow> orderbook \<times> u64 \<Rightarrow> trade list \<times> order_id list \<Rightarrow>
    adapter_error + (orderbook \<times> u64) \<times> trade list \<times> order_id list" where
  "place_quotes [] bc acc = Inr (bc, acc)"
| "place_quotes (mo # mos) (b, c) (ts, live) =
     (case (price_from_double (mo_price mo), u64_of_double (fround (mo_quantity mo * Fin 100000000))) of
        (Some p, Some q) \<Rightarrow>
          (let (i, c') = order_id_next c; (n, b1) = create_order (mk_order Good_Till_Cancel i (book_side (mo_side mo)) p q) b
           in case add_order n b1 of Inl e \<Rightarrow> Inl (Book_Exception e)
              | Inr (b2, trs) \<Rightarrow> place_quotes mos (b2, c') (ts @ trs, live @ [i]))
      | _ \<Rightarrow> Inl Undefined_Conversion)"

definition live_of :: "symbol \<Rightarrow> market_maker \<Rightarrow> order_id list" where
  "live_of sy m = (case map_of (mm_live_quotes m) sy of None \<Rightarrow> [] | Some is \<Rightarrow> is)"

definition replenish :: "symbol \<Rightarrow> double \<Rightarrow> bool \<Rightarrow> market_maker \<Rightarrow> orderbook \<times> u64 \<Rightarrow>
    adapter_error + trade list \<times> market_maker \<times> orderbook \<times> u64" where
  "replenish sy px update_history m bc =
     (let pulled = fold cancel_order (live_of sy m) (fst bc) in
      case compute_replenish px update_history m of None \<Rightarrow> Inl Undefined_Conversion
      | Some (os, m1) \<Rightarrow>
         (case place_quotes os (pulled, snd bc) ([], []) of Inl e \<Rightarrow> Inl e
          | Inr ((b, c), ts, live) \<Rightarrow> Inr (ts, m1\<lparr>mm_live_quotes := AList.update sy live (mm_live_quotes m1)\<rparr>, b, c)))"

text \<open>\<open>add_orders\<close>: one buy and one sell of 100 units around the price per draw; these are not tracked as live quotes.\<close>

fun add_orders :: "double \<Rightarrow> double list \<Rightarrow> orderbook \<times> u64 \<Rightarrow> adapter_error + orderbook \<times> u64" where
  "add_orders px [] bc = Inr bc"
| "add_orders px (spread # ds) (b, c) =
     (case (price_from_double (px * (1 - spread)), price_from_double (px * (1 + spread))) of
        (Some bp, Some sp) \<Rightarrow>
          (let (i, c1) = order_id_next c; (nb, b1) = create_order (mk_order Good_Till_Cancel i Side_Buy bp 10000000000) b;
               (j, c2) = order_id_next c1; (ns, b2) = create_order (mk_order Good_Till_Cancel j Side_Sell sp 10000000000) b1
           in case add_order nb b2 of Inl e \<Rightarrow> Inl (Book_Exception e)
              | Inr (b3, _) \<Rightarrow> (case add_order ns b3 of Inl e \<Rightarrow> Inl (Book_Exception e) | Inr (b4, _) \<Rightarrow> add_orders px ds (b4, c2)))
      | _ \<Rightarrow> Inl Undefined_Conversion)"

subsection \<open>Quotes bracket the price\<close>

definition nn :: "double \<Rightarrow> bool" where "nn x \<longleftrightarrow> x = NaN \<or> 0 \<le> x"

lemma nn_ops:
  "nn a \<Longrightarrow> nn b \<Longrightarrow> nn (a + b)" "nn a \<Longrightarrow> nn b \<Longrightarrow> nn (a * b)" "nn (a * a)" "nn a \<Longrightarrow> 0 < b \<Longrightarrow> nn (a / b)" "nn a \<Longrightarrow> 0 \<le> b \<Longrightarrow> nn (std_min a b)"
proof -
  have r: "nn (rnd q)" if "0 \<le> q" for q using rnd_nonneg [OF that] by (simp add: nn_def)
  show "nn a \<Longrightarrow> nn b \<Longrightarrow> nn (a + b)" using r by (cases a; cases b) (auto simp: nn_def double_defs)
  show "nn a \<Longrightarrow> nn b \<Longrightarrow> nn (a * b)" using r by (cases a; cases b) (auto simp: nn_def double_defs)
  show "nn (a * a)" using r [of "x * x" for x] by (cases a) (auto simp: nn_def double_defs)
  show "nn a \<Longrightarrow> 0 < b \<Longrightarrow> nn (a / b)" using r by (cases a; cases b) (auto simp: nn_def double_defs)
  show "nn a \<Longrightarrow> 0 \<le> b \<Longrightarrow> nn (std_min a b)" by (simp add: nn_def std_min_def)
qed

lemma nn_foldl: "nn s \<Longrightarrow> nn (foldl (\<lambda>s r. s + (r - m) * (r - m)) s rs)"
  by (induction rs arbitrary: s) (simp_all add: nn_ops)

lemma nn_sqrt: "nn a \<Longrightarrow> nn (fsqrt a)"
  using fsqrt_nonneg [of a] by (cases "a = NaN") (auto simp: nn_def fsqrt_def)

lemma count_positive: "0 < n \<Longrightarrow> 0 < double_of_i64 (int n)"
proof -
  assume "0 < n"
  then have "(1::rat) \<le> of_int (int n)" by simp
  then have "Fin 1 \<le> rnd (of_int (int n))" by (intro rnd_ge_fixed) (simp_all add: one_double_def [symmetric])
  moreover have "0 < Fin 1" by (simp add: zero_double_def)
  ultimately show ?thesis unfolding double_of_i64_def by (rule dless_le_trans [rotated])
qed

lemma nn_volatility: "nn (compute_volatility m)"
  unfolding compute_volatility_def Let_def
  by (auto intro!: nn_sqrt nn_ops(4) nn_foldl count_positive) (simp_all add: nn_def zero_double_def)

lemma nn_half_spread:
  assumes "0 \<le> mc_base_spread_pct (mm_calib m)" "0 \<le> mc_vol_spread_mult (mm_calib m)" "0 \<le> mc_max_half_spread_pct (mm_calib m)"
  shows "nn (half_spread m)"
  unfolding half_spread_def using assms by (intro nn_ops(1,2,5) nn_volatility) (simp_all add: nn_def)

definition brackets :: "double \<Rightarrow> mm_order \<Rightarrow> bool" where
  "brackets px mo \<longleftrightarrow> (case mo_side mo of Buy \<Rightarrow> mo_price mo \<le> px | Sell \<Rightarrow> px \<le> mo_price mo)"

lemma level_brackets:
  assumes "0 < px" "ieee px" "isfinite px" "nn half" "1 \<le> i" "level_quotes c px half i = Some os"
  shows "list_all (brackets px) os"
proof -
  let ?d = "half * dint i"
  have "nn ?d" using assms(4,5) by (intro nn_ops(2)) (auto simp: nn_def dint_zero)
  moreover have "?d \<noteq> NaN"
  proof
    assume "?d = NaN"
    then have "px * (1 - ?d) = NaN" using assms(1) by (cases px) (simp_all add: double_defs)
    then show False using assms(6) by (simp add: level_quotes_def price_from_double_def llround_def double_defs Let_def)
  qed
  ultimately have d: "0 \<le> ?d" by (simp add: nn_def)
  have "1 - ?d \<le> 1" using d by (intro dsub_le) simp_all
  moreover have "1 \<le> 1 + ?d" using d by (intro dadd_ge) simp_all
  ultimately have "px * (1 - ?d) \<le> px" "px \<le> px * (1 + ?d)" using assms(1-3) dmul_le dmul_ge by blast+
  then show ?thesis using assms(6) by (auto simp: level_quotes_def Let_def brackets_def split: option.splits)
qed

lemma ladder_brackets:
  assumes "0 < px" "ieee px" "isfinite px" "nn half" "ladder c px half is = Some os" "list_all (\<lambda>i. 1 \<le> i) is"
  shows "list_all (brackets px) os"
  using assms(5,6)
proof (induction "is" arbitrary: os)
  case (Cons i "is")
  then obtain xs ys where "level_quotes c px half i = Some xs" "ladder c px half is = Some ys" "os = xs @ ys" by (auto split: option.splits)
  with Cons level_brackets [OF assms(1-4), of i c xs] show ?case by simp
qed simp

subsection \<open>One ladder per book\<close>

lemma add_new_index:
  assumes "book_ok b" "create_order ord b = (n, b1)" "add_order n b1 = Inr (b2, ts)" "order_map b i = None" "i \<noteq> ord_id ord"
  shows "order_map b2 i = None"
proof (rule ccontr)
  assume "order_map b2 i \<noteq> None"
  then obtain k where k: "order_map b2 i = Some k" by auto
  note c = create_order_ok [OF assms(1,2)]
  have n: "n < ob_next_ref b1" using c(1,7) by simp
  note l = linked_index [OF add_created_ok [OF assms(1-3)] k]
  note f = add_order_frame [OF c(8) n assms(3)]
  have "ord_id (ob_store b1 k) = i" using l f(2) [of k] by (simp add: same_terms_def)
  moreover have "k = n \<or> k \<in> linked b" using l f(1) c(3) by auto
  ultimately show False
  proof (elim disjE)
    assume "k \<in> linked b"
    then have "k \<noteq> n" using c(2) by auto
    with \<open>ord_id (ob_store b1 k) = i\<close> have "ord_id (ob_store b k) = i" using c(6) by simp
    with index_linked [OF assms(1) \<open>k \<in> linked b\<close>] assms(4) show False by simp
  qed (use c(6) assms(5) in auto)
qed

lemma add_created_returns:
  assumes "book_ok b" "create_order ord b = (n, b1)"
  shows "\<exists>b2 ts. add_order n b1 = Inr (b2, ts)"
proof -
  note k = create_order_ok [OF assms]
  have "n < ob_next_ref b1" using k(1,7) by simp
  with k(8) show ?thesis by (cases rule: add_order_cases) auto
qed

lemma place_quotes_ok:
  assumes "place_quotes mos (b, c) (ts, live) = Inr ((b', c'), ts', live')" "book_ok b"
  shows "book_ok b' \<and> live' = live @ map (\<lambda>k. c + of_nat k) [0..<length mos] \<and> c' = c + of_nat (length mos) \<and>
    (\<forall>i. order_map b i = None \<longrightarrow> i \<notin> set (map (\<lambda>k. c + of_nat k) [0..<length mos]) \<longrightarrow> order_map b' i = None)"
  using assms
proof (induction mos arbitrary: b c ts live)
  case (Cons mo mos)
  obtain p q where pq: "price_from_double (mo_price mo) = Some p" "u64_of_double (fround (mo_quantity mo * Fin 100000000)) = Some q"
    using Cons.prems(1) by (auto split: option.splits)
  obtain n b1 where cr: "create_order (mk_order Good_Till_Cancel c (book_side (mo_side mo)) p q) b = (n, b1)" by fastforce
  obtain b2 trs where ad: "add_order n b1 = Inr (b2, trs)" "place_quotes mos (b2, c + 1) (ts @ trs, live @ [c]) = Inr ((b', c'), ts', live')"
    using Cons.prems(1) pq cr by (auto simp: order_id_next_def split: sum.splits)
  note ih = Cons.IH [OF ad(2) add_created_ok [OF Cons.prems(2) cr ad(1)]]
  have ids: "map (\<lambda>k. c + of_nat k) [0..<length (mo # mos)] = c # map (\<lambda>k. c + 1 + of_nat k) [0..<length mos]"
    by (simp add: upt_conv_Cons map_Suc_upt [symmetric] del: upt_Suc)
  have "order_map b2 i = None" if "order_map b i = None" "i \<noteq> c" for i using add_new_index [OF Cons.prems(2) cr ad(1) that(1)] that(2) by simp
  then show ?case using ih unfolding ids by auto
qed simp

lemma pull_quotes: "book_ok b \<Longrightarrow> book_ok (fold cancel_order is b) \<and> (\<forall>i. i \<in> set is \<or> order_map b i = None \<longrightarrow> order_map (fold cancel_order is b) i = None)"
  by (induction "is" arbitrary: b) (auto simp: cancel_order_ok)

lemma length_ladder: "ladder c px half is = Some os \<Longrightarrow> length os \<le> 2 * length is"
proof (induction "is" arbitrary: os)
  case (Cons i "is")
  then obtain xs ys where l: "level_quotes c px half i = Some xs" "ladder c px half is = Some ys" "os = xs @ ys" by (auto split: option.splits)
  have "length xs \<le> 2" using l(1) by (auto simp: level_quotes_def Let_def split: option.splits)
  with Cons.IH [OF l(2)] l(3) show ?case by simp
qed simp

lemma compute_replenish_quotes:
  assumes "compute_replenish px upd m = Some (os, m1)"
  shows "mm_calib m1 = mm_calib m" "length os \<le> 2 * nat (mc_levels_per_side (mm_calib m))"
    "0 < px \<Longrightarrow> ieee px \<Longrightarrow> isfinite px \<Longrightarrow> 0 \<le> mc_base_spread_pct (mm_calib m) \<Longrightarrow> 0 \<le> mc_vol_spread_mult (mm_calib m) \<Longrightarrow>
       0 \<le> mc_max_half_spread_pct (mm_calib m) \<Longrightarrow> list_all (brackets px) os"
proof -
  define m2 where "m2 = (if upd then note_price px m else m)"
  have n: "mm_calib m2 = mm_calib m" by (simp add: m2_def note_price_def Let_def)
  have e: "compute_replenish px upd m = (if px \<le> 0 then Some ([], m)
      else map_option (\<lambda>os. (os, m2)) (ladder (mm_calib m) px (half_spread m2) [1..mc_levels_per_side (mm_calib m)]))"
    unfolding compute_replenish_def Let_def m2_def [symmetric] n by (rule refl)
  have c: "px \<le> 0 \<and> os = [] \<and> m1 = m \<or>
    ladder (mm_calib m) px (half_spread m1) [1..mc_levels_per_side (mm_calib m)] = Some os \<and> mm_calib m1 = mm_calib m"
    using assms n unfolding e by (cases "px \<le> 0") auto
  from c show "mm_calib m1 = mm_calib m" by auto
  from c show "length os \<le> 2 * nat (mc_levels_per_side (mm_calib m))" by (auto dest: length_ladder)
  assume a: "0 < px" "ieee px" "isfinite px" "0 \<le> mc_base_spread_pct (mm_calib m)" "0 \<le> mc_vol_spread_mult (mm_calib m)" "0 \<le> mc_max_half_spread_pct (mm_calib m)"
  from c show "list_all (brackets px) os"
  proof (elim disjE conjE)
    assume l: "ladder (mm_calib m) px (half_spread m1) [1..mc_levels_per_side (mm_calib m)] = Some os" "mm_calib m1 = mm_calib m"
    have "nn (half_spread m1)" using a(4-6) l(2) by (intro nn_half_spread) simp_all
    from ladder_brackets [OF a(1-3) this l(1)] show ?thesis by (simp add: list_all_iff)
  qed simp
qed

lemma fresh_ids: "i < c \<Longrightarrow> unat c + n < 2 ^ 64 \<Longrightarrow> k < n \<Longrightarrow> i \<noteq> c + of_nat k" for i c :: u64
proof
  assume a: "i < c" "unat c + n < 2 ^ 64" "k < n" "i = c + of_nat k"
  then have "unat (c + of_nat k) = unat c + k" by (simp add: unat_word_ariths unat_of_nat)
  with a(1,4) show False by (simp add: word_less_nat_alt)
qed

text \<open>C35: Replenishing replaces the ladder: it keeps the book well formed, none of the quotes it placed earlier on the book is still there,
  it tracks exactly the quotes it has just placed, under consecutive new ids, and every new quote is on its own side of the price, a bid not
  above it and an ask not below it.\<close>

theorem replenish_replaces_ladder:
  assumes "book_ok b" "replenish sy px upd m (b, c) = Inr (ts, m', b', c')"
    "list_all (\<lambda>i. i < c) (live_of sy m)" "unat c + 2 * nat (mc_levels_per_side (mm_calib m)) < 2 ^ 64"
  shows "book_ok b' \<and> list_all (\<lambda>i. order_map b' i = None) (live_of sy m) \<and>
    (\<exists>mos. place_quotes mos (fold cancel_order (live_of sy m) b, c) ([], []) = Inr ((b', c'), ts, live_of sy m') \<and>
      live_of sy m' = map (\<lambda>k. c + of_nat k) [0..<length mos] \<and>
      (0 < px \<longrightarrow> ieee px \<longrightarrow> isfinite px \<longrightarrow> 0 \<le> mc_base_spread_pct (mm_calib m) \<longrightarrow> 0 \<le> mc_vol_spread_mult (mm_calib m) \<longrightarrow>
        0 \<le> mc_max_half_spread_pct (mm_calib m) \<longrightarrow> list_all (brackets px) mos))"
proof -
  obtain os m1 live where r: "compute_replenish px upd m = Some (os, m1)"
    "place_quotes os (fold cancel_order (live_of sy m) b, c) ([], []) = Inr ((b', c'), ts, live)" "m' = m1\<lparr>mm_live_quotes := AList.update sy live (mm_live_quotes m1)\<rparr>"
    using assms(2) by (auto simp: replenish_def Let_def split: option.splits sum.splits)
  note q = compute_replenish_quotes [OF r(1)]
  note pl = pull_quotes [OF assms(1), of "live_of sy m"]
  note pq = place_quotes_ok [OF r(2) conjunct1 [OF pl]]
  have live: "live_of sy m' = live" by (simp add: r(3) live_of_def)
  have "order_map b' i = None" if "i \<in> set (live_of sy m)" for i
  proof -
    have "i < c" using that assms(3) by (simp add: list_all_iff)
    moreover have "unat c + length os < 2 ^ 64" using assms(4) q(2) by linarith
    ultimately have "i \<notin> set (map (\<lambda>k. c + of_nat k) [0..<length os])" unfolding set_map image_iff using fresh_ids by force
    with pq pl that show ?thesis by blast
  qed
  then show ?thesis using pq r(2) q(3) live by (intro conjI exI [of _ os]) (simp_all add: list_all_iff)
qed

definition mm_demo :: market_maker where
  "mm_demo = \<lparr>mm_calib = \<lparr>mc_levels_per_side = 1, mc_base_depth = 1, mc_base_spread_pct = 1, mc_vol_spread_mult = 0,
     mc_max_half_spread_pct = 1\<rparr>, mm_price_history = [], mm_live_quotes = [(''BTC'', [1])]\<rparr>"

lemma price_from_dint: "\<bar>k * 10000\<bar> \<le> 2 ^ 53 \<Longrightarrow> price_from_double (dint k) = Some (k * 10000)"
proof -
  assume k: "\<bar>k * 10000\<bar> \<le> 2 ^ 53"
  have "double_of_i64 SCALE = dint 10000" using rnd_int [of 10000] by (simp add: double_of_i64_def SCALE_def dint_def)
  moreover have "round_away (of_int (k * 10000)) = k * 10000" by (rule round_away_near) simp
  ultimately show ?thesis using k dint_ops(3) [of k 10000] by (simp add: price_from_double_def llround_def dint_def) linarith
qed

lemma mm_demo_quotes:
  "compute_replenish (dint 100) False mm_demo = Some ([\<lparr>mo_side = Sell, mo_price = dint 200, mo_quantity = 1\<rparr>], mm_demo)"
proof -
  have "compute_volatility mm_demo = 0" by (simp add: compute_volatility_def mm_demo_def)
  moreover have "0 * 0 = (0::double)" "1 + 0 = (1::double)" "1 - 1 = (0::double)" by (simp_all add: dops_Fin zero_double_def one_double_def)
  ultimately have h: "half_spread mm_demo = 1" by (simp add: half_spread_def mm_demo_def std_min_def)
  have "dint 100 * 0 = 0" "1 + 1 = dint 2" "dint 100 * dint 2 = dint 200" using dint_ops(3) [of 100 0] dint_ops(1) [of 1 1] dint_ops(3) [of 100 2] by simp_all
  moreover have "double_of_i64 1 = 1" by (simp add: double_of_i64_def)
  moreover have "price_from_double 0 = Some 0" using price_from_dint [of 0] by simp
  ultimately show ?thesis using h by (simp add: compute_replenish_def mm_demo_def level_quotes_def Let_def dint_zero)
qed

lemma mm_demo_runs:
  obtains ts m' b' c' where "replenish ''BTC'' (dint 100) False mm_demo (sample_book, 20) = Inr (ts, m', b', c')" "live_of ''BTC'' m' = [20]"
proof -
  have q: "u64_of_double (fround (1 * Fin 100000000)) = Some 100000000"
    using round_away_near [of 100000000 100000000] rnd_int [of 100000000] by (simp add: one_double_def dops_Fin u64_of_double_def)
  have p: "price_from_double (dint 200) = Some 2000000" using price_from_dint [of 200] by simp
  let ?b = "fold cancel_order [1] sample_book"
  obtain n b1 where c: "create_order (mk_order Good_Till_Cancel 20 Side_Sell 2000000 100000000) ?b = (n, b1)" by fastforce
  have ok: "book_ok ?b" using sample_ok by (simp add: cancel_order_ok)
  obtain b2 ts where a: "add_order n b1 = Inr (b2, ts)" using add_created_returns [OF ok c] by blast
  have lv: "live_of ''BTC'' mm_demo = [1]" by (simp add: live_of_def mm_demo_def)
  have pq: "place_quotes [\<lparr>mo_side = Sell, mo_price = dint 200, mo_quantity = 1\<rparr>] (?b, 20) ([], []) = Inr ((b2, 21), ts, [20])"
    using a c by (simp add: p q order_id_next_def book_side_def)
  have "replenish ''BTC'' (dint 100) False mm_demo (sample_book, 20) =
      Inr (ts, mm_demo\<lparr>mm_live_quotes := AList.update ''BTC'' [20] (mm_live_quotes mm_demo)\<rparr>, b2, 21)"
    unfolding replenish_def Let_def lv fst_conv snd_conv mm_demo_quotes option.case prod.case pq sum.case by (rule refl)
  then show thesis by (rule that) (simp add: live_of_def)
qed

lemma replenish_replaces_ladder_witness:
  "\<exists>ts m' b' c'. replenish ''BTC'' (dint 100) False mm_demo (sample_book, 20) = Inr (ts, m', b', c') \<and> order_map b' 1 = None \<and>
     live_of ''BTC'' m' = [20]"
proof -
  obtain ts m' b' c' where r: "replenish ''BTC'' (dint 100) False mm_demo (sample_book, 20) = Inr (ts, m', b', c')" "live_of ''BTC'' m' = [20]"
    by (rule mm_demo_runs)
  have "live_of ''BTC'' mm_demo = [1]" by (simp add: live_of_def mm_demo_def)
  with replenish_replaces_ladder [OF sample_ok r(1)] r show ?thesis by (auto simp: mm_demo_def)
qed

end
