(* ===== verification/Queue_Adapter.thy ===== *)
theory Queue_Adapter
  imports Tape_Adapter
begin

text \<open>
  The queue-position paper adapter, \<open>src/execution/queue_aware_book_adapter.h\<close>. The hash map of orders and the map of
  levels are association lists; a level key holds \<open>llround(price * 1e8)\<close>, which is undefined outside the range of
  \<open>long long\<close>, so the operations that build keys return an option. \<open>now\<close> is the reading of the steady clock a call makes;
  the cancel latency drawn by \<open>cancel_order\<close> is its argument.
\<close>

record paper_order =
  po_id :: order_id
  po_symbol :: symbol
  po_side :: order_side
  po_price :: double
  po_qty :: double
  po_size_ahead :: double
  po_submit_ts :: time_point
  po_strategy :: string
  po_opener :: order_id
  po_recv_ns :: int

record level_state =
  aggregate_size :: double
  trades_since_update :: double

type_synonym level_key = "symbol \<times> order_side \<times> int"

record queue_adapter =
  qa_model :: "queue_model option"
  qa_fee :: "fee_model option"
  qa_orders :: "(order_id, paper_order) umap"
  qa_levels :: "(level_key, level_state) umap"
  qa_fills :: "fill_event list"
  qa_cancels :: "(order_id, time_point) umap"
  qa_time :: time_point
  qa_mid :: double

definition mk_queue_adapter :: "queue_model option \<Rightarrow> fee_model option \<Rightarrow> queue_adapter" where
  "mk_queue_adapter qm fm = \<lparr>qa_model = qm, qa_fee = fm, qa_orders = [], qa_levels = [], qa_fills = [], qa_cancels = [],
     qa_time = 0, qa_mid = 0\<rparr>"

definition qa_set_mid_price :: "double \<Rightarrow> queue_adapter \<Rightarrow> queue_adapter" where
  "qa_set_mid_price p a = a\<lparr>qa_mid := p\<rparr>"

definition make_key :: "symbol \<Rightarrow> order_side \<Rightarrow> double \<Rightarrow> level_key option" where
  "make_key sy sd price = map_option (\<lambda>k. (sy, sd, k)) (llround (price * Fin (10 ^ 8)))"

definition level_at :: "level_key \<Rightarrow> queue_adapter \<Rightarrow> level_state" where
  "level_at k a = (case map_of (qa_levels a) k of Some l \<Rightarrow> l | None \<Rightarrow> \<lparr>aggregate_size = 0, trades_since_update = 0\<rparr>)"

definition qa_submit_order :: "order_event \<Rightarrow> queue_adapter \<Rightarrow> queue_adapter option" where
  "qa_submit_order o1 a =
     (if oe_order_type o1 \<noteq> OT_Limit then Some a
      else case make_key (oe_symbol o1) (oe_side o1) (oe_price o1) of None \<Rightarrow> None
      | Some k \<Rightarrow> Some (a\<lparr>qa_orders := AList.update (oe_order_id o1)
          \<lparr>po_id = oe_order_id o1, po_symbol = oe_symbol o1, po_side = oe_side o1, po_price = oe_price o1,
           po_qty = oe_quantity o1, po_size_ahead = aggregate_size (level_at k a), po_submit_ts = oe_earliest_eligible_ts o1,
           po_strategy = oe_strategy_name o1, po_opener = oe_opener_order_id o1, po_recv_ns = recv_ns o1\<rparr> (qa_orders a)\<rparr>))"

definition qa_poll_fills :: "fill_event list \<Rightarrow> queue_adapter \<Rightarrow> bool \<times> fill_event list \<times> queue_adapter" where
  "qa_poll_fills out a = (if qa_fills a = [] then (False, out, a) else (True, out @ qa_fills a, a\<lparr>qa_fills := []\<rparr>))"

definition qa_cancel_order :: "order_id \<Rightarrow> int option \<Rightarrow> queue_adapter \<Rightarrow> bool \<times> queue_adapter" where
  "qa_cancel_order i lat a =
     (if map_of (qa_orders a) i = None then (False, a)
      else case lat of
        Some us \<Rightarrow> (True, a\<lparr>qa_cancels := AList.update i (qa_time a + micros us) (qa_cancels a)\<rparr>)
      | None \<Rightarrow> (True, a\<lparr>qa_orders := AList.delete i (qa_orders a)\<rparr>))"

definition qa_advance_time :: "time_point \<Rightarrow> queue_adapter \<Rightarrow> queue_adapter" where
  "qa_advance_time ts a =
     a\<lparr>qa_time := ts,
       qa_orders := fold (\<lambda>(i, t) os. if t \<le> ts then AList.delete i os else os) (qa_cancels a) (qa_orders a),
       qa_cancels := filter (\<lambda>(i, t). \<not> t \<le> ts) (qa_cancels a)\<rparr>"

subsection \<open>Depth\<close>

definition attribute_cancels :: "queue_model \<Rightarrow> symbol \<Rightarrow> order_side \<Rightarrow> double \<Rightarrow> double \<Rightarrow> double \<Rightarrow> paper_order \<Rightarrow> paper_order" where
  "attribute_cancels qm sy sd price old_size cancels po =
     (if po_symbol po = sy \<and> po_side po = sd \<and> \<bar>po_price po - price\<bar> < eps12
      then po\<lparr>po_size_ahead := update_on_cancels qm (po_size_ahead po) old_size cancels\<rparr> else po)"

definition qa_on_l2_update :: "symbol \<Rightarrow> order_side \<Rightarrow> double \<Rightarrow> double \<Rightarrow> queue_adapter \<Rightarrow> queue_adapter option" where
  "qa_on_l2_update sy sd price new_size a =
     (case make_key sy sd price of None \<Rightarrow> None
      | Some k \<Rightarrow>
         (let lv = level_at k a; old_size = aggregate_size lv; delta = new_size - old_size;
              cancels = std_max 0 (- delta - trades_since_update lv);
              os = (case qa_model a of
                      Some qm \<Rightarrow> if delta < 0 \<and> cancels > 0
                        then map (\<lambda>(i, po). (i, attribute_cancels qm sy sd price old_size cancels po)) (qa_orders a) else qa_orders a
                    | None \<Rightarrow> qa_orders a)
          in Some (a\<lparr>qa_orders := os,
               qa_levels := AList.update k \<lparr>aggregate_size = new_size, trades_since_update = 0\<rparr> (qa_levels a)\<rparr>)))"

fun qa_apply_levels :: "symbol \<Rightarrow> order_side \<Rightarrow> (double \<times> double) list \<Rightarrow> queue_adapter \<Rightarrow> queue_adapter option" where
  "qa_apply_levels sy sd [] a = Some a"
| "qa_apply_levels sy sd ((px, sz) # ls) a = Option.bind (qa_on_l2_update sy sd px sz a) (qa_apply_levels sy sd ls)"

definition qa_on_l2_snapshot :: "symbol \<Rightarrow> (double \<times> double) list \<Rightarrow> (double \<times> double) list \<Rightarrow> queue_adapter \<Rightarrow> queue_adapter option" where
  "qa_on_l2_snapshot sy bids asks a = Option.bind (qa_apply_levels sy Buy bids a) (qa_apply_levels sy Sell asks)"

subsection \<open>Prints\<close>

definition qa_fill :: "double \<Rightarrow> time_point \<Rightarrow> fee_model option \<Rightarrow> int \<Rightarrow> double \<Rightarrow> paper_order \<Rightarrow> fill_event" where
  "qa_fill px ts fm now q po =
     (mk_fill_event ts (po_symbol po) (po_id po) (po_side po) q px (commission_of fm (po_side po) q px False) 0 0
        (po_strategy po) (po_opener po))
     \<lparr>recv_ns := po_recv_ns po, latency_ns := (if po_recv_ns po > 0 then now - po_recv_ns po else 0)\<rparr>"

fun qa_loop :: "symbol \<Rightarrow> double \<Rightarrow> time_point \<Rightarrow> fee_model option \<Rightarrow> int \<Rightarrow> double \<Rightarrow> (order_id, paper_order) umap
    \<Rightarrow> (order_id, paper_order) umap \<times> fill_event list" where
  "qa_loop sy px ts fm now rem [] = ([], [])"
| "qa_loop sy px ts fm now rem ((i, po) # os) =
     (if po_symbol po \<noteq> sy \<or> \<bar>po_price po - px\<bar> \<ge> eps12 then apfst ((#) (i, po)) (qa_loop sy px ts fm now rem os)
      else let consumed_ahead = std_min rem (po_size_ahead po);
               po1 = po\<lparr>po_size_ahead := po_size_ahead po - consumed_ahead\<rparr>;
               rem1 = rem - consumed_ahead
        in if po_size_ahead po1 \<le> 0 \<and> rem1 > 0 then
             let q = std_min rem1 (po_qty po1); f = qa_fill px ts fm now q po1;
                 po2 = po1\<lparr>po_qty := po_qty po1 - q\<rparr>;
                 (os', fs) = qa_loop sy px ts fm now (rem1 - q) os
             in (if po_qty po2 \<le> 0 then os' else (i, po2) # os', f # fs)
           else apfst ((#) (i, po1)) (qa_loop sy px ts fm now rem1 os))"

definition mark_trade :: "level_key \<Rightarrow> double \<Rightarrow> queue_adapter \<Rightarrow> queue_adapter" where
  "mark_trade k q a = (let lv = level_at k a in
     a\<lparr>qa_levels := AList.update k (lv\<lparr>trades_since_update := trades_since_update lv + q\<rparr>) (qa_levels a)\<rparr>)"

definition qa_on_trade :: "symbol \<Rightarrow> double \<Rightarrow> double \<Rightarrow> time_point \<Rightarrow> int \<Rightarrow> queue_adapter \<Rightarrow> queue_adapter option" where
  "qa_on_trade sy px q ts now a =
     (if \<not> q > 0 then Some a
      else case (make_key sy Buy px, make_key sy Sell px) of
        (Some kb, Some ks) \<Rightarrow>
          (let (os, fs) = qa_loop sy px ts (qa_fee a) now q (qa_orders a)
           in Some (mark_trade ks q (mark_trade kb q (a\<lparr>qa_time := ts, qa_orders := os, qa_fills := qa_fills a @ fs\<rparr>))))
      | _ \<Rightarrow> None)"

subsection \<open>Queue position\<close>

definition queue_frac :: "queue_adapter \<Rightarrow> paper_order \<Rightarrow> double option" where
  "queue_frac a po = map_option (\<lambda>k. let denom = aggregate_size (level_at k a) in
     if denom > 0 then std_min 1 (po_size_ahead po / denom) else 0) (make_key (po_symbol po) (po_side po) (po_price po))"

fun sum_fracs :: "queue_adapter \<Rightarrow> paper_order list \<Rightarrow> double \<Rightarrow> double option" where
  "sum_fracs a [] acc = Some acc"
| "sum_fracs a (po # ps) acc = Option.bind (queue_frac a po) (\<lambda>f. sum_fracs a ps (acc + f))"

definition avg_queue_position_bps :: "queue_adapter \<Rightarrow> 32 word option" where
  "avg_queue_position_bps a =
     (if qa_orders a = [] then Some 0
      else Option.bind (sum_fracs a (map snd (qa_orders a)) 0) (\<lambda>s.
        map_option of_int (llround (s / rnd (of_nat (length (qa_orders a))) * Fin 10000))))"

subsection \<open>Fills wait for the queue\<close>

lemma mark_trade_frame [simp, tt_frame]:
  "qa_orders (mark_trade k q a) = qa_orders a" "qa_fills (mark_trade k q a) = qa_fills a"
  by (simp_all add: mark_trade_def Let_def)

lemma qa_on_trade_loop:
  assumes "qa_on_trade sy px q ts now a = Some a'" "q > 0"
  obtains fs where "qa_loop sy px ts (qa_fee a) now q (qa_orders a) = (qa_orders a', fs)" "qa_fills a' = qa_fills a @ fs"
  using assms by (cases "qa_loop sy px ts (qa_fee a) now q (qa_orders a)") (auto simp: qa_on_trade_def split: option.splits)

definition whole_paper :: "paper_order \<Rightarrow> bool" where
  "whole_paper po \<longleftrightarrow> (\<exists>a b. po_qty po = dint a \<and> 0 \<le> a \<and> a \<le> 2 ^ 53 \<and> po_size_ahead po = dint b \<and> 0 \<le> b \<and> b \<le> 2 ^ 53)"

text \<open>A fill of \<open>k\<close> units for \<open>po\<close> out of a print of \<open>n\<close>: the queue ahead was eaten first.\<close>

definition served :: "int \<Rightarrow> paper_order \<Rightarrow> fill_event \<Rightarrow> bool" where
  "served n po f \<longleftrightarrow> fe_order_id f = po_id po \<and> fe_side f = po_side po \<and>
     (\<exists>k b. fe_filled_quantity f = dint k \<and> po_size_ahead po = dint b \<and> 0 \<le> k \<and> 0 \<le> b \<and> b + k \<le> n)"

lemma served_mono: "served m po f \<Longrightarrow> m \<le> n \<Longrightarrow> served n po f"
  by (fastforce simp: served_def)

lemma qa_loop_whole:
  assumes "list_all (\<lambda>x. whole_paper (snd x)) os" "0 \<le> n" "n \<le> 2 ^ 53" "qa_loop sy px ts fm now (dint n) os = (os', fs)"
  shows "\<exists>ks. map fe_filled_quantity fs = map dint ks \<and> sum_list ks \<le> n \<and>
    list_all (\<lambda>f. list_ex (\<lambda>(i, po). served n po f \<and> po_symbol po = sy \<and> \<not> \<bar>po_price po - px\<bar> \<ge> eps12) os) fs"
  using assms
proof (induction os arbitrary: n os' fs)
  case Nil
  then show ?case by simp
next
  case (Cons x os)
  obtain i po where x: "x = (i, po)" by force
  let ?P = "\<lambda>n f (i, po). served n po f \<and> po_symbol po = sy \<and> \<not> \<bar>po_price po - px\<bar> \<ge> eps12"
  have os: "list_all (\<lambda>x. whole_paper (snd x)) os" using Cons.prems(1) by simp
  obtain a b where po: "po_qty po = dint a" "0 \<le> a" "po_size_ahead po = dint b" "0 \<le> b" "b \<le> 2 ^ 53" "a \<le> 2 ^ 53"
    using Cons.prems(1) by (auto simp: x whole_paper_def)
  define c where "c = min n b"
  have c: "0 \<le> c" "c \<le> n" "c \<le> b" using po Cons.prems(2) by (auto simp: c_def)
  have rest: "\<exists>ks. map fe_filled_quantity gs = map dint ks \<and> sum_list ks \<le> m \<and> list_all (\<lambda>f. list_ex (?P n f) os) gs"
    if "qa_loop sy px ts fm now (dint m) os = (os1, gs)" "0 \<le> m" "m \<le> n" for m os1 gs
  proof -
    note t = that
    have m: "m \<le> 2 ^ 53" using t(3) Cons.prems(3) by linarith
    obtain ks where "map fe_filled_quantity gs = map dint ks" "sum_list ks \<le> m" "list_all (\<lambda>f. list_ex (?P m f) os) gs"
      using Cons.IH [OF os t(2) m t(1)] by blast
    then show ?thesis using served_mono [OF _ t(3)] by (intro exI [of _ ks]) (fastforce simp: list_all_iff list_ex_iff)
  qed
  have sub: "dint b - dint c = dint (b - c)" "dint n - dint c = dint (n - c)"
    using c po(5) Cons.prems(3) by (auto intro!: dint_ops)
  have skip: ?case if "qa_loop sy px ts fm now (dint m) os = (os1, fs)" "0 \<le> m" "m \<le> n" for m os1
    using rest [OF that] that(3) by (fastforce simp: list_all_iff)
  show ?case
  proof (cases "po_symbol po \<noteq> sy \<or> \<bar>po_price po - px\<bar> \<ge> eps12")
    case True
    then show ?thesis using Cons.prems(2,4) skip [of n] by (auto simp: x apfst_def map_prod_def split: prod.splits)
  next
    case here: False
    show ?thesis
    proof (cases "dint (b - c) \<le> 0 \<and> dint (n - c) > 0")
      case False
      obtain os1 gs where g: "qa_loop sy px ts fm now (dint (n - c)) os = (os1, gs)" by fastforce
      have "gs = fs" using Cons.prems(4) here False g by (auto simp: x po dint_min_max c_def [symmetric] sub)
      then show ?thesis using skip [of "n - c"] g c by simp
    next
      case True
      define k where "k = min (n - c) a"
      have k: "0 \<le> k" "k \<le> n - c" using c po k_def by auto
      have cb: "c = b" using True c by (simp add: dint_zero)
      have "dint (n - c) - dint k = dint (n - c - k)" using k c Cons.prems(3) by (intro dint_ops) linarith
      moreover obtain os1 gs where g: "qa_loop sy px ts fm now (dint (n - c - k)) os = (os1, gs)" by fastforce
      ultimately obtain f where f: "fs = f # gs" "fe_filled_quantity f = dint k" "fe_order_id f = po_id po" "fe_side f = po_side po"
        using Cons.prems(4) here True
        by (auto simp: x po dint_min_max c_def [symmetric] sub k_def [symmetric] qa_fill_def mk_fill_event_def Let_def)
      obtain ks where ks: "map fe_filled_quantity gs = map dint ks" "sum_list ks \<le> n - c - k" "list_all (\<lambda>f. list_ex (?P n f) os) gs"
        using rest [OF g] k c by auto
      have "served n po f" unfolding served_def using f k c cb po by (intro conjI exI [of _ k] exI [of _ b]) auto
      then show ?thesis using f ks k c here by (intro exI [of _ "k # ks"]) (auto simp: x list_all_iff)
    qed
  qed
qed

text \<open>C30: Queue position is honoured: in whole units, every paper fill belongs to an order at the printed price, and the
  print covers both the quantity queued ahead of that order and the fill itself; all fills of a print together stay within
  the print.\<close>

theorem qa_fill_waits_for_queue:
  assumes "list_all (\<lambda>x. whole_paper (snd x)) (qa_orders a)" "0 \<le> n" "n \<le> 2 ^ 53" "qa_on_trade sy px (dint n) ts now a = Some a'"
  shows "\<exists>fs ks. qa_fills a' = qa_fills a @ fs \<and> map fe_filled_quantity fs = map dint ks \<and> sum_list ks \<le> n \<and>
    list_all (\<lambda>f. list_ex (\<lambda>(i, po). served n po f \<and> po_symbol po = sy \<and> \<not> \<bar>po_price po - px\<bar> \<ge> eps12) (qa_orders a)) fs"
proof (cases "dint n > 0")
  case False
  then show ?thesis using assms(2,4) by (intro exI [of _ "[]"]) (auto simp: qa_on_trade_def)
next
  case True
  obtain fs where l: "qa_loop sy px ts (qa_fee a) now (dint n) (qa_orders a) = (qa_orders a', fs)" "qa_fills a' = qa_fills a @ fs"
    using qa_on_trade_loop [OF assms(4) True] .
  with qa_loop_whole [OF assms(1-3) l(1)] show ?thesis by blast
qed

text \<open>C31: A partial fill is reported as complete: the fill event is built without the quantity left, so when a print
  serves only part of the only order at its price, the order stays in the table with the rest open while the event
  says that nothing remains.\<close>

theorem qa_partial_fill_reported_complete:
  assumes "qa_orders a = [(i, po)]" "po_symbol po = sy" "\<not> \<bar>po_price po - px\<bar> \<ge> eps12" "po_size_ahead po = dint b"
    "po_qty po = dint m" "0 \<le> b" "b < n" "n - b < m" "m \<le> 2 ^ 53" "n \<le> 2 ^ 53" "qa_on_trade sy px (dint n) ts now a = Some a'"
  shows "\<exists>f po'. qa_fills a' = qa_fills a @ [f] \<and> \<not> fill_is_partial f \<and> fe_filled_quantity f = dint (n - b) \<and>
    qa_orders a' = [(i, po')] \<and> po_qty po' = dint (m - (n - b)) \<and> 0 < po_qty po'"
proof -
  have sub: "dint b - dint b = 0" "dint n - dint b = dint (n - b)" "dint m - dint (n - b) = dint (m - (n - b))"
    using assms by (auto intro: dint_ops)
  have "std_min (dint n) (dint b) = dint b" "std_min (dint (n - b)) (dint m) = dint (n - b)" using assms by (simp_all add: dint_min_max)
  moreover obtain fs where "qa_loop sy px ts (qa_fee a) now (dint n) [(i, po)] = (qa_orders a', fs)" "qa_fills a' = qa_fills a @ fs"
    using qa_on_trade_loop [OF assms(11)] assms(1,6,7) by (auto simp: dint_zero)
  ultimately show ?thesis using assms sub
    by (auto simp: Let_def qa_fill_def mk_fill_event_def fill_is_partial_def dint_zero dint_zero(3) [of 0, simplified]
        dest!: sym [of _ "qa_orders a'"])
qed

subsection \<open>Examples\<close>

definition paper_demo :: paper_order where
  "paper_demo = \<lparr>po_id = 4, po_symbol = ''BTCUSDT'', po_side = Buy, po_price = dint 100, po_qty = dint 5, po_size_ahead = dint 2,
     po_submit_ts = 10, po_strategy = ''mm'', po_opener = 0, po_recv_ns = 0\<rparr>"

definition queue_demo :: queue_adapter where
  "queue_demo = (mk_queue_adapter None None)\<lparr>qa_orders := [(4, paper_demo)]\<rparr>"

lemma demo_key: "make_key sy sd (dint 100) = Some (sy, sd, 10 ^ 10)"
proof -
  have "dint 100 * Fin (10 ^ 8) = Fin (10 ^ 10)" using dint_ops(3) [of 100 "10 ^ 8"] by (simp add: dint_def)
  then show ?thesis using round_away_near [of "10 ^ 10" "10 ^ 10"] by (simp add: make_key_def llround_def)
qed

lemma demo_near: "\<not> \<bar>po_price paper_demo - dint 100\<bar> \<ge> eps12"
  using dint_eps(1) [of 0] dint_simps(2,6) [of 0] by (simp add: paper_demo_def dint_ops dnot_le)

lemma queue_demo_runs: "\<exists>a. qa_on_trade ''BTCUSDT'' (dint 100) (dint 4) 20 0 queue_demo = Some a"
  by (simp add: qa_on_trade_def dint_zero demo_key split: prod.splits)

theorem qa_fill_waits_for_queue_witness:
  "list_all (\<lambda>x. whole_paper (snd x)) (qa_orders queue_demo) \<and>
   (\<exists>a' ks. qa_on_trade ''BTCUSDT'' (dint 100) (dint 4) 20 0 queue_demo = Some a' \<and>
     map fe_filled_quantity (qa_fills a') = map dint ks \<and> sum_list ks \<le> 4)"
proof -
  have w: "list_all (\<lambda>x. whole_paper (snd x)) (qa_orders queue_demo)"
    by (simp add: queue_demo_def mk_queue_adapter_def paper_demo_def whole_paper_def)
  obtain a' where a: "qa_on_trade ''BTCUSDT'' (dint 100) (dint 4) 20 0 queue_demo = Some a'" using queue_demo_runs by blast
  from qa_fill_waits_for_queue [OF w _ _ a] have "\<exists>ks. map fe_filled_quantity (qa_fills a') = map dint ks \<and> sum_list ks \<le> 4"
    by (auto simp: queue_demo_def mk_queue_adapter_def)
  with w a show ?thesis by blast
qed

theorem qa_partial_fill_reported_complete_witness:
  "\<exists>a' f po. qa_on_trade ''BTCUSDT'' (dint 100) (dint 4) 20 0 queue_demo = Some a' \<and> qa_fills a' = [f] \<and>
     \<not> fill_is_partial f \<and> qa_orders a' = [(4, po)] \<and> po_qty po = dint 3"
proof -
  obtain a' where a: "qa_on_trade ''BTCUSDT'' (dint 100) (dint 4) 20 0 queue_demo = Some a'" using queue_demo_runs by blast
  have q: "qa_orders queue_demo = [(4, paper_demo)]" "qa_fills queue_demo = []" "po_symbol paper_demo = ''BTCUSDT''"
      "po_size_ahead paper_demo = dint 2" "po_qty paper_demo = dint 5"
    by (simp_all add: queue_demo_def mk_queue_adapter_def paper_demo_def)
  from qa_partial_fill_reported_complete [OF q(1,3) demo_near q(4,5) _ _ _ _ _ a] a q(2) show ?thesis by auto
qed

end
