(* ===== verification/Position_Sizing.thy ===== *)
theory Position_Sizing
  imports Event_Types
begin

text \<open>
  Fee- and slippage-aware position sizing, \<open>src/execution/position_sizing.h\<close>: adverse fill estimates,
  risk per unit, fixed-risk and notional quantities.
\<close>

record risk_size_inputs =
  equity :: double
  risk_fraction :: double
  entry_price :: double
  stop_price :: double
  is_long :: bool
  entry_fee_rate :: double
  exit_fee_rate :: double
  entry_slip_bps :: double
  exit_slip_bps :: double
  fixed_fee_per_leg :: double
  max_notional_frac :: double

definition adverse_entry_price :: "double \<Rightarrow> bool \<Rightarrow> double \<Rightarrow> double" where
  "adverse_entry_price intended long slip_bps =
     (if \<not> intended > 0 then 0
      else let m = std_max 0 slip_bps * lit (1 / 10000)
           in if long then intended * (1 + m) else intended * (1 - m))"

definition adverse_exit_price :: "double \<Rightarrow> bool \<Rightarrow> double \<Rightarrow> double" where
  "adverse_exit_price stop long slip_bps =
     (if \<not> stop > 0 then 0
      else let m = std_max 0 slip_bps * lit (1 / 10000)
           in if long then stop * (1 - m) else stop * (1 + m))"

definition risk_per_unit :: "risk_size_inputs \<Rightarrow> double \<Rightarrow> double \<Rightarrow> double" where
  "risk_per_unit i entry_est exit_est =
     (let price_risk0 = (if is_long i then entry_est - exit_est else exit_est - entry_est);
          price_risk = (if price_risk0 \<le> eps12 then lit (1 / 100) * std_max entry_est (eps12)
                        else price_risk0);
          prop_fees = entry_est * std_max 0 (entry_fee_rate i) + exit_est * std_max 0 (exit_fee_rate i)
      in price_risk + prop_fees)"

definition compute_risk_quantity :: "risk_size_inputs \<Rightarrow> double" where
  "compute_risk_quantity i =
     (if \<not> equity i > 0 \<or> \<not> risk_fraction i > 0 \<or> \<not> entry_price i > 0 then 0
      else if \<not> stop_price i > 0 then 0
      else let entry_est = adverse_entry_price (entry_price i) (is_long i) (entry_slip_bps i) in
      if \<not> entry_est > 0 then 0
      else let exit_est = adverse_exit_price (stop_price i) (is_long i) (exit_slip_bps i) in
      if \<not> exit_est > 0 then 0
      else let denom = risk_per_unit i entry_est exit_est in
      if \<not> denom > eps12 then 0
      else let risk_budget = equity i * risk_fraction i;
               fixed_round_trip = lit 2 * std_max 0 (fixed_fee_per_leg i) in
      if risk_budget \<le> fixed_round_trip then 0
      else let qty = (risk_budget - fixed_round_trip) / denom;
               qty' = (if max_notional_frac i > 0
                       then std_min qty ((equity i * max_notional_frac i) /
                              (entry_est * (1 + std_max 0 (entry_fee_rate i))))
                       else qty)
           in if qty' > 0 then qty' else 0)"

definition compute_notional_quantity :: "double \<Rightarrow> double \<Rightarrow> double \<Rightarrow> double \<Rightarrow> double \<Rightarrow> bool \<Rightarrow> double \<Rightarrow> double" where
  "compute_notional_quantity eqy fr px fee_rate slip_bps long fixed_fee =
     (if \<not> eqy > 0 \<or> \<not> fr > 0 \<or> \<not> px > 0 then 0
      else let entry_est = adverse_entry_price px long slip_bps in
      if \<not> entry_est > 0 then 0
      else let budget = eqy * fr in
      if budget \<le> fixed_fee then 0
      else let unit_cost = entry_est * (1 + std_max 0 fee_rate) in
      if \<not> unit_cost > eps12 then 0
      else let qty = (budget - fixed_fee) / unit_cost in if qty > 0 then qty else 0)"

definition estimate_stop_loss :: "risk_size_inputs \<Rightarrow> double \<Rightarrow> double" where
  "estimate_stop_loss i qty =
     (if \<not> qty > 0 \<or> \<not> entry_price i > 0 \<or> \<not> stop_price i > 0 then 0
      else let entry_est = adverse_entry_price (entry_price i) (is_long i) (entry_slip_bps i);
               exit_est = adverse_exit_price (stop_price i) (is_long i) (exit_slip_bps i);
               per_unit = risk_per_unit i entry_est exit_est
           in qty * per_unit + lit 2 * std_max 0 (fixed_fee_per_leg i))"

definition sizing_example :: risk_size_inputs where
  "sizing_example = \<lparr>equity = Fin 10000, risk_fraction = 1, entry_price = Fin 100, stop_price = Fin 96,
     is_long = True, entry_fee_rate = 0, exit_fee_rate = 0, entry_slip_bps = 0, exit_slip_bps = 0,
     fixed_fee_per_leg = 0, max_notional_frac = 1\<rparr>"

subsection \<open>Adverse prices are adverse\<close>

lemma std_max_zero: "std_max 0 (x::double) = (if 0 < x then x else 0)"
  by (simp add: std_max_def)

lemma lit_bp: "0 < lit (1 / 10000)" "isfinite (lit (1 / 10000))"
  by code_simp+

lemma slip_nonneg: "0 \<le> std_max 0 s * lit (1 / 10000)"
proof -
  obtain q where q: "lit (1 / 10000) = Fin q" "0 < q" using lit_bp by (auto simp: isfinite_iff double_defs)
  have z: "0 * Fin q = 0" by (simp add: zero_double_def dops_Fin)
  have "0 \<le> s * Fin q" if "0 < s"
  proof (cases s)
    case (Fin x)
    with that q(2) show ?thesis using rnd_nonneg [of "x * q"] by (simp add: zero_double_def dops_Fin)
  qed (use that q(2) in \<open>simp_all add: double_defs\<close>)
  then show ?thesis unfolding q(1) std_max_zero using z by (simp add: zero_double_def)
qed

lemma one_plus_ge: "0 \<le> m \<Longrightarrow> 1 \<le> 1 + (m::double)"
  by (rule dadd_ge) simp_all

lemma one_minus_le: "0 \<le> m \<Longrightarrow> 1 - (m::double) \<le> 1"
  by (rule dsub_le) simp_all

text \<open>Estimated fills are never better than intended: a long entry is estimated at or above and a short entry
  at or below the intended price, a long stop exit at or below and a short one at or above the stop,
  whatever slippage is configured (a NaN or a negative one counts as zero).\<close>

theorem adverse_prices_adverse:
  assumes "0 < p" "ieee p" "isfinite p"
  shows "p \<le> adverse_entry_price p True s \<and> adverse_entry_price p False s \<le> p \<and>
    adverse_exit_price p True s \<le> p \<and> p \<le> adverse_exit_price p False s"
  using assms dmul_ge [OF assms one_plus_ge [OF slip_nonneg]] dmul_le [OF assms one_minus_le [OF slip_nonneg]]
  by (simp add: adverse_entry_price_def adverse_exit_price_def Let_def)

theorem adverse_prices_adverse_witness: "Fin 100 \<le> adverse_entry_price (Fin 100) True (Fin 5)"
proof -
  have "0 < Fin 100" "ieee (Fin 100)" "isfinite (Fin 100)" by (simp_all add: double_defs ieee_Fin)
  from adverse_prices_adverse [OF this] show ?thesis by blast
qed

text \<open>A fixed-risk size is never negative. It is positive only if equity, risk fraction and the price
  estimates are positive and the risk budget exceeds the fixed fees, and then it is at most the net budget divided by the
  risk per unit, and at most the notional cap when one is set.\<close>

theorem compute_risk_quantity_bounded:
  fixes i :: risk_size_inputs
  defines "entry_est \<equiv> adverse_entry_price (entry_price i) (is_long i) (entry_slip_bps i)"
    and "exit_est \<equiv> adverse_exit_price (stop_price i) (is_long i) (exit_slip_bps i)"
    and "cap \<equiv> (equity i * max_notional_frac i) / (adverse_entry_price (entry_price i) (is_long i) (entry_slip_bps i) * (1 + std_max 0 (entry_fee_rate i)))"
    and "net \<equiv> equity i * risk_fraction i - lit 2 * std_max 0 (fixed_fee_per_leg i)"
  assumes "0 < compute_risk_quantity i" "net / risk_per_unit i entry_est exit_est \<noteq> NaN" "cap \<noteq> NaN"
  shows "0 < equity i \<and> 0 < risk_fraction i \<and> 0 < entry_est \<and> 0 < exit_est \<and>
    \<not> equity i * risk_fraction i \<le> lit 2 * std_max 0 (fixed_fee_per_leg i) \<and>
    compute_risk_quantity i \<le> net / risk_per_unit i entry_est exit_est \<and>
    (0 < max_notional_frac i \<longrightarrow> compute_risk_quantity i \<le> cap)"
  using assms(5-) dmin_le [OF assms(6,7)] dle_refl [OF assms(6)] unfolding compute_risk_quantity_def Let_def
    entry_est_def exit_est_def cap_def net_def
  by (auto split: if_splits)

theorem compute_risk_quantity_bounded_witness:
  "compute_risk_quantity sizing_example = Fin 100 \<and> Fin 100 \<le> (Fin 10000 - 0) / Fin 4"
proof -
  have z: "0 * lit (1 / 10000) = 0" using lit_bp by (auto simp: isfinite_iff zero_double_def dops_Fin)
  have e: "adverse_entry_price (Fin 100) True 0 = Fin 100" "adverse_exit_price (Fin 96) True 0 = Fin 96"
    unfolding adverse_entry_price_def adverse_exit_price_def Let_def std_max_zero
    by (simp_all add: z) (simp_all add: zero_double_def one_double_def dops_Fin)
  note ev = sizing_example_def risk_per_unit_def e std_max_zero std_min_def Let_def
  have d: "risk_per_unit sizing_example (Fin 100) (Fin 96) = Fin 4"
    by (simp add: ev) (simp add: zero_double_def dops_Fin)
  have q: "compute_risk_quantity sizing_example = Fin 100"
    unfolding compute_risk_quantity_def by (simp add: ev d [unfolded ev]) (simp add: ev zero_double_def one_double_def dops_Fin)
  from compute_risk_quantity_bounded [of sizing_example] q d show ?thesis
    by (simp add: sizing_example_def e std_max_zero) (simp add: zero_double_def one_double_def dops_Fin)
qed

end
