(* ===== verification/Portfolio.thy ===== *)
theory Portfolio
  imports Position_Sizing
begin

text \<open>
  The portfolio, \<open>src/execution/portfolio.cpp\<close>: netted positions per symbol with cash and cost basis, and the
  lot table keyed by the opening order's id. \<open>total_trades\<close> and \<open>total_fills\<close> are \<open>std::size_t\<close> counters.
  Arithmetic is binary64, so the accounting identity is stated where it is exact (integral amounts below
  \<open>2 ^ 53\<close>); sign and frame properties hold for all amounts.
\<close>

record position =
  qty :: double
  cost_basis :: double

record lot =
  lot_symbol :: symbol
  lot_side :: order_side
  qty_open :: double
  lot_entry_price :: double
  entry_filled_qty :: double
  lot_strategy_name :: string
  ts_open :: time_point

record portfolio =
  initial_balance :: double
  cash :: double
  positions :: "(symbol, position) umap"
  lots :: "(order_id, lot) umap"
  total_trades :: u64
  total_fills :: u64
  total_funding_pnl :: double

definition mk_portfolio :: "double \<Rightarrow> portfolio" where
  "mk_portfolio balance = \<lparr>initial_balance = balance, cash = balance, positions = [], lots = [], total_trades = 0,
     total_fills = 0, total_funding_pnl = 0\<rparr>"

text \<open>\<open>positions_[symbol]\<close> default-constructs a missing position.\<close>

definition position_of :: "symbol \<Rightarrow> portfolio \<Rightarrow> position" where
  "position_of sy p = (case map_of (positions p) sy of None \<Rightarrow> \<lparr>qty = 0, cost_basis = 0\<rparr> | Some pos \<Rightarrow> pos)"

definition comm_for :: "fill_event \<Rightarrow> double \<Rightarrow> double" where
  "comm_for f q = (if fe_filled_quantity f > eps12 then fe_commission f * (q / fe_filled_quantity f) else 0)"

text \<open>The accounts that a netted fill touches: cash, the position, the trade counter.\<close>

type_synonym account = "double \<times> position \<times> u64"

definition close_short :: "fill_event \<Rightarrow> double \<Rightarrow> account \<Rightarrow> account" where
  "close_short f close_qty = (\<lambda>(c, pos, tt).
     let frac_closed = close_qty / - qty pos;
         c' = c - (close_qty * fe_fill_price f + comm_for f close_qty);
         q' = qty pos + close_qty;
         b' = cost_basis pos * (1 - frac_closed)
     in if \<bar>q'\<bar> < eps12 then (c', \<lparr>qty = 0, cost_basis = 0\<rparr>, tt + 1) else (c', \<lparr>qty = q', cost_basis = b'\<rparr>, tt))"

definition close_long :: "fill_event \<Rightarrow> double \<Rightarrow> account \<Rightarrow> account" where
  "close_long f close_qty = (\<lambda>(c, pos, tt).
     let frac_closed = close_qty / qty pos;
         c' = c + (close_qty * fe_fill_price f - comm_for f close_qty);
         q' = qty pos - close_qty;
         b' = cost_basis pos * (1 - frac_closed)
     in if q' < eps12 then (c', \<lparr>qty = 0, cost_basis = 0\<rparr>, tt + 1) else (c', \<lparr>qty = q', cost_basis = b'\<rparr>, tt))"

definition open_long :: "fill_event \<Rightarrow> double \<Rightarrow> account \<Rightarrow> account" where
  "open_long f q = (\<lambda>(c, pos, tt).
     (c - (q * fe_fill_price f + comm_for f q),
      \<lparr>qty = qty pos + q, cost_basis = cost_basis pos + (q * fe_fill_price f + comm_for f q)\<rparr>, tt))"

definition open_short :: "fill_event \<Rightarrow> double \<Rightarrow> account \<Rightarrow> account" where
  "open_short f q = (\<lambda>(c, pos, tt).
     (c + (q * fe_fill_price f - comm_for f q),
      \<lparr>qty = qty pos - q, cost_basis = cost_basis pos - (q * fe_fill_price f - comm_for f q)\<rparr>, tt))"

definition netted_fill :: "fill_event \<Rightarrow> account \<Rightarrow> account" where
  "netted_fill f a =
     (let pos = fst (snd a); fq = fe_filled_quantity f in
      case fe_side f of
        Buy \<Rightarrow>
          if qty pos < 0 then
            (let cq = std_min fq (- qty pos); a1 = close_short f cq a; fq' = fq - cq
             in if fq' < eps12 then a1 else open_long f fq' a1)
          else open_long f fq a
      | Sell \<Rightarrow>
          if qty pos > 0 then
            (let cq = std_min fq (qty pos); a1 = close_long f cq a; fq' = fq - cq
             in if fq' < eps12 then a1 else open_short f fq' a1)
          else open_short f fq a)"

definition apply_netted_fill :: "fill_event \<Rightarrow> portfolio \<Rightarrow> portfolio" where
  "apply_netted_fill f p =
     (let (c, pos, tt) = netted_fill f (cash p, position_of (fe_symbol f) p, total_trades p)
      in p\<lparr>cash := c, positions := AList.update (fe_symbol f) pos (positions p), total_trades := tt\<rparr>)"

definition apply_lot_fill :: "fill_event \<Rightarrow> order_id \<Rightarrow> string \<Rightarrow> portfolio \<Rightarrow> portfolio" where
  "apply_lot_fill f opener strat p =
     (if opener = fe_order_id f then
        (case map_of (lots p) opener of
           None \<Rightarrow> p\<lparr>lots := AList.update opener
             \<lparr>lot_symbol = fe_symbol f, lot_side = fe_side f, qty_open = fe_filled_quantity f,
              lot_entry_price = fe_fill_price f, entry_filled_qty = fe_filled_quantity f, lot_strategy_name = strat,
              ts_open = timestamp f\<rparr> (lots p)\<rparr>
         | Some l \<Rightarrow>
            (let new_filled = entry_filled_qty l + fe_filled_quantity f;
                 px = (if new_filled > 0
                       then (lot_entry_price l * entry_filled_qty l + fe_fill_price f * fe_filled_quantity f) / new_filled
                       else lot_entry_price l)
             in p\<lparr>lots := AList.update opener
                  (l\<lparr>lot_entry_price := px, entry_filled_qty := new_filled,
                     qty_open := qty_open l + fe_filled_quantity f\<rparr>) (lots p)\<rparr>))
      else
        (case map_of (lots p) opener of None \<Rightarrow> p
         | Some l \<Rightarrow>
            (let l' = l\<lparr>qty_open := qty_open l - fe_filled_quantity f\<rparr>
             in if qty_open l' < eps12 then p\<lparr>lots := AList.delete opener (lots p)\<rparr>
                else p\<lparr>lots := AList.update opener l' (lots p)\<rparr>)))"

definition portfolio_on_fill :: "fill_event \<Rightarrow> order_id \<Rightarrow> string \<Rightarrow> portfolio \<Rightarrow> portfolio" where
  "portfolio_on_fill f opener strat p =
     (let p1 = apply_netted_fill f (p\<lparr>total_fills := total_fills p + 1\<rparr>)
      in if opener \<noteq> 0 then apply_lot_fill f opener strat p1 else p1)"

definition portfolio_on_fill_legacy :: "fill_event \<Rightarrow> portfolio \<Rightarrow> portfolio" where
  "portfolio_on_fill_legacy f =
     portfolio_on_fill f (if fe_opener_order_id f \<noteq> 0 then fe_opener_order_id f else fe_order_id f) (fe_strategy_name f)"

definition portfolio_on_funding :: "funding_event \<Rightarrow> portfolio \<Rightarrow> portfolio" where
  "portfolio_on_funding fe p = p\<lparr>cash := cash p + fu_cash_delta fe,
     total_funding_pnl := total_funding_pnl p + fu_cash_delta fe\<rparr>"

definition open_lots_by_symbol :: "symbol \<Rightarrow> portfolio \<Rightarrow> order_id list" where
  "open_lots_by_symbol sy p = map fst (filter (\<lambda>(i, l). lot_symbol l = sy) (lots p))"

definition open_lots_by_strategy :: "string \<Rightarrow> portfolio \<Rightarrow> order_id list" where
  "open_lots_by_strategy st p = map fst (filter (\<lambda>(i, l). lot_strategy_name l = st) (lots p))"

definition any_position_open :: "portfolio \<Rightarrow> bool" where
  "any_position_open p \<longleftrightarrow> (\<exists>(sy, pos) \<in> set (positions p). \<bar>qty pos\<bar> > eps12)"

definition position_open :: "symbol \<Rightarrow> portfolio \<Rightarrow> bool" where
  "position_open sy p = (case map_of (positions p) sy of None \<Rightarrow> False | Some pos \<Rightarrow> \<bar>qty pos\<bar> > eps12)"

definition can_afford_any :: "order_side \<Rightarrow> double \<Rightarrow> double \<Rightarrow> double \<Rightarrow> portfolio \<Rightarrow> bool" where
  "can_afford_any sd q px comm p =
     (case sd of Buy \<Rightarrow> cash p \<ge> q * px + std_max 0 comm
      | Sell \<Rightarrow> (\<exists>(sy, pos) \<in> set (positions p). qty pos \<ge> q))"

definition can_afford :: "symbol \<Rightarrow> order_side \<Rightarrow> double \<Rightarrow> double \<Rightarrow> double \<Rightarrow> portfolio \<Rightarrow> bool" where
  "can_afford sy sd q px comm p =
     (case sd of Buy \<Rightarrow> cash p \<ge> q * px + std_max 0 comm
      | Sell \<Rightarrow> (case map_of (positions p) sy of None \<Rightarrow> False | Some pos \<Rightarrow> qty pos \<ge> q))"

definition compute_quantity :: "double \<Rightarrow> double \<Rightarrow> double \<Rightarrow> portfolio \<Rightarrow> double" where
  "compute_quantity px fr fee_rate p = compute_notional_quantity (cash p) fr px fee_rate 0 True 0"

definition get_equity :: "double \<Rightarrow> portfolio \<Rightarrow> double" where
  "get_equity last_price p =
     fold (\<lambda>(sy, pos) e. if \<bar>qty pos\<bar> > eps12 then e + qty pos * last_price else e) (positions p) (cash p)"

definition restore_state :: "double \<Rightarrow> u64 \<Rightarrow> (symbol, position) umap \<Rightarrow> portfolio \<Rightarrow> portfolio" where
  "restore_state c tt ps p = p\<lparr>cash := c, total_trades := tt, positions := ps\<rparr>"

definition portfolio_reset :: "portfolio \<Rightarrow> portfolio" where
  "portfolio_reset p = p\<lparr>cash := initial_balance p, positions := [], lots := [], total_trades := 0, total_fills := 0,
     total_funding_pnl := 0\<rparr>"

text \<open>A fill of 2 BTC at 100 with commission 1, for the examples.\<close>

definition sample_fill :: "order_id \<Rightarrow> order_side \<Rightarrow> fill_event" where
  "sample_fill i sd = mk_fill_event 0 ''BTC'' i sd (dint 2) (dint 100) (dint 1) 0 1 ''s'' 0"

subsection \<open>Frame\<close>

lemma netted_frame [tt_frame]:
  "lots (apply_netted_fill f p) = lots p" "total_fills (apply_netted_fill f p) = total_fills p"
  "total_funding_pnl (apply_netted_fill f p) = total_funding_pnl p" "initial_balance (apply_netted_fill f p) = initial_balance p"
  by (simp_all add: apply_netted_fill_def split: prod.split)

lemma netted_positions [tt_frame]:
  "map_of (positions (apply_netted_fill f p)) sy =
    (if sy = fe_symbol f then Some (fst (snd (netted_fill f (cash p, position_of (fe_symbol f) p, total_trades p))))
     else map_of (positions p) sy)"
  by (simp add: apply_netted_fill_def split: prod.split)

lemma lot_frame [tt_frame]:
  "cash (apply_lot_fill f i st p) = cash p" "positions (apply_lot_fill f i st p) = positions p"
  "total_trades (apply_lot_fill f i st p) = total_trades p" "total_fills (apply_lot_fill f i st p) = total_fills p"
  by (simp_all add: apply_lot_fill_def Let_def split: option.split)

lemma lot_other: "j \<noteq> i \<Longrightarrow> map_of (lots (apply_lot_fill f i st p)) j = map_of (lots p) j"
  by (cases "map_of (lots p) i") (auto simp: apply_lot_fill_def Let_def)

text \<open>A fill touches only its own symbol's position and only the lot of the opener it names; the fill counter
  goes up by one, and the funding total and the initial balance stay.\<close>

theorem portfolio_on_fill_frame:
  shows "total_fills (portfolio_on_fill f i st p) = total_fills p + 1 \<and>
    total_funding_pnl (portfolio_on_fill f i st p) = total_funding_pnl p \<and>
    (\<forall>sy. sy \<noteq> fe_symbol f \<longrightarrow> map_of (positions (portfolio_on_fill f i st p)) sy = map_of (positions p) sy) \<and>
    (\<forall>j. j \<noteq> i \<or> i = 0 \<longrightarrow> map_of (lots (portfolio_on_fill f i st p)) j = map_of (lots p) j)"
proof -
  have "total_funding_pnl (apply_lot_fill f i st q) = total_funding_pnl q" for q
    by (simp add: apply_lot_fill_def Let_def split: option.split)
  then show ?thesis by (simp add: portfolio_on_fill_def Let_def tt_frame lot_other)
qed

theorem portfolio_on_fill_frame_witness:
  "map_of (positions (portfolio_on_fill (sample_fill 1 Buy) 1 [] (mk_portfolio 0))) ''ETH'' = None"
  using portfolio_on_fill_frame [of "sample_fill 1 Buy" 1 "[]" "mk_portfolio 0"]
  by (simp add: sample_fill_def mk_fill_event_def mk_portfolio_def)

subsection \<open>Position after a fill\<close>

text \<open>Closing and reopening a flipped position rounds to the same quantity as one addition; a remainder below
  \<open>1e-12\<close> is dropped.\<close>

lemma netted_fill_qty:
  assumes "isfinite q" "ieee q" "isfinite (fe_filled_quantity f)" "ieee (fe_filled_quantity f)" "qty pos = q"
    "fq = fe_filled_quantity f"
  shows "qty (fst (snd (netted_fill f (c, pos, tt)))) \<in> {q + (if fe_side f = Buy then fq else - fq), 0}"
proof -
  have z: "\<bar>0\<bar> < eps12" "(0::double) < eps12" by (simp_all add: zero_double_def dops_Fin)
  note d = netted_fill_def Let_def open_long_def open_short_def close_long_def close_short_def std_min_def
  have e: "0 - (fq - q) = q + - fq" "0 + (fq - - q) = q + fq"
    using assms by (simp_all add: dsub_uminus dneg_add dadd_commute)
  show ?thesis
  proof (cases "fe_side f")
    case Buy
    show ?thesis using assms z e by (simp add: d Buy)
  next
    case Sell
    show ?thesis using assms z e by (simp add: d Sell dsub_uminus [of q])
  qed
qed
subsection \<open>Exact accounting\<close>

text \<open>A fill of an integral quantity at an integral price, with an integral commission, that does not flip the position.\<close>

definition plain_fill :: "fill_event \<Rightarrow> int \<Rightarrow> int \<Rightarrow> int \<Rightarrow> int \<Rightarrow> bool" where
  "plain_fill f n px k x \<longleftrightarrow> fe_filled_quantity f = dint n \<and> fe_fill_price f = dint px \<and> fe_commission f = dint k \<and>
     1 \<le> n \<and> n \<le> 2 ^ 51 \<and> \<bar>x\<bar> \<le> 2 ^ 51 \<and> \<bar>n * px\<bar> \<le> 2 ^ 51 \<and> \<bar>k\<bar> \<le> 2 ^ 50 \<and>
     (case fe_side f of Buy \<Rightarrow> x < 0 \<longrightarrow> n \<le> - x | Sell \<Rightarrow> x > 0 \<longrightarrow> n \<le> x)"

lemma plain_comm:
  assumes "plain_fill f n px k x"
  shows "comm_for f (dint n) = dint k"
proof -
  have "dint k * 1 = dint k" using assms dint_ieee [of k] by (intro dmul_one) (simp add: plain_fill_def)
  then show ?thesis using assms by (simp add: plain_fill_def comm_for_def dint_div_self dint_eps)
qed

lemma plain_amount:
  assumes "plain_fill f n px k x" "\<bar>c\<bar> \<le> 2 ^ 51"
  shows "dint n * dint px = dint (n * px)" "dint (n * px) + dint k = dint (n * px + k)" "dint (n * px) - dint k = dint (n * px - k)"
    "dint c - dint (n * px + k) = dint (c - (n * px + k))" "dint c + dint (n * px - k) = dint (c + (n * px - k))"
    "dint x + dint n = dint (x + n)" "dint x - dint n = dint (x - n)" "dint n - dint n = 0"
proof -
  have b: "- (2 ^ 51) \<le> n * px" "n * px \<le> 2 ^ 51" "- (2 ^ 50) \<le> k" "k \<le> 2 ^ 50" "- (2 ^ 51) \<le> x" "x \<le> 2 ^ 51"
    "1 \<le> n" "n \<le> 2 ^ 51" "- (2 ^ 51) \<le> c" "c \<le> 2 ^ 51"
    using assms by (simp_all add: plain_fill_def abs_le_iff)
  show "dint n * dint px = dint (n * px)" by (rule dint_ops) (use b in \<open>simp add: abs_le_iff\<close>)
  show "dint (n * px) + dint k = dint (n * px + k)" "dint c + dint (n * px - k) = dint (c + (n * px - k))"
    "dint x + dint n = dint (x + n)" by (rule dint_ops(1); use b in \<open>simp add: abs_le_iff\<close>)+
  show "dint (n * px) - dint k = dint (n * px - k)" "dint c - dint (n * px + k) = dint (c - (n * px + k))"
    "dint x - dint n = dint (x - n)" by (rule dint_ops(2); use b in \<open>simp add: abs_le_iff\<close>)+
  show "dint n - dint n = 0" by simp
qed

lemma netted_fill_exact:
  assumes pf: "plain_fill f n px k x" and c: "\<bar>c\<bar> \<le> 2 ^ 51" and pos: "qty pos = dint x"
  shows "fst (netted_fill f (dint c, pos, tt)) = dint (case fe_side f of Buy \<Rightarrow> c - (n * px + k) | Sell \<Rightarrow> c + (n * px - k)) \<and>
    qty (fst (snd (netted_fill f (dint c, pos, tt)))) = dint (case fe_side f of Buy \<Rightarrow> x + n | Sell \<Rightarrow> x - n)"
proof -
  note b = pf [unfolded plain_fill_def]
  have fq: "fe_filled_quantity f = dint n" "fe_fill_price f = dint px" using b by simp_all
  have z0: "(0 :: double) < eps12" by (simp add: zero_double_def)
  note d = netted_fill_def Let_def open_long_def open_short_def close_long_def close_short_def fq plain_amount [OF pf c] plain_comm [OF pf]
    pos dint_zero dint_min_max dint_eps
  show ?thesis
  proof (cases "fe_side f")
    case Buy
    show ?thesis
    proof (cases "x < 0")
      case True
      with b Buy have nx: "n \<le> - x" by simp
      then have "min n (- x) = n" by simp
      then show ?thesis using Buy True z0 nx by (simp add: d)
    qed (use Buy in \<open>simp add: d\<close>)
  next
    case Sell
    show ?thesis
    proof (cases "0 < x")
      case True
      with b Sell have "min n x = n" by simp
      then show ?thesis using Sell True z0 b by (simp add: d)
    qed (use Sell in \<open>simp add: d\<close>)
  qed
qed

text \<open>C8: Cash and position move together: a fill that does not flip the position leaves the equity at the fill
  price, cash plus position value, lower by exactly the commission. It is stated for integral amounts
  below 2 to the 51, where binary64 arithmetic is exact.\<close>

theorem netted_fill_equity:
  assumes "plain_fill f n px k x" "\<bar>c\<bar> \<le> 2 ^ 51" "cash p = dint c" "qty (position_of (fe_symbol f) p) = dint x"
  shows "\<exists>c' x'. cash (apply_netted_fill f p) = dint c' \<and> qty (position_of (fe_symbol f) (apply_netted_fill f p)) = dint x' \<and>
    c' + x' * px = c + x * px - k"
proof -
  let ?r = "netted_fill f (dint c, position_of (fe_symbol f) p, total_trades p)"
  have "cash (apply_netted_fill f p) = fst ?r" "position_of (fe_symbol f) (apply_netted_fill f p) = fst (snd ?r)"
    using assms(3) by (simp_all add: apply_netted_fill_def position_of_def split: prod.split)
  with netted_fill_exact [OF assms(1,2,4), of "total_trades p"]
  have "cash (apply_netted_fill f p) = dint (case fe_side f of Buy \<Rightarrow> c - (n * px + k) | Sell \<Rightarrow> c + (n * px - k))"
    "qty (position_of (fe_symbol f) (apply_netted_fill f p)) = dint (case fe_side f of Buy \<Rightarrow> x + n | Sell \<Rightarrow> x - n)"
    by simp_all
  then show ?thesis by (intro exI conjI) (auto simp: algebra_simps split: order_side.split)
qed

theorem netted_fill_equity_witness:
  "\<exists>c' x'. cash (apply_netted_fill (sample_fill 1 Buy) (mk_portfolio (dint 1000))) = dint c' \<and> c' + x' * 100 = 999"
proof -
  have "plain_fill (sample_fill 1 Buy) 2 100 1 0" by (simp add: plain_fill_def sample_fill_def mk_fill_event_def)
  from netted_fill_equity [OF this, of 1000 "mk_portfolio (dint 1000)"] show ?thesis
    by (auto simp: mk_portfolio_def position_of_def)
qed

subsection \<open>Lots\<close>

text \<open>Opening a lot and closing it again restores the lot table: an opener with a new id followed by a closer
  of the same quantity that names it leaves no lot under that id and every other lot as it was.\<close>

theorem lot_open_close:
  assumes "map_of (lots p) i = None" "fe_order_id f = i" "fe_order_id g \<noteq> i"
    and "isfinite (fe_filled_quantity f)" "fe_filled_quantity g = fe_filled_quantity f"
  shows "map_of (lots (apply_lot_fill g i st' (apply_lot_fill f i st p))) = map_of (lots p)"
proof
  fix j
  have z: "(0 :: double) < eps12" by (simp add: zero_double_def)
  show "map_of (lots (apply_lot_fill g i st' (apply_lot_fill f i st p))) j = map_of (lots p) j"
    using assms z by (cases "j = i") (auto simp: lot_other, auto simp: apply_lot_fill_def Let_def)
qed

theorem lot_open_close_witness:
  "map_of (lots (apply_lot_fill (sample_fill 2 Sell) 1 [] (apply_lot_fill (sample_fill 1 Buy) 1 [] (mk_portfolio 0)))) 1 = None"
proof -
  have "map_of (lots (mk_portfolio 0)) 1 = None" "fe_order_id (sample_fill 1 Buy) = 1" "fe_order_id (sample_fill 2 Sell) \<noteq> 1"
    "isfinite (fe_filled_quantity (sample_fill 1 Buy))"
    "fe_filled_quantity (sample_fill 2 Sell) = fe_filled_quantity (sample_fill 1 Buy)"
    by (simp_all add: mk_portfolio_def sample_fill_def mk_fill_event_def)
  from lot_open_close [OF this] show ?thesis by (simp add: mk_portfolio_def)
qed

end
