(* ===== verification/Risk_Manager.thy ===== *)
theory Risk_Manager
  imports Portfolio
begin

text \<open>
  The venue-agnostic risk manager, \<open>src/risk/risk_manager.cpp\<close>: pre-trade \<open>check_order\<close>, \<open>check_post_fill\<close>,
  the order and trade rate windows and the daily loss budget with its UTC reset.

  \<open>check_order\<close> is split where the code has no state: \<open>static_gates\<close> gives the action of the first limit
  that stops the order, if any; then come the order-rate window and the daily loss. Time points are
  nanoseconds since the epoch; \<open>gmtime_r\<close>/\<open>timegm\<close> with the hour set and minutes and seconds cleared give the
  start of the UTC day plus that many hours. Casts of counters to \<open>int\<close> keep their 32-bit wrap-around.
\<close>

record risk_limits =
  max_position_value :: double
  max_drawdown :: double
  max_loss_per_trade :: double
  max_open_orders :: int
  max_portfolio_exposure :: double
  max_daily_loss :: double
  daily_reset_hour :: int
  max_trades_per_hour :: int
  max_orders_per_minute :: int
  max_position_pct_of_equity :: double
  max_portfolio_var_estimate :: double
  max_spread_bps :: double
  max_funding_8h_rate :: double

datatype risk_action = Risk_Pass | Risk_Reject | Risk_Halt | Risk_Unwind

record risk_snapshot =
  snap_max_drawdown :: double
  total_orders :: u64
  snap_total_fills :: u64
  last_trade_pnl :: double
  has_last_trade :: bool
  last_trade_seq :: u64
  snap_equity :: double
  realized_vol_1h :: double
  current_spread_bps :: double
  current_funding_8h_rate :: double

record risk_manager =
  limits :: risk_limits
  order_timestamps :: "time_point list"
  trade_timestamps :: "time_point list"
  daily_loss :: double
  daily_start_equity :: double
  daily_reset_tp :: time_point
  last_daily_trade_seq_added :: u64

definition mk_risk_manager :: "risk_limits \<Rightarrow> risk_manager" where
  "mk_risk_manager l = \<lparr>limits = l, order_timestamps = [], trade_timestamps = [], daily_loss = 0, daily_start_equity = 0,
     daily_reset_tp = 0, last_daily_trade_seq_added = 0\<rparr>"

definition int_of_u64 :: "u64 \<Rightarrow> int" where
  "int_of_u64 w = sint (ucast w :: 32 word)"

definition int_of_size :: "nat \<Rightarrow> int" where
  "int_of_size n = sint (word_of_nat n :: 32 word)"

definition seconds :: "int \<Rightarrow> time_point" where "seconds s = s * 10 ^ 9"
definition hours :: "int \<Rightarrow> time_point" where "hours h = seconds (h * 3600)"

subsection \<open>Exposure\<close>

definition signed_order_quantity :: "order_event \<Rightarrow> double" where
  "signed_order_quantity ord = (if oe_side ord = Buy then oe_quantity ord else - oe_quantity ord)"

definition position_price :: "position \<Rightarrow> double" where
  "position_price pos = (if \<bar>qty pos\<bar> > eps12 then \<bar>cost_basis pos / qty pos\<bar> else 0)"

definition valuation_price :: "order_event \<Rightarrow> position option \<Rightarrow> double" where
  "valuation_price ord pos = (if oe_price ord > 0 then oe_price ord else case pos of Some p \<Rightarrow> position_price p | None \<Rightarrow> 0)"

definition projected_position_notional :: "order_event \<Rightarrow> position option \<Rightarrow> double" where
  "projected_position_notional ord pos =
     (let current_qty = (case pos of Some p \<Rightarrow> qty p | None \<Rightarrow> 0);
          projected_qty = current_qty + signed_order_quantity ord
      in \<bar>projected_qty\<bar> * valuation_price ord pos)"

definition reduces_position_exposure :: "order_event \<Rightarrow> position option \<Rightarrow> bool" where
  "reduces_position_exposure ord pos =
     (case pos of None \<Rightarrow> False
      | Some p \<Rightarrow> \<bar>qty p + signed_order_quantity ord\<bar> < \<bar>qty p\<bar> - eps12)"

definition projected_total_exposure :: "order_event \<Rightarrow> portfolio \<Rightarrow> double" where
  "projected_total_exposure ord port =
     (let pn = projected_position_notional ord (map_of (positions port) (oe_symbol ord));
          e = fold (\<lambda>(sy, pos) acc. if sy = oe_symbol ord then acc + pn else acc + \<bar>cost_basis pos\<bar>) (positions port) 0
      in if map_of (positions port) (oe_symbol ord) = None then e + pn else e)"

subsection \<open>Checks\<close>

fun prune_old_entries :: "time_point list \<Rightarrow> time_point \<Rightarrow> time_point list" where
  "prune_old_entries [] cutoff = []"
| "prune_old_entries (t # ts) cutoff = (if t < cutoff then prune_old_entries ts cutoff else t # ts)"

definition time_t_of :: "time_point \<Rightarrow> int" where
  "time_t_of now = (if now \<ge> 0 then now div 10 ^ 9 else - ((- now) div 10 ^ 9))"

definition first_reset :: "int \<Rightarrow> time_point \<Rightarrow> time_point" where
  "first_reset hour now =
     (let boundary = seconds (time_t_of now div 86400 * 86400 + hour * 3600)
      in if boundary \<le> now then boundary + hours 24 else boundary)"

function advance_reset :: "time_point \<Rightarrow> time_point \<Rightarrow> time_point" where
  "advance_reset tp now = (if tp \<le> now then advance_reset (tp + hours 24) now else tp)"
  by pat_completeness auto
termination
  by (relation "measure (\<lambda>(tp, now). nat (now + 1 - tp))") (auto simp: hours_def seconds_def)

declare advance_reset.simps [simp del]

definition update_daily_reset :: "time_point \<Rightarrow> risk_manager \<Rightarrow> risk_manager" where
  "update_daily_reset now r =
     (let r1 = (if daily_reset_tp r = 0 then r\<lparr>daily_reset_tp := first_reset (daily_reset_hour (limits r)) now\<rparr> else r)
      in if now \<ge> daily_reset_tp r1
         then r1\<lparr>daily_loss := 0, daily_start_equity := 0, daily_reset_tp := advance_reset (daily_reset_tp r1) now\<rparr>
         else r1)"

definition static_gates :: "risk_limits \<Rightarrow> order_event \<Rightarrow> portfolio \<Rightarrow> risk_snapshot \<Rightarrow> risk_action option" where
  "static_gates l ord port snap =
     (if snap_max_drawdown snap / Fin 100 \<ge> max_drawdown l then Some Risk_Halt
      else if int_of_u64 (total_orders snap - snap_total_fills snap) \<ge> max_open_orders l then Some Risk_Reject
      else
       let pos = map_of (positions port) (oe_symbol ord);
           reducing = reduces_position_exposure ord pos;
           notional = projected_position_notional ord pos
       in
       if \<not> reducing \<and> notional > max_position_value l then Some Risk_Reject
       else if \<not> reducing \<and> max_position_pct_of_equity l > 0 \<and> snap_equity snap > 0 \<and>
               notional > snap_equity snap * max_position_pct_of_equity l then Some Risk_Reject
       else
        let exposure = projected_total_exposure ord port
        in
        if \<not> reducing \<and> exposure > max_portfolio_exposure l then Some Risk_Reject
        else if \<not> reducing \<and> max_position_pct_of_equity l > 0 \<and> snap_equity snap > 0 \<and>
                exposure > snap_equity snap * max_position_pct_of_equity l then Some Risk_Reject
        else if max_spread_bps l > 0 \<and> current_spread_bps snap > max_spread_bps l then
          (if current_spread_bps snap > max_spread_bps l * Fin 2 then Some Risk_Halt else Some Risk_Reject)
        else if max_funding_8h_rate l > 0 \<and> current_funding_8h_rate snap > max_funding_8h_rate l then
          (if current_funding_8h_rate snap > max_funding_8h_rate l * Fin (3 / 2) then Some Risk_Halt else Some Risk_Reject)
        else None)"

text \<open>The order-rate window; \<open>False\<close> when the window is full (the pruned window is kept).\<close>

definition rate_gate :: "time_point \<Rightarrow> risk_manager \<Rightarrow> bool \<times> risk_manager" where
  "rate_gate ts r =
     (if max_orders_per_minute (limits r) > 0 then
        (let q = prune_old_entries (order_timestamps r) (ts - seconds 60)
         in if int_of_size (length q) \<ge> max_orders_per_minute (limits r) then (False, r\<lparr>order_timestamps := q\<rparr>)
            else (True, r\<lparr>order_timestamps := q @ [ts]\<rparr>))
      else (True, r))"

definition check_order :: "order_event \<Rightarrow> portfolio \<Rightarrow> risk_snapshot \<Rightarrow> risk_manager \<Rightarrow> risk_action \<times> risk_manager" where
  "check_order ord port snap r =
     (case static_gates (limits r) ord port snap of Some a \<Rightarrow> (a, r)
      | None \<Rightarrow>
         (case rate_gate (timestamp ord) r of
            (False, r1) \<Rightarrow> (Risk_Reject, r1)
          | (True, r1) \<Rightarrow>
              if max_daily_loss (limits r1) > 0 then
                (let r2 = update_daily_reset (timestamp ord) r1
                 in (if daily_loss r2 \<ge> max_daily_loss (limits r2) then Risk_Halt else Risk_Pass, r2))
              else (Risk_Pass, r1)))"

definition book_trade_loss :: "risk_snapshot \<Rightarrow> risk_manager \<Rightarrow> risk_manager" where
  "book_trade_loss snap r =
     (if has_last_trade snap \<and> last_trade_seq snap \<noteq> 0 \<and> last_trade_pnl snap < 0 \<and>
         last_trade_seq snap \<noteq> last_daily_trade_seq_added r
      then r\<lparr>daily_loss := daily_loss r + - last_trade_pnl snap, last_daily_trade_seq_added := last_trade_seq snap\<rparr>
      else r)"

definition check_post_fill :: "fill_event \<Rightarrow> risk_snapshot \<Rightarrow> risk_manager \<Rightarrow> risk_action \<times> risk_manager" where
  "check_post_fill f snap r =
     (if snap_max_drawdown snap / Fin 100 \<ge> max_drawdown (limits r) then (Risk_Halt, r)
      else if has_last_trade snap \<and> last_trade_pnl snap < - max_loss_per_trade (limits r) then (Risk_Halt, r)
      else if max_trades_per_hour (limits r) > 0 \<and>
              int_of_size (length (trade_timestamps r)) \<ge> max_trades_per_hour (limits r) then (Risk_Halt, r)
      else if max_daily_loss (limits r) > 0 then
        (let r2 = book_trade_loss snap (update_daily_reset (timestamp f) r)
         in (if daily_loss r2 \<ge> max_daily_loss (limits r2) then Risk_Halt else Risk_Pass, r2))
      else (Risk_Pass, r))"

definition risk_on_fill :: "fill_event \<Rightarrow> risk_manager \<Rightarrow> risk_manager" where
  "risk_on_fill f r =
     (let r1 = (if max_trades_per_hour (limits r) > 0
                then r\<lparr>trade_timestamps := prune_old_entries (trade_timestamps r) (timestamp f - hours 1) @ [timestamp f]\<rparr>
                else r)
      in if max_daily_loss (limits r1) > 0 then update_daily_reset (timestamp f) r1 else r1)"

definition risk_reset :: "risk_manager \<Rightarrow> risk_manager" where
  "risk_reset r = r\<lparr>order_timestamps := [], trade_timestamps := [], daily_loss := 0, daily_start_equity := 0,
     daily_reset_tp := 0, last_daily_trade_seq_added := 0\<rparr>"

text \<open>A sequence of order checks: the decision for each order with its time.\<close>

fun run_checks :: "(order_event \<times> portfolio \<times> risk_snapshot) list \<Rightarrow> risk_manager \<Rightarrow> (time_point \<times> risk_action) list \<times> risk_manager" where
  "run_checks [] r = ([], r)"
| "run_checks ((ord, port, snap) # xs) r =
     (let (a, r1) = check_order ord port snap r; (lg, r2) = run_checks xs r1 in ((timestamp ord, a) # lg, r2))"

subsection \<open>The daily budget\<close>

lemma advance_reset_spec: "now < advance_reset tp now \<and> (tp \<le> now \<longrightarrow> advance_reset tp now \<le> now + hours 24) \<and>
  (\<exists>k. advance_reset tp now = tp + int k * hours 24)"
proof (induction tp now rule: advance_reset.induct)
  case (1 tp now)
  show ?case
  proof (cases "tp \<le> now")
    case False
    then show ?thesis by (subst (1 2 3) advance_reset.simps) (auto intro!: exI [of _ 0])
  next
    case True
    let ?x = "advance_reset (tp + hours 24) now"
    have e: "advance_reset tp now = ?x" using True by (subst advance_reset.simps) simp
    from 1 [OF True] obtain k where k: "now < ?x" "?x = tp + hours 24 + int k * hours 24"
      and b: "tp + hours 24 \<le> now \<longrightarrow> ?x \<le> now + hours 24" by blast
    have "?x \<le> now + hours 24"
    proof (cases "tp + hours 24 \<le> now")
      case False
      then have "?x = tp + hours 24" by (subst advance_reset.simps) simp
      with True show ?thesis by simp
    qed (use b in simp)
    moreover have "?x = tp + int (Suc k) * hours 24" using k(2) by (simp add: algebra_simps)
    ultimately show ?thesis unfolding e using k(1) by blast
  qed
qed

lemma update_daily_reset_frame [tt_frame]:
  "limits (update_daily_reset now r) = limits r" "order_timestamps (update_daily_reset now r) = order_timestamps r"
  "trade_timestamps (update_daily_reset now r) = trade_timestamps r"
  "last_daily_trade_seq_added (update_daily_reset now r) = last_daily_trade_seq_added r"
  by (simp_all add: update_daily_reset_def Let_def)

lemma update_daily_reset_loss: "daily_loss (update_daily_reset now r) = daily_loss r \<or> daily_loss (update_daily_reset now r) = 0"
  by (simp add: update_daily_reset_def Let_def)

text \<open>The daily reset always ends with the next reset strictly in the future; once a reset time is set, a
  call before it changes nothing, and a call at or after it clears the loss and moves the reset by whole days to within a
  day of now.\<close>

theorem update_daily_reset_advances:
  "now < daily_reset_tp (update_daily_reset now r) \<and>
   (daily_reset_tp r \<noteq> 0 \<and> now < daily_reset_tp r \<longrightarrow> update_daily_reset now r = r) \<and>
   (daily_reset_tp r \<noteq> 0 \<and> daily_reset_tp r \<le> now \<longrightarrow>
      daily_loss (update_daily_reset now r) = 0 \<and> daily_reset_tp (update_daily_reset now r) \<le> now + hours 24 \<and>
      (\<exists>k. daily_reset_tp (update_daily_reset now r) = daily_reset_tp r + int k * hours 24))"
  using advance_reset_spec [of now "daily_reset_tp r"] advance_reset_spec [of now "first_reset (daily_reset_hour (limits r)) now"]
  by (auto simp: update_daily_reset_def Let_def)

definition reaches_daily_check :: "risk_snapshot \<Rightarrow> risk_manager \<Rightarrow> bool" where
  "reaches_daily_check snap r \<longleftrightarrow> \<not> snap_max_drawdown snap / Fin 100 \<ge> max_drawdown (limits r) \<and>
     \<not> (has_last_trade snap \<and> last_trade_pnl snap < - max_loss_per_trade (limits r)) \<and>
     \<not> (max_trades_per_hour (limits r) > 0 \<and> int_of_size (length (trade_timestamps r)) \<ge> max_trades_per_hour (limits r)) \<and>
     max_daily_loss (limits r) > 0"

lemma snd_if_chain: "snd (if a then (h, r) else if b then (h, r) else if c then (h, r) else if d then (x, r') else (y, r)) =
    (if \<not> a \<and> \<not> b \<and> \<not> c \<and> d then r' else r)"
  by simp

lemma check_post_fill_state:
  "snd (check_post_fill f snap r) =
    (if reaches_daily_check snap r then book_trade_loss snap (update_daily_reset (timestamp f) r) else r)"
  unfolding check_post_fill_def reaches_daily_check_def Let_def by (rule snd_if_chain)

lemma book_trade_loss_frame [tt_frame]:
  "limits (book_trade_loss snap r) = limits r" "trade_timestamps (book_trade_loss snap r) = trade_timestamps r"
  by (simp_all add: book_trade_loss_def)

lemma reaches_daily_check_cong:
  "limits r' = limits r \<Longrightarrow> trade_timestamps r' = trade_timestamps r \<Longrightarrow> reaches_daily_check snap r' = reaches_daily_check snap r"
  by (simp only: reaches_daily_check_def)

lemma book_trade_loss_again:
  "daily_loss (book_trade_loss snap (update_daily_reset t (book_trade_loss snap r))) =
   daily_loss (update_daily_reset t (book_trade_loss snap r))"
  by (auto simp: book_trade_loss_def tt_frame)

text \<open>C22: A closed trade is charged to the daily budget at most once: checking the same analytics snapshot again,
  with whatever fill, leaves the accumulated loss as it is or clears it at the daily reset.\<close>

theorem daily_loss_counted_once:
  "daily_loss (snd (check_post_fill g snap (snd (check_post_fill f snap r)))) \<in> {daily_loss (snd (check_post_fill f snap r)), 0}"
proof (cases "reaches_daily_check snap r")
  case True
  let ?r1 = "book_trade_loss snap (update_daily_reset (timestamp f) r)"
  have "reaches_daily_check snap ?r1" using True reaches_daily_check_cong [of ?r1 r snap] by (simp add: tt_frame)
  then show ?thesis using True update_daily_reset_loss [of "timestamp g" ?r1]
    by (simp add: check_post_fill_state book_trade_loss_again)
qed (simp add: check_post_fill_state)

subsection \<open>The order-rate window\<close>

lemma prune_sorted: "sorted q \<Longrightarrow> prune_old_entries q c = filter (\<lambda>t. c \<le> t) q"
proof (induction q)
  case (Cons t ts)
  then have "c \<le> t \<Longrightarrow> filter (\<lambda>t. c \<le> t) ts = ts" by (auto simp: filter_id_conv)
  with Cons show ?case by auto
qed simp

lemma prune_split: "\<exists>pre. q = pre @ prune_old_entries q c \<and> (\<forall>t\<in>set pre. t < c)"
proof (induction q)
  case (Cons t ts)
  then obtain pre where "ts = pre @ prune_old_entries ts c" "\<forall>x\<in>set pre. x < c" by blast
  then show ?case by (intro exI [of _ "if t < c then t # pre else []"]) simp
qed simp

lemma int_of_size_small: "n < 2 ^ 31 \<Longrightarrow> int_of_size n = int n"
  by (simp add: int_of_size_def signed_of_nat signed_take_bit_int_eq_self)

definition in_window :: "time_point \<Rightarrow> time_point \<Rightarrow> bool" where
  "in_window c t \<longleftrightarrow> c \<le> t \<and> t \<le> c + seconds 60"

text \<open>\<open>ps\<close> are the times that entered the window so far, \<open>T\<close> the time of the last check: the deque is what is left
  of \<open>ps\<close> after dropping entries older than the last minute.\<close>

definition rate_inv :: "int \<Rightarrow> time_point \<Rightarrow> time_point list \<Rightarrow> risk_manager \<Rightarrow> bool" where
  "rate_inv m T ps r \<longleftrightarrow> max_orders_per_minute (limits r) = m \<and> sorted ps \<and> (\<forall>t\<in>set ps. t \<le> T) \<and>
     (\<exists>old. ps = old @ order_timestamps r \<and> (\<forall>t\<in>set old. t < T - seconds 60)) \<and>
     (\<forall>c. int (length (filter (in_window c) ps)) \<le> m)"

lemma rate_inv_later: "rate_inv m T ps r \<Longrightarrow> T \<le> t \<Longrightarrow> rate_inv m t ps r"
  unfolding rate_inv_def by fastforce

lemma rate_inv_cong: "order_timestamps r' = order_timestamps r \<Longrightarrow> limits r' = limits r \<Longrightarrow> rate_inv m T ps r' = rate_inv m T ps r"
  by (simp add: rate_inv_def)

lemma rate_inv_prune:
  assumes "rate_inv m T ps r"
  shows "rate_inv m T ps (r\<lparr>order_timestamps := prune_old_entries (order_timestamps r) (T - seconds 60)\<rparr>)"
proof -
  from assms obtain old where o: "ps = old @ order_timestamps r" "\<forall>t\<in>set old. t < T - seconds 60" "sorted ps"
    by (auto simp: rate_inv_def)
  obtain pre where p: "order_timestamps r = pre @ prune_old_entries (order_timestamps r) (T - seconds 60)"
      "\<forall>t\<in>set pre. t < T - seconds 60" using prune_split by blast
  let ?q = "prune_old_entries (order_timestamps r) (T - seconds 60)"
  have "ps = (old @ pre) @ ?q" using o(1) p(1) by simp
  moreover have "\<forall>t\<in>set (old @ pre). t < T - seconds 60" using o(2) p(2) by auto
  ultimately have "\<exists>old. ps = old @ ?q \<and> (\<forall>t\<in>set old. t < T - seconds 60)" by blast
  then show ?thesis using assms by (simp add: rate_inv_def)
qed

lemma rate_inv_push:
  assumes inv: "rate_inv m T ps r" and all: "\<forall>t\<in>set (order_timestamps r). T - seconds 60 \<le> t"
    and room: "int (length (order_timestamps r)) < m"
  shows "rate_inv m T (ps @ [T]) (r\<lparr>order_timestamps := order_timestamps r @ [T]\<rparr>)"
proof -
  from inv obtain old where o: "ps = old @ order_timestamps r" "\<forall>t\<in>set old. t < T - seconds 60"
    by (auto simp: rate_inv_def)
  have "int (length (filter (in_window c) (ps @ [T]))) \<le> m" for c
  proof (cases "T \<le> c + seconds 60")
    case True
    with o(2) have "filter (in_window c) old = []" by (fastforce simp: in_window_def filter_empty_conv)
    then have "length (filter (in_window c) ps) = length (filter (in_window c) (order_timestamps r))" by (simp add: o(1))
    then have "int (length (filter (in_window c) ps)) + 1 \<le> m"
      using room length_filter_le [of "in_window c" "order_timestamps r"] by linarith
    then show ?thesis by simp
  next
    case False
    then show ?thesis using inv by (simp add: rate_inv_def in_window_def)
  qed
  moreover have "\<exists>old. ps @ [T] = old @ order_timestamps r @ [T] \<and> (\<forall>t\<in>set old. t < T - seconds 60)" using o by auto
  ultimately show ?thesis using inv by (simp add: rate_inv_def sorted_append)
qed

lemma rate_gate_inv:
  assumes "rate_inv m T ps r" "T \<le> t" "0 < m" "m < 2 ^ 31" "rate_gate t r = (ok, r')"
  shows "rate_inv m t (if ok then ps @ [t] else ps) r'"
proof -
  let ?q = "prune_old_entries (order_timestamps r) (t - seconds 60)"
  let ?r = "r\<lparr>order_timestamps := ?q\<rparr>"
  have i: "rate_inv m t ps ?r" by (rule rate_inv_prune [OF rate_inv_later [OF assms(1,2)]])
  have m: "max_orders_per_minute (limits r) = m" and s: "sorted (order_timestamps r)"
    using assms(1) by (auto simp: rate_inv_def sorted_append)
  have q: "\<forall>x\<in>set ?q. t - seconds 60 \<le> x" by (simp add: prune_sorted [OF s])
  have "\<forall>x\<in>set ?q. in_window (t - seconds 60) x" using i q by (auto simp: rate_inv_def in_window_def)
  then have "filter (in_window (t - seconds 60)) ?q = ?q" by (simp add: filter_id_conv)
  then have "int (length ?q) \<le> m"
    using i by (auto simp: rate_inv_def dest!: spec [where x = "t - seconds 60"])
  then have c: "int_of_size (length ?q) = int (length ?q)" using assms(4) by (intro int_of_size_small) simp
  show ?thesis
  proof (cases "int (length ?q) \<ge> m")
    case True
    then have "ok = False" "r' = ?r" using assms(3,5) by (auto simp: rate_gate_def m c Let_def)
    with i show ?thesis by simp
  next
    case False
    then have "ok = True" "r' = ?r\<lparr>order_timestamps := order_timestamps ?r @ [t]\<rparr>"
      using assms(3,5) by (auto simp: rate_gate_def m c Let_def)
    with rate_inv_push [OF i] q False show ?thesis by simp
  qed
qed

lemma check_order_state:
  assumes "static_gates (limits r) ord port snap = None" "rate_gate (timestamp ord) r = (True, r1)"
  shows "snd (check_order ord port snap r) = (if max_daily_loss (limits r1) > 0 then update_daily_reset (timestamp ord) r1 else r1)"
  by (simp add: check_order_def assms Let_def)

lemma check_order_rate:
  assumes "rate_inv m T ps r" "T \<le> timestamp ord" "0 < m" "m < 2 ^ 31" "check_order ord port snap r = (a, r')"
  shows "\<exists>e. rate_inv m (timestamp ord) (ps @ e) r' \<and> (a = Risk_Pass \<longrightarrow> e = [timestamp ord])"
proof (cases "static_gates (limits r) ord port snap")
  case (Some b)
  have "static_gates l o1 p s \<noteq> Some Risk_Pass" for l o1 p s by (simp add: static_gates_def Let_def)
  with Some assms(5) have "r' = r" "a \<noteq> Risk_Pass" by (auto simp: check_order_def)
  then show ?thesis using rate_inv_later [OF assms(1,2)] by (intro exI [of _ "[]"]) simp
next
  case None
  obtain ok r1 where g: "rate_gate (timestamp ord) r = (ok, r1)" by fastforce
  note i = rate_gate_inv [OF assms(1-4) g]
  show ?thesis
  proof (cases ok)
    case True
    then have "rate_gate (timestamp ord) r = (True, r1)" using g by simp
    from check_order_state [OF None this]
    have r': "r' = (if max_daily_loss (limits r1) > 0 then update_daily_reset (timestamp ord) r1 else r1)"
      unfolding assms(5) snd_conv .
    have "order_timestamps r' = order_timestamps r1" "limits r' = limits r1"
      unfolding r' by (simp_all add: update_daily_reset_frame)
    from rate_inv_cong [OF this, of m "timestamp ord" "ps @ [timestamp ord]"] i True
    have "rate_inv m (timestamp ord) (ps @ [timestamp ord]) r'" by simp
    then show ?thesis by blast
  next
    case False
    then have "r' = r1" "a = Risk_Reject" using assms(5) None g by (auto simp: check_order_def)
    then show ?thesis using i False by (intro exI [of _ "[]"]) simp
  qed
qed

definition pass_times :: "(time_point \<times> risk_action) list \<Rightarrow> time_point list" where
  "pass_times lg = map fst (filter (\<lambda>x. snd x = Risk_Pass) lg)"

lemma run_checks_rate:
  assumes "rate_inv m T ps r" "0 < m" "m < 2 ^ 31" "sorted (T # map (\<lambda>x. timestamp (fst x)) xs)" "run_checks xs r = (lg, r')"
  shows "\<exists>e T'. rate_inv m T' (ps @ e) r' \<and> (\<forall>P. length (filter P (pass_times lg)) \<le> length (filter P e))"
  using assms
proof (induction xs arbitrary: T ps r lg)
  case Nil
  then show ?case by (auto simp: pass_times_def intro!: exI [of _ "[]"])
next
  case (Cons x xs)
  obtain ord port snap where x: "x = (ord, port, snap)" by (cases x)
  obtain a r1 where c: "check_order ord port snap r = (a, r1)" by fastforce
  obtain lg1 where l: "run_checks xs r1 = (lg1, r')" "lg = (timestamp ord, a) # lg1"
    using Cons.prems(5) by (auto simp: x c split: prod.splits)
  have t: "T \<le> timestamp ord" "sorted (timestamp ord # map (\<lambda>x. timestamp (fst x)) xs)"
    using Cons.prems(4) by (auto simp: x)
  obtain e where e: "rate_inv m (timestamp ord) (ps @ e) r1" "a = Risk_Pass \<longrightarrow> e = [timestamp ord]"
    using check_order_rate [OF Cons.prems(1) t(1) Cons.prems(2,3) c] by blast
  obtain e1 T' where e1: "rate_inv m T' ((ps @ e) @ e1) r'" "\<forall>P. length (filter P (pass_times lg1)) \<le> length (filter P e1)"
    using Cons.IH [OF e(1) Cons.prems(2,3) t(2) l(1)] by blast
  have "length (filter P (pass_times lg)) \<le> length (filter P (e @ e1))" for P
    using e(2) e1(2) [rule_format, of P] by (auto simp: pass_times_def l(2))
  then show ?case using e1(1) by (intro exI [of _ "e @ e1"] exI [of _ T']) simp
qed

text \<open>The order-rate limit is a true sliding window: with \<open>max_orders_per_minute\<close> set to \<open>m\<close>, whatever orders are
  checked in time order, no sixty-second interval holds more than \<open>m\<close> orders that passed.\<close>

theorem order_rate_limited:
  assumes "order_timestamps r = []" "max_orders_per_minute (limits r) = m" "0 < m" "m < 2 ^ 31"
    and "sorted (map (\<lambda>x. timestamp (fst x)) xs)"
  shows "int (length (filter (in_window c) (pass_times (fst (run_checks xs r))))) \<le> m"
proof (cases xs)
  case Nil
  then show ?thesis using assms(3) by (simp add: pass_times_def)
next
  case (Cons x ys)
  obtain lg r' where l: "run_checks xs r = (lg, r')" by fastforce
  have "rate_inv m (timestamp (fst x)) [] r" using assms(1-3) by (simp add: rate_inv_def)
  from run_checks_rate [OF this assms(3,4) _ l] assms(5) obtain e T'
    where "rate_inv m T' e r'" "\<forall>P. length (filter P (pass_times lg)) \<le> length (filter P e)" by (auto simp: Cons)
  then have "int (length (filter (in_window c) e)) \<le> m"
    "length (filter (in_window c) (pass_times lg)) \<le> length (filter (in_window c) e)" by (auto simp: rate_inv_def)
  then show ?thesis by (simp add: l)
qed

definition rate_demo :: "time_point \<Rightarrow> order_event \<times> portfolio \<times> risk_snapshot" where
  "rate_demo t = (mk_order_event t ''BTC'' OT_Limit Buy (dint 2) (dint 100) TIF_GTC 0, mk_portfolio (dint 1000),
     \<lparr>snap_max_drawdown = 0, total_orders = 0, snap_total_fills = 0, last_trade_pnl = 0, has_last_trade = False,
      last_trade_seq = 0, snap_equity = 0, realized_vol_1h = 0, current_spread_bps = 0, current_funding_8h_rate = 0\<rparr>)"

definition limits_demo :: risk_limits where
  "limits_demo = \<lparr>max_position_value = dint 1000, max_drawdown = Fin (1 / 2), max_loss_per_trade = dint 100, max_open_orders = 10,
     max_portfolio_exposure = dint 1000, max_daily_loss = 0, daily_reset_hour = 0, max_trades_per_hour = 0,
     max_orders_per_minute = 1, max_position_pct_of_equity = 0, max_portfolio_var_estimate = 0, max_spread_bps = 0,
     max_funding_8h_rate = 0\<rparr>"

lemma demo_gates: "static_gates limits_demo (fst (rate_demo t)) (mk_portfolio (dint 1000)) (snd (snd (rate_demo t))) = None"
proof -
  have "(0::double) / Fin 100 = 0" "\<not> Fin (1 / 2) \<le> 0" by (simp_all add: zero_double_def dops_Fin)
  then show ?thesis
    by (simp add: static_gates_def rate_demo_def limits_demo_def mk_portfolio_def mk_order_event_def Let_def int_of_u64_def
      reduces_position_exposure_def projected_position_notional_def projected_total_exposure_def valuation_price_def
      signed_order_quantity_def dint_zero dint_ieee dint_ops)
qed

theorem order_rate_limited_witness:
  "length (filter (in_window 0) (pass_times (fst (run_checks [rate_demo 0, rate_demo 1] (mk_risk_manager limits_demo))))) \<le> 1"
  using order_rate_limited [of "mk_risk_manager limits_demo" 1 "[rate_demo 0, rate_demo 1]" 0]
  by (simp add: mk_risk_manager_def limits_demo_def rate_demo_def mk_order_event_def)

theorem update_daily_reset_advances_witness:
  "0 < daily_reset_tp (update_daily_reset 0 (mk_risk_manager limits_demo))"
  using update_daily_reset_advances [of 0 "mk_risk_manager limits_demo"] by blast

subsection \<open>What a passed order can do to the portfolio\<close>

lemma check_order_pass_gates:
  "fst (check_order ord port snap r) = Risk_Pass \<Longrightarrow> static_gates (limits r) ord port snap = None"
proof (cases "static_gates (limits r) ord port snap")
  case (Some a)
  have "static_gates l o1 p s \<noteq> Some Risk_Pass" for l o1 p s by (simp add: static_gates_def Let_def)
  with Some show "fst (check_order ord port snap r) = Risk_Pass \<Longrightarrow> ?thesis" by (auto simp: check_order_def)
qed simp

lemma static_gates_value:
  "static_gates l ord port snap = None \<Longrightarrow> \<not> reduces_position_exposure ord (map_of (positions port) (oe_symbol ord)) \<Longrightarrow>
   \<not> projected_position_notional ord (map_of (positions port) (oe_symbol ord)) > max_position_value l"
  unfolding static_gates_def Let_def by (rule notI) (simp split: if_splits)

text \<open>C14: The position limit holds in the portfolio, not only in the projection: when a priced order that does not
  reduce the position passes and is filled in full at whatever price, the position it leaves, valued at the
  order's price, is within \<open>max_position_value\<close>.\<close>

theorem passed_order_within_limit:
  assumes pass: "fst (check_order ord port snap r) = Risk_Pass"
    and adding: "\<not> reduces_position_exposure ord (map_of (positions port) (oe_symbol ord))"
    and price: "oe_price ord > 0" "isfinite (oe_price ord)" and limit: "0 \<le> max_position_value (limits r)"
    and fill: "fe_symbol f = oe_symbol ord" "fe_side f = oe_side ord" "fe_filled_quantity f = oe_quantity ord"
    and fin: "isfinite (oe_quantity ord)" "ieee (oe_quantity ord)"
      "isfinite (qty (position_of (oe_symbol ord) port))" "ieee (qty (position_of (oe_symbol ord) port))"
  shows "\<bar>qty (position_of (oe_symbol ord) (portfolio_on_fill f i st port))\<bar> * oe_price ord \<le> max_position_value (limits r)"
proof -
  let ?q = "qty (position_of (oe_symbol ord) port)" and ?m = "max_position_value (limits r)"
  let ?x = "qty (position_of (oe_symbol ord) (portfolio_on_fill f i st port))"
  have e: "?x = qty (fst (snd (netted_fill f (cash port, position_of (oe_symbol ord) port, total_trades port))))"
    by (simp add: portfolio_on_fill_def Let_def tt_frame position_of_def fill(1))
  have x: "?x \<in> {?q + signed_order_quantity ord, 0}"
    unfolding e signed_order_quantity_def fill(2) [symmetric]
    by (rule netted_fill_qty) (use fin in \<open>simp_all only: fill(3)\<close>)
  have p: "projected_position_notional ord (map_of (positions port) (oe_symbol ord)) = \<bar>?q + signed_order_quantity ord\<bar> * oe_price ord"
    using price(1) by (simp add: projected_position_notional_def position_of_def valuation_price_def split: option.split)
  have "\<not> \<bar>?q + signed_order_quantity ord\<bar> * oe_price ord > ?m"
    using static_gates_value [OF check_order_pass_gates [OF pass] adding] unfolding p .
  moreover have "\<bar>?q + signed_order_quantity ord\<bar> * oe_price ord \<noteq> NaN"
    using price fin by (auto simp: isfinite_iff signed_order_quantity_def dops_Fin abs_mul_not_NaN)
  moreover have "?m \<noteq> NaN" "\<bar>0\<bar> * oe_price ord = 0" using limit price(2) by (auto simp: isfinite_iff zero_double_def dops_Fin)
  ultimately show ?thesis using x limit dnot_less [of ?m "\<bar>?q + signed_order_quantity ord\<bar> * oe_price ord"] by auto
qed

theorem passed_order_within_limit_witness:
  "\<bar>qty (position_of ''BTC'' (portfolio_on_fill (sample_fill 1 Buy) 1 [] (mk_portfolio (dint 1000))))\<bar> * dint 100 \<le> dint 1000"
proof -
  let ?o = "fst (rate_demo 0)" and ?p = "mk_portfolio (dint 1000)" and ?s = "snd (snd (rate_demo 0))"
  let ?r = "mk_risk_manager limits_demo"
  have l: "limits ?r = limits_demo" by (simp add: mk_risk_manager_def)
  have "static_gates (limits ?r) ?o ?p ?s = None" unfolding l by (rule demo_gates)
  then have "fst (check_order ?o ?p ?s ?r) = Risk_Pass"
    by (simp add: check_order_def rate_gate_def mk_risk_manager_def limits_demo_def int_of_size_def)
  moreover have "map_of (positions ?p) (oe_symbol ?o) = None" by (simp add: mk_portfolio_def)
  moreover have "oe_symbol ?o = ''BTC''" "oe_side ?o = Buy" "oe_quantity ?o = dint 2" "oe_price ?o = dint 100"
    by (simp_all add: rate_demo_def mk_order_event_def)
  moreover have "fe_symbol (sample_fill 1 Buy) = ''BTC''" "fe_side (sample_fill 1 Buy) = Buy"
    "fe_filled_quantity (sample_fill 1 Buy) = dint 2" by (simp_all add: sample_fill_def mk_fill_event_def)
  moreover have "max_position_value limits_demo = dint 1000" by (simp add: limits_demo_def)
  ultimately show ?thesis using passed_order_within_limit [of ?o ?p ?s ?r "sample_fill 1 Buy" 1 "[]"]
    by (simp add: l reduces_position_exposure_def dint_zero dint_ieee position_of_def mk_portfolio_def)
qed

lemma int_of_u64_diff:
  assumes "- (2 ^ 31) \<le> uint a - uint b" "uint a - uint b < 2 ^ 31"
  shows "int_of_u64 (a - b) = uint a - uint b"
proof -
  have d: "is_down (ucast :: u64 \<Rightarrow> 32 word)" by (simp add: is_down)
  have "a - b = word_of_int (uint a - uint b)" by simp
  then have "(ucast (a - b) :: 32 word) = word_of_int (uint a - uint b)"
    using ucast_down_wi [OF d, of "uint a - uint b"] by (simp only:)
  then have "int_of_u64 (a - b) = sint (word_of_int (uint a - uint b) :: 32 word)" unfolding int_of_u64_def by (rule arg_cong)
  also have "\<dots> = signed_take_bit 31 (uint a - uint b)" by (simp only: signed_of_int) simp
  finally show ?thesis using assms by (simp only: signed_take_bit_int_eq_self)
qed

text \<open>C23: The open-order limit counts fills, not open orders: once the fills outnumber the orders sent, as partial fills
  make them, the difference is negative and the limit no longer decides anything: raising it to any other
  non-negative value gives the same answer, however many orders are open.\<close>

theorem open_order_limit_bypassed:
  assumes "uint (total_orders snap) < uint (snap_total_fills snap)" "uint (snap_total_fills snap) < 2 ^ 31"
    and "0 \<le> max_open_orders l" "0 \<le> k"
  shows "static_gates (l\<lparr>max_open_orders := k\<rparr>) ord port snap = static_gates l ord port snap"
proof -
  have "0 \<le> uint (total_orders snap)" by simp
  with assms(1,2) have "- (2 ^ 31) \<le> uint (total_orders snap) - uint (snap_total_fills snap)"
    "uint (total_orders snap) - uint (snap_total_fills snap) < 2 ^ 31" by linarith+
  then have "int_of_u64 (total_orders snap - snap_total_fills snap) < 0" using assms(1) by (simp add: int_of_u64_diff)
  with assms(3,4) have "\<not> k \<le> int_of_u64 (total_orders snap - snap_total_fills snap)"
    "\<not> max_open_orders l \<le> int_of_u64 (total_orders snap - snap_total_fills snap)" by linarith+
  then show ?thesis by (cases l) (simp only: static_gates_def risk_limits.select_convs risk_limits.update_convs if_False)
qed

theorem open_order_limit_bypassed_witness:
  "static_gates (limits_demo\<lparr>max_open_orders := 0\<rparr>) (fst (rate_demo 0)) (mk_portfolio 0)
     (snd (snd (rate_demo 0))\<lparr>total_orders := 3, snap_total_fills := 4\<rparr>) =
   static_gates limits_demo (fst (rate_demo 0)) (mk_portfolio 0)
     (snd (snd (rate_demo 0))\<lparr>total_orders := 3, snap_total_fills := 4\<rparr>)"
  using open_order_limit_bypassed [of "snd (snd (rate_demo 0))\<lparr>total_orders := 3, snap_total_fills := 4\<rparr>" limits_demo 0 "fst (rate_demo 0)" "mk_portfolio 0"]
  by (simp add: limits_demo_def)

end
