(* ===== verification/Analytics.thy ===== *)
theory Analytics
  imports Risk_Manager
begin

text \<open>
  The trade and equity statistics, \<open>src/analytics/analytics.h\<close> and \<open>analytics.cpp\<close>: every handler of \<open>Analytics\<close> and \<open>risk_view\<close>, the
  snapshot that the risk manager decides on. \<open>std::log\<close> is the parameter \<open>lg\<close>. Counters that only count are natural numbers; the two the
  risk manager subtracts, \<open>total_orders_\<close> and \<open>total_fills_\<close>, are 64-bit words. The reports built from this state (\<open>snapshot\<close>, the
  exports) are not modelled.
\<close>

record welford_state =
  wf_n :: int
  wf_mean :: double
  wf_m2 :: double

definition welford_zero :: welford_state where
  "welford_zero = \<lparr>wf_n = 0, wf_mean = 0, wf_m2 = 0\<rparr>"

definition welford_update :: "double \<Rightarrow> welford_state \<Rightarrow> welford_state" where
  "welford_update x w = (let n = wf_n w + 1; delta = x - wf_mean w; mean = wf_mean w + delta / double_of_i64 n
     in \<lparr>wf_n = n, wf_mean = mean, wf_m2 = wf_m2 w + delta * (x - mean)\<rparr>)"

type_synonym equity_point = "time_point \<times> double"

record trade_record =
  tr_order_id :: order_id
  tr_side :: order_side
  tr_quantity :: double
  tr_fill_price :: double
  tr_commission :: double
  tr_intended_price :: double
  tr_timestamp :: time_point
  tr_pnl :: double
  tr_symbol :: symbol
  tr_strategy_name :: string

record sub_analytics =
  sa_total_pnl :: double
  sa_trade_count :: nat
  sa_win_count :: nat
  sa_total_win :: double
  sa_total_loss :: double

record open_position =
  op_qty :: double
  op_avg_entry :: double
  op_open_commission :: double
  op_last_price :: double
  op_entry_time :: time_point

record analytics_core =
  an_initial_cash :: double
  an_cash :: double
  an_open_positions :: "(symbol, open_position) umap"
  an_rolling_window :: nat
  an_risk_free_rate :: double
  an_periods_per_year :: nat
  an_max_equity_points :: nat
  an_equity_stride :: nat
  an_equity_counter :: nat
  an_bench_stride :: nat
  an_bench_counter :: nat
  an_last_close :: double
  an_equity_curve :: "equity_point list"
  an_rolling_returns :: "double list"
  an_prev_equity :: double
  an_order_prices :: "(order_id, double) umap"
  an_order_strategies :: "(order_id, string) umap"
  an_trades :: "trade_record list"
  an_trade_returns :: "double list"

record analytics_risk = analytics_core +
  an_last_equity :: double
  an_realized_vol_1h :: double
  an_last_mid_price :: double
  an_current_spread_bps :: double
  an_current_funding_8h_rate :: double
  an_total_funding_pnl :: double
  an_total_slippage :: double
  an_total_slippage_signed :: double
  an_total_adverse_slippage :: double
  an_total_favorable_slippage :: double
  an_slippage_count :: nat
  an_adverse_count :: nat
  an_favorable_count :: nat
  an_total_orders :: u64
  an_total_fills :: u64
  an_peak_equity :: double
  an_max_drawdown :: double

record analytics = analytics_risk +
  an_total_holding_ms :: double
  an_holding_count :: nat
  an_market_events_total :: nat
  an_market_events_in_position :: nat
  an_first_price :: double
  an_first_price_set :: bool
  an_benchmark_curve :: "equity_point list"
  an_prev_bh_equity :: double
  an_strategy_returns :: "double list"
  an_benchmark_returns :: "double list"
  an_per_symbol :: "(symbol, sub_analytics) umap"
  an_per_strategy :: "(string, sub_analytics) umap"
  an_return_stats :: welford_state
  an_downside_sq_sum :: double
  an_win_count :: nat
  an_total_win :: double
  an_total_loss :: double
  an_largest_winner :: double
  an_largest_loser :: double
  an_tick_to_trade_ns :: welford_state
  an_tick_to_trade_min_ns :: int
  an_tick_to_trade_max_ns :: int

definition mk_analytics :: "double \<Rightarrow> nat \<Rightarrow> double \<Rightarrow> nat \<Rightarrow> nat \<Rightarrow> analytics" where
  "mk_analytics initial_cash rolling_window risk_free periods max_points = \<lparr>
     an_initial_cash = initial_cash, an_cash = initial_cash, an_open_positions = [], an_rolling_window = rolling_window,
     an_risk_free_rate = risk_free, an_periods_per_year = (if periods > 0 then periods else 252),
     an_max_equity_points = (if max_points > 4 then max_points else 4), an_equity_stride = 1, an_equity_counter = 0, an_bench_stride = 1,
     an_bench_counter = 0, an_last_close = 0, an_equity_curve = [], an_rolling_returns = [], an_prev_equity = initial_cash,
     an_order_prices = [], an_order_strategies = [], an_trades = [], an_trade_returns = [], an_last_equity = 0, an_realized_vol_1h = 0,
     an_last_mid_price = 0, an_current_spread_bps = 0, an_current_funding_8h_rate = 0, an_total_funding_pnl = 0, an_total_slippage = 0,
     an_total_slippage_signed = 0, an_total_adverse_slippage = 0, an_total_favorable_slippage = 0, an_slippage_count = 0,
     an_adverse_count = 0, an_favorable_count = 0, an_total_orders = 0, an_total_fills = 0, an_peak_equity = initial_cash,
     an_max_drawdown = 0, an_total_holding_ms = 0, an_holding_count = 0, an_market_events_total = 0, an_market_events_in_position = 0,
     an_first_price = 0, an_first_price_set = False, an_benchmark_curve = [], an_prev_bh_equity = 0, an_strategy_returns = [],
     an_benchmark_returns = [], an_per_symbol = [], an_per_strategy = [], an_return_stats = welford_zero, an_downside_sq_sum = 0,
     an_win_count = 0, an_total_win = 0, an_total_loss = 0, an_largest_winner = 0, an_largest_loser = 0,
     an_tick_to_trade_ns = welford_zero, an_tick_to_trade_min_ns = 0, an_tick_to_trade_max_ns = 0\<rparr>"

text \<open>\<open>reset\<close> keeps the configuration and the last close, and sets \<open>prev_bh_equity_\<close>, which the constructor leaves at 0.\<close>

definition analytics_reset :: "double \<Rightarrow> analytics \<Rightarrow> analytics" where
  "analytics_reset initial_cash a = (mk_analytics initial_cash (an_rolling_window a) (an_risk_free_rate a) (an_periods_per_year a)
     (an_max_equity_points a))\<lparr>an_periods_per_year := an_periods_per_year a, an_max_equity_points := an_max_equity_points a,
       an_last_close := an_last_close a, an_prev_bh_equity := initial_cash\<rparr>"

subsection \<open>Positions and marks\<close>

definition an_pos :: "symbol \<Rightarrow> analytics \<Rightarrow> open_position" where
  "an_pos sy a = (case map_of (an_open_positions a) sy of
     None \<Rightarrow> \<lparr>op_qty = 0, op_avg_entry = 0, op_open_commission = 0, op_last_price = 0, op_entry_time = 0\<rparr> | Some p \<Rightarrow> p)"

definition set_an_pos :: "symbol \<Rightarrow> open_position \<Rightarrow> analytics \<Rightarrow> analytics" where
  "set_an_pos sy p a = a\<lparr>an_open_positions := AList.update sy p (an_open_positions a)\<rparr>"

definition position_value :: "analytics \<Rightarrow> double" where
  "position_value a = foldl (\<lambda>v (sy, p). if \<bar>op_qty p\<bar> > eps12 then v + op_qty p * op_last_price p else v) 0 (an_open_positions a)"

definition an_any_position_open :: "analytics \<Rightarrow> bool" where
  "an_any_position_open a = list_ex (\<lambda>(sy, p). \<bar>op_qty p\<bar> > eps12) (an_open_positions a)"

fun every_other :: "'a list \<Rightarrow> 'a list" where
  "every_other [] = []"
| "every_other [x] = [x]"
| "every_other (x # y # zs) = x # every_other zs"

definition record_equity_point :: "nat \<Rightarrow> equity_point \<Rightarrow> equity_point list \<times> nat \<times> nat \<Rightarrow> equity_point list \<times> nat \<times> nat" where
  "record_equity_point max_points pt = (\<lambda>(curve, stride, counter).
     let counter' = counter + 1; curve' = curve @ [pt] in
     if counter' mod stride \<noteq> 0 then (curve, stride, counter')
     else if length curve' > max_points then (every_other curve', stride * 2, counter') else (curve', stride, counter'))"

definition record_equity :: "equity_point \<Rightarrow> analytics \<Rightarrow> analytics" where
  "record_equity pt a = (let (c, s, n) = record_equity_point (an_max_equity_points a) pt (an_equity_curve a, an_equity_stride a, an_equity_counter a)
     in a\<lparr>an_equity_curve := c, an_equity_stride := s, an_equity_counter := n\<rparr>)"

definition record_benchmark :: "equity_point \<Rightarrow> analytics \<Rightarrow> analytics" where
  "record_benchmark pt a = (let (c, s, n) = record_equity_point (an_max_equity_points a) pt (an_benchmark_curve a, an_bench_stride a, an_bench_counter a)
     in a\<lparr>an_benchmark_curve := c, an_bench_stride := s, an_bench_counter := n\<rparr>)"

definition track_drawdown :: "double \<Rightarrow> analytics \<Rightarrow> analytics" where
  "track_drawdown eqy a =
     (let peak = (if eqy > an_peak_equity a then eqy else an_peak_equity a);
          dd = (peak - eqy) / peak
      in a\<lparr>an_peak_equity := peak, an_max_drawdown := (if peak > 0 \<and> dd > an_max_drawdown a then dd else an_max_drawdown a)\<rparr>)"

definition on_mark :: "symbol \<Rightarrow> double \<Rightarrow> analytics \<Rightarrow> analytics" where
  "on_mark sy price a =
     (let a1 = (set_an_pos sy ((an_pos sy a)\<lparr>op_last_price := price\<rparr>) a)\<lparr>an_last_close := price\<rparr>;
          eqy = an_cash a1 + position_value a1
      in track_drawdown eqy (a1\<lparr>an_last_equity := eqy\<rparr>))"

definition track_vol :: "(double \<Rightarrow> double) \<Rightarrow> double \<Rightarrow> analytics \<Rightarrow> analytics" where
  "track_vol lg mid a =
     (let alpha = lit (2 / 100)
      in a\<lparr>an_realized_vol_1h := (if an_last_mid_price a > 0 \<and> mid > 0
              then alpha * \<bar>lg (mid / an_last_mid_price a)\<bar> + (1 - alpha) * an_realized_vol_1h a else an_realized_vol_1h a),
           an_last_mid_price := mid\<rparr>)"

definition note_first_price :: "double \<Rightarrow> analytics \<Rightarrow> analytics" where
  "note_first_price px a = (if an_first_price_set a then a else a\<lparr>an_first_price := px, an_first_price_set := True\<rparr>)"

text \<open>The period return, once there is a previous market event.\<close>

definition track_returns :: "double \<Rightarrow> double option \<Rightarrow> analytics \<Rightarrow> analytics" where
  "track_returns eqy bh a =
     (if an_prev_equity a > 0 \<and> an_market_events_total a > 1 then
        (let ret = (eqy - an_prev_equity a) / an_prev_equity a;
             mar = (if an_periods_per_year a > 0 then an_risk_free_rate a / double_of_u64 (of_nat (an_periods_per_year a)) else 0);
             shortfall = ret - mar;
             rolling = an_rolling_returns a @ [ret]
         in a\<lparr>an_strategy_returns := an_strategy_returns a @ [ret], an_return_stats := welford_update ret (an_return_stats a),
              an_downside_sq_sum := (if shortfall < 0 then an_downside_sq_sum a + shortfall * shortfall else an_downside_sq_sum a),
              an_benchmark_returns := (case bh of Some b \<Rightarrow> if an_prev_bh_equity a > 0
                  then an_benchmark_returns a @ [(b - an_prev_bh_equity a) / an_prev_bh_equity a] else an_benchmark_returns a
                | None \<Rightarrow> an_benchmark_returns a),
              an_rolling_returns := (if length rolling > an_rolling_window a then tl rolling else rolling)\<rparr>)
      else a)"

definition an_on_market :: "(double \<Rightarrow> double) \<Rightarrow> market_event \<Rightarrow> analytics \<Rightarrow> analytics" where
  "an_on_market lg m a =
     (let a1 = note_first_price (me_close m) (track_vol lg (me_close m) (a\<lparr>an_last_close := me_close m\<rparr>));
          a2 = set_an_pos (me_symbol m) ((an_pos (me_symbol m) a1)\<lparr>op_last_price := me_close m\<rparr>) a1;
          a3 = a2\<lparr>an_market_events_total := an_market_events_total a2 + 1,
                  an_market_events_in_position := (if an_any_position_open a2 then an_market_events_in_position a2 + 1
                    else an_market_events_in_position a2)\<rparr>;
          eqy = an_cash a3 + position_value a3;
          a4 = record_equity (timestamp m, eqy) (a3\<lparr>an_last_equity := eqy\<rparr>);
          bh = (if an_first_price_set a4 \<and> an_first_price a4 > 0 then Some (an_initial_cash a4 * (me_close m / an_first_price a4)) else None);
          a5 = (track_returns eqy bh a4)\<lparr>an_prev_equity := eqy\<rparr>;
          a6 = (case bh of None \<Rightarrow> a5 | Some b \<Rightarrow> (record_benchmark (timestamp m, b) a5)\<lparr>an_prev_bh_equity := b\<rparr>)
      in track_drawdown eqy a6)"

definition an_on_tick :: "(double \<Rightarrow> double) \<Rightarrow> tick_event \<Rightarrow> analytics \<Rightarrow> analytics" where
  "an_on_tick lg t a =
     (let a1 = set_an_pos (te_symbol t) ((an_pos (te_symbol t) a)\<lparr>op_last_price := te_price t\<rparr>) (a\<lparr>an_last_close := te_price t\<rparr>)
      in note_first_price (te_price t) (track_vol lg (te_price t) (a1\<lparr>an_last_equity := an_cash a1 + position_value a1\<rparr>)))"

definition an_on_order :: "order_event \<Rightarrow> analytics \<Rightarrow> analytics" where
  "an_on_order o' a = a\<lparr>an_order_prices := AList.update (oe_order_id o') (oe_price o') (an_order_prices a),
     an_order_strategies := (if oe_strategy_name o' \<noteq> [] then AList.update (oe_order_id o') (oe_strategy_name o') (an_order_strategies a)
       else an_order_strategies a), an_total_orders := an_total_orders a + 1\<rparr>"

definition an_on_funding :: "funding_event \<Rightarrow> analytics \<Rightarrow> analytics" where
  "an_on_funding fe a =
     (let a1 = a\<lparr>an_cash := an_cash a + fu_cash_delta fe, an_total_funding_pnl := an_total_funding_pnl a + fu_cash_delta fe\<rparr>;
          eqy = an_cash a1 + position_value a1
      in record_equity (timestamp fe, eqy) (a1\<lparr>an_last_equity := eqy\<rparr>))"

definition an_on_l2_snapshot :: "l2_snapshot_event \<Rightarrow> analytics \<Rightarrow> analytics" where
  "an_on_l2_snapshot e a = (case (ls_bids e, ls_asks e) of (b # bs, s # ss) \<Rightarrow>
       (let bid = l2_price b; ask = l2_price s in
        if ask > bid \<and> bid > 0 then a\<lparr>an_current_spread_bps := ((ask - bid) / ((ask + bid) / Fin 2)) * Fin 10000\<rparr> else a)
     | _ \<Rightarrow> a)"

subsection \<open>Fills\<close>

definition record_latency :: "int \<Rightarrow> analytics \<Rightarrow> analytics" where
  "record_latency lat a =
     (let w = welford_update (double_of_i64 lat) (an_tick_to_trade_ns a)
      in a\<lparr>an_tick_to_trade_ns := w,
           an_tick_to_trade_min_ns := (if wf_n w = 1 \<or> lat < an_tick_to_trade_min_ns a then lat else an_tick_to_trade_min_ns a),
           an_tick_to_trade_max_ns := (if lat > an_tick_to_trade_max_ns a then lat else an_tick_to_trade_max_ns a)\<rparr>)"

definition side_sign :: "order_side \<Rightarrow> double" where
  "side_sign s = (case s of Buy \<Rightarrow> 1 | Sell \<Rightarrow> - 1)"

definition record_slippage :: "fill_event \<Rightarrow> double \<Rightarrow> analytics \<Rightarrow> analytics" where
  "record_slippage f intended a =
     (let raw = fe_fill_price f - intended; slip = raw * side_sign (fe_side f);
          a1 = a\<lparr>an_total_slippage := an_total_slippage a + \<bar>raw\<bar>, an_total_slippage_signed := an_total_slippage_signed a + slip,
                 an_slippage_count := an_slippage_count a + 1\<rparr>
      in if slip > 0 then a1\<lparr>an_total_adverse_slippage := an_total_adverse_slippage a1 + slip, an_adverse_count := an_adverse_count a1 + 1\<rparr>
         else if slip < 0 then a1\<lparr>an_total_favorable_slippage := an_total_favorable_slippage a1 + - slip,
           an_favorable_count := an_favorable_count a1 + 1\<rparr>
         else a1)"

definition sub_add :: "double \<Rightarrow> string \<Rightarrow> (string, sub_analytics) umap \<Rightarrow> (string, sub_analytics) umap" where
  "sub_add pnl key m =
     (let sa = (case map_of m key of None \<Rightarrow> \<lparr>sa_total_pnl = 0, sa_trade_count = 0, sa_win_count = 0, sa_total_win = 0, sa_total_loss = 0\<rparr>
                | Some s \<Rightarrow> s);
          sa1 = sa\<lparr>sa_total_pnl := sa_total_pnl sa + pnl, sa_trade_count := sa_trade_count sa + 1\<rparr>
      in AList.update key (if pnl > 0 then sa1\<lparr>sa_win_count := sa_win_count sa1 + 1, sa_total_win := sa_total_win sa1 + pnl\<rparr>
           else sa1\<lparr>sa_total_loss := sa_total_loss sa1 + \<bar>pnl\<bar>\<rparr>) m)"

definition record_close :: "fill_event \<Rightarrow> string \<Rightarrow> double \<Rightarrow> time_point \<Rightarrow> analytics \<Rightarrow> analytics" where
  "record_close f strat pnl entry_time a =
     (let a1 = a\<lparr>an_trade_returns := an_trade_returns a @ [pnl]\<rparr>;
          a2 = (if pnl > 0 then a1\<lparr>an_win_count := an_win_count a1 + 1, an_total_win := an_total_win a1 + pnl,
                    an_largest_winner := (if pnl > an_largest_winner a1 then pnl else an_largest_winner a1)\<rparr>
                else a1\<lparr>an_total_loss := an_total_loss a1 + \<bar>pnl\<bar>,
                    an_largest_loser := (if pnl < an_largest_loser a1 then pnl else an_largest_loser a1)\<rparr>);
          d = timestamp f - entry_time;
          hold_ms = (if d \<ge> 0 then d div 1000000 else - (- d div 1000000))
      in a2\<lparr>an_per_symbol := sub_add pnl (fe_symbol f) (an_per_symbol a2),
            an_per_strategy := (if strat \<noteq> [] then sub_add pnl strat (an_per_strategy a2) else an_per_strategy a2),
            an_total_holding_ms := an_total_holding_ms a2 + double_of_i64 hold_ms, an_holding_count := an_holding_count a2 + 1\<rparr>)"

text \<open>The part of a fill that closes an opposite position: the cash, the position, the profit and the quantity left.\<close>

definition close_part :: "fill_event \<Rightarrow> open_position \<Rightarrow> double \<Rightarrow> double \<times> open_position \<times> double \<times> double" where
  "close_part f p c =
     (let s = side_sign (fe_side f); fq = fe_filled_quantity f;
          pos_sign = (if op_qty p > 0 then 1 else - 1);
          prev_abs = \<bar>op_qty p\<bar>;
          close_qty = std_min prev_abs fq;
          gross = (fe_fill_price f - op_avg_entry p) * close_qty * pos_sign;
          close_comm = fe_commission f * (close_qty / fq);
          share = op_open_commission p * (close_qty / prev_abs);
          q' = op_qty p + s * close_qty;
          p' = p\<lparr>op_open_commission := op_open_commission p - share, op_qty := q'\<rparr>
      in (c + (- s * close_qty * fe_fill_price f - close_comm),
          if \<bar>q'\<bar> < eps12 then p'\<lparr>op_qty := 0, op_avg_entry := 0, op_open_commission := 0\<rparr> else p',
          gross - close_comm - share, fq - close_qty))"

definition open_part :: "fill_event \<Rightarrow> double \<Rightarrow> open_position \<Rightarrow> double \<Rightarrow> double \<times> open_position" where
  "open_part f left p c =
     (let s = side_sign (fe_side f); open_comm = fe_commission f * (left / fe_filled_quantity f); prev_abs = \<bar>op_qty p\<bar>
      in (c - (s * left * fe_fill_price f + open_comm),
          p\<lparr>op_avg_entry := (op_avg_entry p * prev_abs + fe_fill_price f * left) / (prev_abs + left),
            op_qty := op_qty p + s * left, op_open_commission := op_open_commission p + open_comm,
            op_entry_time := (if prev_abs < eps12 then timestamp f else op_entry_time p)\<rparr>))"

text \<open>The cash and the position after the fill, and the profit where it closes something.\<close>

definition fill_account :: "fill_event \<Rightarrow> double \<Rightarrow> open_position \<Rightarrow> double \<times> open_position \<times> double option" where
  "fill_account f c p0 =
     (let p = p0\<lparr>op_last_price := fe_fill_price f\<rparr>;
          (c1, p1, pnl, left) = (if \<bar>op_qty p\<bar> > eps12 \<and> op_qty p * side_sign (fe_side f) < 0
            then (case close_part f p c of (c1, p1, pnl, left) \<Rightarrow> (c1, p1, Some pnl, left)) else (c, p, None, fe_filled_quantity f));
          (c2, p2) = (if left > eps12 then open_part f left p1 c1 else (c1, p1))
      in (c2, p2, pnl))"

text \<open>Counting, latency and slippage: the price the order was meant at.\<close>

definition note_fill :: "fill_event \<Rightarrow> analytics \<Rightarrow> double \<times> analytics" where
  "note_fill f a =
     (let a1 = a\<lparr>an_total_fills := an_total_fills a + 1\<rparr>;
          a2 = (if latency_ns f > 0 then record_latency (latency_ns f) a1 else a1)
      in case map_of (an_order_prices a2) (fe_order_id f) of None \<Rightarrow> (0, a2) | Some px \<Rightarrow> (px, record_slippage f px a2))"

definition an_on_fill :: "fill_event \<Rightarrow> analytics \<Rightarrow> analytics" where
  "an_on_fill f a =
     (let (intended, a3) = note_fill f a;
          strat = (case map_of (an_order_strategies a3) (fe_order_id f) of None \<Rightarrow> [] | Some s \<Rightarrow> s);
          p = an_pos (fe_symbol f) a3;
          (c, p', pnl) = fill_account f (an_cash a3) p;
          a4 = (case pnl of None \<Rightarrow> a3 | Some x \<Rightarrow> record_close f strat x (op_entry_time p) a3)
      in set_an_pos (fe_symbol f) p' (a4\<lparr>an_cash := c, an_trades := an_trades a4 @ [\<lparr>tr_order_id = fe_order_id f, tr_side = fe_side f,
           tr_quantity = fe_filled_quantity f, tr_fill_price = fe_fill_price f, tr_commission = fe_commission f, tr_intended_price = intended,
           tr_timestamp = timestamp f, tr_pnl = (case pnl of None \<Rightarrow> 0 | Some x \<Rightarrow> x), tr_symbol = fe_symbol f, tr_strategy_name = strat\<rparr>]\<rparr>))"

text \<open>\<open>on_event\<close>. The case of a signal has no \<open>break\<close>: it goes on to read the signal as an order book snapshot, which is undefined.\<close>

definition an_on_event :: "(double \<Rightarrow> double) \<Rightarrow> any_event \<Rightarrow> analytics \<Rightarrow> analytics option" where
  "an_on_event lg e a = (case e of AE_Market m \<Rightarrow> Some (an_on_market lg m a) | AE_Tick t \<Rightarrow> Some (an_on_tick lg t a)
     | AE_Order o' \<Rightarrow> Some (an_on_order o' a) | AE_Fill f \<Rightarrow> Some (an_on_fill f a) | AE_Signal s \<Rightarrow> None
     | AE_Snapshot s \<Rightarrow> Some (an_on_l2_snapshot s a) | AE_Update u \<Rightarrow> Some a | AE_Cancel c \<Rightarrow> Some a | AE_Amend m \<Rightarrow> Some a
     | AE_Rejection r \<Rightarrow> Some a | AE_Funding fe \<Rightarrow> Some (an_on_funding fe a))"

definition risk_view :: "analytics \<Rightarrow> risk_snapshot" where
  "risk_view a = \<lparr>snap_max_drawdown = an_max_drawdown a * Fin 100, total_orders = an_total_orders a, snap_total_fills = an_total_fills a,
     last_trade_pnl = (if an_trades a = [] then 0 else tr_pnl (last (an_trades a))), has_last_trade = (an_trades a \<noteq> []),
     last_trade_seq = of_nat (length (an_trades a)), snap_equity = an_last_equity a, realized_vol_1h = an_realized_vol_1h a,
     current_spread_bps = an_current_spread_bps a, current_funding_8h_rate = an_current_funding_8h_rate a\<rparr>"

subsection \<open>Cash and positions are those of the portfolio\<close>

lemma dmul_neg_left: "- a * b = - (a * (b::double))"
  by (cases a; cases b) (auto simp: double_defs rnd_minus [unfolded uminus_double_def])

lemma dmul_one_left: "ieee a \<Longrightarrow> 1 * a = (a::double)"
  by (cases a) (simp_all add: double_defs ieee_Fin)

lemma dint_signed: "\<bar>c\<bar> \<le> 2 ^ 53 \<Longrightarrow> 1 * dint c = dint c" "\<bar>c\<bar> \<le> 2 ^ 53 \<Longrightarrow> - 1 * dint c = dint (- c)"
  by (simp_all add: dmul_neg_left dmul_one_left dint_ieee)

lemma dsub_neg: "c - (- x + y) = c + (x - (y::double))" "c + (- x - y) = c - (x + (y::double))"
  by (simp_all add: dsub_uminus dneg_add)

lemma fill_parts [tt_frame]:
  "an_cash (record_latency l a) = an_cash a" "an_open_positions (record_latency l a) = an_open_positions a"
  "an_cash (record_slippage f px a) = an_cash a" "an_open_positions (record_slippage f px a) = an_open_positions a"
  "an_cash (record_close f st pnl t a) = an_cash a" "an_open_positions (record_close f st pnl t a) = an_open_positions a"
  by (simp_all add: record_latency_def record_slippage_def record_close_def Let_def)

lemma note_fill_parts [tt_frame]: "an_cash (snd (note_fill f a)) = an_cash a" "an_open_positions (snd (note_fill f a)) = an_open_positions a"
  by (simp_all add: note_fill_def Let_def tt_frame split: option.split)

lemma an_on_fill_eq:
  fixes f a
  defines "b \<equiv> snd (note_fill f a)"
  defines "r \<equiv> fill_account f (an_cash b) (an_pos (fe_symbol f) b)"
  obtains st rec where "an_on_fill f a = set_an_pos (fe_symbol f) (fst (snd r)) ((case snd (snd r) of None \<Rightarrow> b
      | Some x \<Rightarrow> record_close f st x (op_entry_time (an_pos (fe_symbol f) b)) b)\<lparr>an_cash := fst r, an_trades := an_trades b @ [rec]\<rparr>)"
    "tr_pnl rec = (case snd (snd r) of None \<Rightarrow> 0 | Some x \<Rightarrow> x)"
proof -
  obtain i where n: "note_fill f a = (i, b)" by (cases "note_fill f a") (simp add: b_def)
  obtain c p' pnl where r: "fill_account f (an_cash b) (an_pos (fe_symbol f) b) = (c, p', pnl)" by (metis prod_cases3)
  have t: "an_trades (record_close f st x t b) = an_trades b" for st x t by (simp add: record_close_def Let_def)
  show thesis using r that unfolding an_on_fill_def n Let_def by (cases pnl) (simp_all add: r_def t)
qed

lemma an_on_fill_account:
  "an_cash (an_on_fill f a) = fst (fill_account f (an_cash a) (an_pos (fe_symbol f) a))"
  "an_pos sy (an_on_fill f a) = (if sy = fe_symbol f then fst (snd (fill_account f (an_cash a) (an_pos (fe_symbol f) a))) else an_pos sy a)"
proof -
  obtain st rec where e: "an_on_fill f a = set_an_pos (fe_symbol f) (fst (snd (fill_account f (an_cash (snd (note_fill f a))) (an_pos (fe_symbol f) (snd (note_fill f a))))))
    ((case snd (snd (fill_account f (an_cash (snd (note_fill f a))) (an_pos (fe_symbol f) (snd (note_fill f a))))) of None \<Rightarrow> snd (note_fill f a)
      | Some x \<Rightarrow> record_close f st x (op_entry_time (an_pos (fe_symbol f) (snd (note_fill f a)))) (snd (note_fill f a)))
      \<lparr>an_cash := fst (fill_account f (an_cash (snd (note_fill f a))) (an_pos (fe_symbol f) (snd (note_fill f a)))), an_trades := an_trades (snd (note_fill f a)) @ [rec]\<rparr>)"
    by (rule an_on_fill_eq)
  have p: "an_pos sy (snd (note_fill f a)) = an_pos sy a" for sy by (simp add: an_pos_def tt_frame)
  show "an_cash (an_on_fill f a) = fst (fill_account f (an_cash a) (an_pos (fe_symbol f) a))" unfolding e by (simp add: set_an_pos_def p tt_frame)
  show "an_pos sy (an_on_fill f a) = (if sy = fe_symbol f then fst (snd (fill_account f (an_cash a) (an_pos (fe_symbol f) a))) else an_pos sy a)"
    unfolding e by (simp add: set_an_pos_def p tt_frame an_pos_def split: option.split)
qed

lemma open_part_whole:
  assumes "0 < m" "m \<le> 2 ^ 53" "\<bar>k\<bar> + m \<le> 2 ^ 53" "op_qty p = dint k" "0 < n" "fe_filled_quantity f = dint n"
  shows "fe_side f = Buy \<Longrightarrow> fst (open_part f (dint m) p c) = c - (dint m * fe_fill_price f + comm_for f (dint m))"
    "fe_side f = Sell \<Longrightarrow> fst (open_part f (dint m) p c) = c + (dint m * fe_fill_price f - comm_for f (dint m))"
    "op_qty (snd (open_part f (dint m) p c)) = dint (case fe_side f of Buy \<Rightarrow> k + m | Sell \<Rightarrow> k - m)"
  using assms by (simp_all add: open_part_def Let_def side_sign_def dint_signed comm_for_def dint_eps dint_ops dsub_neg(1) dmul_neg_left
      del: dint_simps(1) flip: dint_simps(1) split: order_side.split) (simp add: dint_ops)

lemma close_part_whole:
  assumes "0 < n" "\<bar>k\<bar> + n \<le> 2 ^ 53" "op_qty p = dint k" "fe_filled_quantity f = dint n" "fe_side f = Buy \<Longrightarrow> k < 0" "fe_side f = Sell \<Longrightarrow> 0 < k"
  defines "m \<equiv> min \<bar>k\<bar> n"
  shows "fe_side f = Buy \<Longrightarrow> fst (close_part f p c) = c - (dint m * fe_fill_price f + comm_for f (dint m))"
    "fe_side f = Sell \<Longrightarrow> fst (close_part f p c) = c + (dint m * fe_fill_price f - comm_for f (dint m))"
    "op_qty (fst (snd (close_part f p c))) = dint (case fe_side f of Buy \<Rightarrow> k + m | Sell \<Rightarrow> k - m)"
    "snd (snd (snd (close_part f p c))) = dint (n - m)"
proof -
  have m: "0 < m" "m \<le> 2 ^ 53" "m \<le> \<bar>k\<bar>" "m \<le> n" using assms by (cases "fe_side f"; auto simp: m_def)+
  have mm: "std_min (dint \<bar>k\<bar>) (dint n) = dint m" by (simp add: dint_min_max m_def)
  show "fe_side f = Buy \<Longrightarrow> fst (close_part f p c) = c - (dint m * fe_fill_price f + comm_for f (dint m))"
    "fe_side f = Sell \<Longrightarrow> fst (close_part f p c) = c + (dint m * fe_fill_price f - comm_for f (dint m))"
    using assms(1-4) m by (simp_all add: close_part_def Let_def side_sign_def mm comm_for_def dint_eps dint_signed dsub_neg dmul_neg_left del: dint_simps(1) flip: dint_simps(1))
  have q: "dint k + side_sign (fe_side f) * dint m = dint (case fe_side f of Buy \<Rightarrow> k + m | Sell \<Rightarrow> k - m)"
    using m assms(2) by (simp add: side_sign_def dint_signed dint_ops split: order_side.split)
  have z: "(case fe_side f of Buy \<Rightarrow> k + m | Sell \<Rightarrow> k - m) = 0" if "\<bar>case fe_side f of Buy \<Rightarrow> k + m | Sell \<Rightarrow> k - m\<bar> \<le> 0" using that by simp
  show "op_qty (fst (snd (close_part f p c))) = dint (case fe_side f of Buy \<Rightarrow> k + m | Sell \<Rightarrow> k - m)"
    using assms(3,4) z by (simp add: close_part_def Let_def mm q dint_eps)
  show "snd (snd (snd (close_part f p c))) = dint (n - m)" using assms m by (simp add: close_part_def Let_def mm dint_ops)
qed

text \<open>One account of a whole number of units: what is paid or received for \<open>m\<close> of them, and the part of a fill that closes.\<close>

definition pay_for :: "fill_event \<Rightarrow> double \<Rightarrow> int \<Rightarrow> double" where
  "pay_for f c m = (case fe_side f of Buy \<Rightarrow> c - (dint m * fe_fill_price f + comm_for f (dint m))
     | Sell \<Rightarrow> c + (dint m * fe_fill_price f - comm_for f (dint m)))"

definition closed_by :: "fill_event \<Rightarrow> int \<Rightarrow> int \<Rightarrow> int" where
  "closed_by f k n = (case fe_side f of Buy \<Rightarrow> if k < 0 then min \<bar>k\<bar> n else 0 | Sell \<Rightarrow> if k > 0 then min \<bar>k\<bar> n else 0)"

definition pay_all :: "fill_event \<Rightarrow> double \<Rightarrow> int \<Rightarrow> int \<Rightarrow> double" where
  "pay_all f c k n = (let m = closed_by f k n; c1 = (if m > 0 then pay_for f c m else c) in if n - m > 0 then pay_for f c1 (n - m) else c1)"

definition moved :: "fill_event \<Rightarrow> int \<Rightarrow> int \<Rightarrow> int" where
  "moved f k n = (case fe_side f of Buy \<Rightarrow> k + n | Sell \<Rightarrow> k - n)"

lemma fill_cases:
  obtains (open_buy) "fe_side f = Buy" "\<not> k < 0" | (close_buy) "fe_side f = Buy" "k < 0" "n \<le> - k" | (flip_buy) "fe_side f = Buy" "k < 0" "- k < (n::int)"
    | (open_sell) "fe_side f = Sell" "\<not> 0 < k" | (close_sell) "fe_side f = Sell" "0 < k" "n \<le> k" | (flip_sell) "fe_side f = Sell" "0 < k" "k < n"
proof (cases "fe_side f")
  case Buy
  then show ?thesis using open_buy close_buy flip_buy by (cases "k < 0"; cases "n \<le> - k"; simp)
next
  case Sell
  then show ?thesis using open_sell close_sell flip_sell by (cases "0 < k"; cases "n \<le> k"; simp)
qed

lemma netted_fill_whole:
  assumes "0 < n" "\<bar>k\<bar> + n \<le> 2 ^ 53" "qty pos = dint k" "fe_filled_quantity f = dint n"
  shows "fst (netted_fill f (c, pos, tt)) = pay_all f c k n" "qty (fst (snd (netted_fill f (c, pos, tt)))) = dint (moved f k n)"
proof -
  note d = netted_fill_def Let_def open_long_def open_short_def close_long_def close_short_def pay_all_def pay_for_def moved_def closed_by_def
    dint_zero dint_eps dint_ops
  have "fst (netted_fill f (c, pos, tt)) = pay_all f c k n \<and> qty (fst (snd (netted_fill f (c, pos, tt)))) = dint (moved f k n)"
  proof (rule fill_cases [where f = f and k = k and n = n])
    assume "fe_side f = Buy" "\<not> k < 0"
    then show ?thesis using assms by (simp add: d)
  next
    assume "fe_side f = Sell" "\<not> 0 < k"
    then show ?thesis using assms by (simp add: d)
  next
    assume s: "fe_side f = Buy" "k < 0" "n \<le> - k"
    then have m: "std_min (dint n) (dint (- k)) = dint n" "closed_by f k n = n" by (simp_all add: dint_min_max closed_by_def)
    show ?thesis using assms s m by (simp add: d(1-9) dint_zero dint_eps dint_ops eps12_bounds)
  next
    assume s: "fe_side f = Sell" "0 < k" "n \<le> k"
    then have m: "std_min (dint n) (dint k) = dint n" "closed_by f k n = n" by (simp_all add: dint_min_max closed_by_def)
    show ?thesis using assms s m by (simp add: d(1-9) dint_zero dint_eps dint_ops eps12_bounds)
  next
    assume s: "fe_side f = Buy" "k < 0" "- k < n"
    then have m: "std_min (dint n) (dint (- k)) = dint (- k)" "closed_by f k n = - k" by (simp_all add: dint_min_max closed_by_def)
    show ?thesis using assms s m by (simp add: d(1-9) dint_zero dint_eps dint_ops dint_ops(1,2) [of 0, simplified] eps12_bounds add.commute)
  next
    assume s: "fe_side f = Sell" "0 < k" "k < n"
    then have m: "std_min (dint n) (dint k) = dint k" "closed_by f k n = k" by (simp_all add: dint_min_max closed_by_def)
    show ?thesis using assms s m by (simp add: d(1-9) dint_zero dint_eps dint_ops dint_ops(1,2) [of 0, simplified] eps12_bounds add.commute)
  qed
  then show "fst (netted_fill f (c, pos, tt)) = pay_all f c k n" "qty (fst (snd (netted_fill f (c, pos, tt)))) = dint (moved f k n)" by simp_all
qed

lemma closing_whole:
  assumes "0 < n" "\<bar>k\<bar> + n \<le> 2 ^ 53"
  shows "(\<bar>dint k\<bar> > eps12 \<and> dint k * side_sign (fe_side f) < 0) = (0 < closed_by f k n)"
proof -
  have "- 1 = dint (- 1)" using dint_simps(1) [of 1] by simp
  then have "dint k * - 1 = dint (- k)" "dint k * 1 = dint k" using dint_ops(3) [of k "- 1"] dint_ops(3) [of k 1] assms by simp_all
  then show ?thesis using assms(1) by (auto simp: side_sign_def closed_by_def dint_eps dint_zero split: order_side.split)
qed

lemma fill_account_whole:
  assumes "0 < n" "\<bar>k\<bar> + n \<le> 2 ^ 53" "op_qty p = dint k" "fe_filled_quantity f = dint n"
  shows "fst (fill_account f c p) = pay_all f c k n" "op_qty (fst (snd (fill_account f c p))) = dint (moved f k n)"
proof -
  define p0 where "p0 = p\<lparr>op_last_price := fe_fill_price f\<rparr>"
  have p0: "op_qty p0 = dint k" using assms(3) by (simp add: p0_def)
  note cl = closing_whole [OF assms(1,2), of f]
  have op: "fst (open_part f (dint m) q c') = pay_for f c' m \<and> op_qty (snd (open_part f (dint m) q c')) = dint (moved f j m)"
    if "0 < m" "\<bar>j\<bar> + m \<le> 2 ^ 53" "op_qty q = dint j" for m j q c'
  proof -
    have "m \<le> 2 ^ 53" using that(1,2) by linarith
    note w = open_part_whole [OF that(1) this that(2,3) assms(1,4), of c']
    show ?thesis using w by (cases "fe_side f") (simp_all only: pay_for_def moved_def order_side.case)
  qed
  have "fst (fill_account f c p) = pay_all f c k n \<and> op_qty (fst (snd (fill_account f c p))) = dint (moved f k n)"
  proof (cases "0 < closed_by f k n")
    case False
    then have "closed_by f k n = 0" using assms(1) by (auto simp: closed_by_def split: order_side.splits if_splits)
    moreover have nc: "\<not> (\<bar>op_qty p0\<bar> > eps12 \<and> op_qty p0 * side_sign (fe_side f) < 0)" using False cl unfolding p0 by simp
    moreover have "fill_account f c p = (let (c2, p2) = (if dint n > eps12 then open_part f (dint n) p0 c else (c, p0)) in (c2, p2, None))"
      unfolding fill_account_def Let_def p0_def [symmetric] if_not_P [OF nc] by (simp add: assms(4))
    ultimately show ?thesis using op [OF assms(1,2) p0, of c] assms(1) by (simp add: pay_all_def dint_eps split_def)
  next
    case True
    define m where "m = closed_by f k n"
    have m: "m = min \<bar>k\<bar> n" "0 < m" "fe_side f = Buy \<Longrightarrow> k < 0" "fe_side f = Sell \<Longrightarrow> 0 < k"
      using True by (auto simp: m_def closed_by_def split: order_side.splits if_splits)
    obtain c1 p1 pnl left where cp: "close_part f p0 c = (c1, p1, pnl, left)" by (metis prod_cases4)
    have c: "c1 = pay_for f c m" "op_qty p1 = dint (moved f k m)" "left = dint (n - m)"
      using close_part_whole [OF assms(1,2) p0 assms(4) m(3,4), of c] unfolding cp m(1) by (cases "fe_side f"; simp add: pay_for_def moved_def)+
    have j: "\<bar>moved f k m\<bar> + (n - m) \<le> 2 ^ 53" using assms(1,2) m by (auto simp: moved_def split: order_side.split)
    have e: "fill_account f c p = (let (c2, p2) = (if left > eps12 then open_part f left p1 c1 else (c1, p1)) in (c2, p2, Some pnl))"
    proof -
      have yc: "\<bar>op_qty p0\<bar> > eps12 \<and> op_qty p0 * side_sign (fe_side f) < 0" using True cl unfolding p0 by simp
      show ?thesis unfolding fill_account_def Let_def p0_def [symmetric] if_P [OF yc] cp by simp
    qed
    show ?thesis
    proof (cases "0 < n - m")
      case True
      then show ?thesis using op [OF True j c(2), of c1] c m(2) unfolding e
        by (simp add: pay_all_def dint_eps split_def moved_def split: order_side.split flip: m_def)
    next
      case False
      then show ?thesis using c m unfolding e by (simp add: pay_all_def dint_eps dint_eps(2) [of 0, simplified] moved_def flip: m_def split: order_side.split)
    qed
  qed
  then show "fst (fill_account f c p) = pay_all f c k n" "op_qty (fst (snd (fill_account f c p))) = dint (moved f k n)" by simp_all
qed

text \<open>The two accounts agree, with every position a whole number of at most \<open>b\<close> units.\<close>

definition accounts_agree :: "int \<Rightarrow> analytics \<Rightarrow> portfolio \<Rightarrow> bool" where
  "accounts_agree b a p \<longleftrightarrow> an_cash a = cash p \<and>
     (\<forall>sy. \<exists>k. \<bar>k\<bar> \<le> b \<and> op_qty (an_pos sy a) = dint k \<and> qty (position_of sy p) = dint k)"

lemma portfolio_on_fill_account:
  "cash (portfolio_on_fill f i st p) = fst (netted_fill f (cash p, position_of (fe_symbol f) p, total_trades p))"
  "position_of sy (portfolio_on_fill f i st p) = (if sy = fe_symbol f
     then fst (snd (netted_fill f (cash p, position_of (fe_symbol f) p, total_trades p))) else position_of sy p)"
  by (simp_all add: portfolio_on_fill_def Let_def tt_frame position_of_def) (simp_all add: apply_netted_fill_def position_of_def split: prod.split)

lemma accounts_agree_fill:
  assumes "accounts_agree b a p" "0 < n" "b + n \<le> 2 ^ 53" "fe_filled_quantity f = dint n"
  shows "accounts_agree (b + n) (an_on_fill f a) (portfolio_on_fill f i st p)"
proof -
  obtain k where k: "\<bar>k\<bar> \<le> b" "op_qty (an_pos (fe_symbol f) a) = dint k" "qty (position_of (fe_symbol f) p) = dint k"
    using assms(1) by (auto simp: accounts_agree_def)
  then have b: "\<bar>k\<bar> + n \<le> 2 ^ 53" using assms(3) by simp
  note w = fill_account_whole [OF assms(2) b k(2) assms(4)] netted_fill_whole [OF assms(2) b k(3) assms(4)]
  have "\<bar>moved f k n\<bar> \<le> b + n" using k(1) assms(2) by (auto simp: moved_def split: order_side.split)
  moreover have "\<exists>k. \<bar>k\<bar> \<le> b + n \<and> op_qty (an_pos sy a) = dint k \<and> qty (position_of sy p) = dint k" for sy
    using assms(1,2) unfolding accounts_agree_def by (meson add_increasing2 less_imp_le order_trans)
  moreover have "an_cash a = cash p" using assms(1) by (simp add: accounts_agree_def)
  ultimately show ?thesis
    unfolding accounts_agree_def an_on_fill_account portfolio_on_fill_account by (auto simp: w)
qed

lemma accounts_agree_fills:
  assumes "list_all2 (\<lambda>f n. fe_filled_quantity f = dint n \<and> 0 < n) fs ns" "accounts_agree b a p" "b + sum_list ns \<le> 2 ^ 53" "0 \<le> b"
  shows "accounts_agree (b + sum_list ns) (fold an_on_fill fs a) (fold (\<lambda>f. portfolio_on_fill f (i f) (st f)) fs p)"
  using assms
proof (induction fs ns arbitrary: b a p rule: list_all2_induct)
  case (Cons f fs n ns)
  have "0 \<le> sum_list ns" using Cons.hyps(2) by (induction rule: list_all2_induct) auto
  then have "accounts_agree (b + n) (an_on_fill f a) (portfolio_on_fill f (i f) (st f) p)"
    using Cons.prems Cons.hyps(1) by (intro accounts_agree_fill) auto
  from Cons.IH [OF this] show ?case using Cons.prems Cons.hyps(1) by (simp add: add.assoc)
qed simp

text \<open>The statistics and the portfolio keep the same books: after any sequence of fills of whole quantities, of any symbols, sides,
  prices and commissions, the two separately written bookkeepings hold the same cash, bit for bit, and the same position in every symbol.\<close>

theorem analytics_cash_is_portfolio_cash:
  assumes "list_all2 (\<lambda>f n. fe_filled_quantity f = dint n \<and> 0 < n) fs ns" "sum_list ns \<le> 2 ^ 53"
  shows "an_cash (fold an_on_fill fs (mk_analytics c w r pp m)) = cash (fold (\<lambda>f. portfolio_on_fill f (i f) (st f)) fs (mk_portfolio c)) \<and>
    (\<forall>sy. op_qty (an_pos sy (fold an_on_fill fs (mk_analytics c w r pp m))) =
      qty (position_of sy (fold (\<lambda>f. portfolio_on_fill f (i f) (st f)) fs (mk_portfolio c))))"
proof -
  have "accounts_agree 0 (mk_analytics c w r pp m) (mk_portfolio c)"
    by (simp add: accounts_agree_def mk_analytics_def mk_portfolio_def an_pos_def position_of_def exI [of _ "0::int"])
  from accounts_agree_fills [OF assms(1) this, of i st] assms(2) show ?thesis unfolding accounts_agree_def by (simp, metis)
qed

lemma analytics_cash_is_portfolio_cash_witness:
  "an_cash (fold an_on_fill [sample_fill 1 Buy, sample_fill 2 Sell] (mk_analytics (dint 1000) 252 0 252 100)) =
     cash (fold (\<lambda>f. portfolio_on_fill f (fe_order_id f) ''s'') [sample_fill 1 Buy, sample_fill 2 Sell] (mk_portfolio (dint 1000)))"
  using analytics_cash_is_portfolio_cash [of "[sample_fill 1 Buy, sample_fill 2 Sell]" "[2, 2]" "dint 1000" 252 0 252 100 fe_order_id "\<lambda>f. ''s''"]
  by (simp add: sample_fill_def mk_fill_event_def)

subsection \<open>Bars seen inline and through marks\<close>

text \<open>The state behind the risk manager's view, the last equity apart.\<close>

definition risk_state where
  "risk_state a = ((an_cash a, an_open_positions a, an_trades a, an_order_prices a, an_order_strategies a),
     (an_peak_equity a, an_max_drawdown a, an_total_orders a, an_total_fills a, an_current_spread_bps a, an_current_funding_8h_rate a))"

lemma risk_state_frame [simp]:
  "risk_state (note_first_price px a) = risk_state a" "risk_state (track_vol lg px a) = risk_state a" "risk_state (record_equity pt a) = risk_state a"
  "risk_state (record_benchmark pt a) = risk_state a" "risk_state (track_returns e bh a) = risk_state a"
  "risk_state (a\<lparr>an_last_close := px\<rparr>) = risk_state a" "risk_state (a\<lparr>an_last_equity := px\<rparr>) = risk_state a"
  "risk_state (a\<lparr>an_prev_equity := px\<rparr>) = risk_state a" "risk_state (a\<lparr>an_prev_bh_equity := px\<rparr>) = risk_state a"
  "risk_state (a\<lparr>an_market_events_total := k, an_market_events_in_position := j\<rparr>) = risk_state a"
  by (simp_all add: risk_state_def note_first_price_def track_vol_def record_equity_def record_benchmark_def track_returns_def Let_def split_def
      split: option.split)

lemma risk_stateD:
  assumes "risk_state a = risk_state b"
  shows "position_value a = position_value b" "an_cash a = an_cash b" "an_pos sy a = an_pos sy b"
    "risk_state (set_an_pos sy p a) = risk_state (set_an_pos sy p b)" "risk_state (track_drawdown e a) = risk_state (track_drawdown e b)"
proof -
  have r: "an_cash a = an_cash b" "an_open_positions a = an_open_positions b" "an_trades a = an_trades b" "an_order_prices a = an_order_prices b"
    "an_order_strategies a = an_order_strategies b" "an_peak_equity a = an_peak_equity b" "an_max_drawdown a = an_max_drawdown b"
    "an_total_orders a = an_total_orders b" "an_total_fills a = an_total_fills b" "an_current_spread_bps a = an_current_spread_bps b"
    "an_current_funding_8h_rate a = an_current_funding_8h_rate b" using assms by (simp_all add: risk_state_def)
  show "position_value a = position_value b" "an_cash a = an_cash b" "an_pos sy a = an_pos sy b" by (simp_all add: r position_value_def an_pos_def)
  show "risk_state (set_an_pos sy p a) = risk_state (set_an_pos sy p b)" by (simp add: r risk_state_def set_an_pos_def)
  show "risk_state (track_drawdown e a) = risk_state (track_drawdown e b)" by (simp add: r risk_state_def track_drawdown_def Let_def cong: if_cong split del: if_split)
qed

lemma last_equity_frame [simp]:
  "an_last_equity (note_first_price px a) = an_last_equity a" "an_last_equity (track_vol lg px a) = an_last_equity a"
  "an_last_equity (record_equity pt a) = an_last_equity a" "an_last_equity (record_benchmark pt a) = an_last_equity a"
  "an_last_equity (track_returns e bh a) = an_last_equity a" "an_last_equity (track_drawdown e a) = an_last_equity a"
  by (simp_all add: note_first_price_def track_vol_def record_equity_def record_benchmark_def track_returns_def track_drawdown_def Let_def split_def
      split: option.split)

definition marked :: "symbol \<Rightarrow> double \<Rightarrow> analytics \<Rightarrow> analytics" where
  "marked sy px a = set_an_pos sy ((an_pos sy a)\<lparr>op_last_price := px\<rparr>) a"

lemma marked_cong: "risk_state a = risk_state b \<Longrightarrow> risk_state (marked sy px a) = risk_state (marked sy px b)"
  using risk_stateD [of a b] by (simp add: marked_def)

lemma on_mark_risk:
  defines "e \<equiv> \<lambda>b. an_cash b + position_value b"
  shows "risk_state (on_mark sy px a) = risk_state (track_drawdown (e (marked sy px a)) (marked sy px a)) \<and> an_last_equity (on_mark sy px a) = e (marked sy px a)"
proof -
  define a1 where "a1 = (set_an_pos sy ((an_pos sy a)\<lparr>op_last_price := px\<rparr>) a)\<lparr>an_last_close := px\<rparr>"
  have r: "risk_state a1 = risk_state (marked sy px a)" by (simp add: a1_def marked_def)
  note d = risk_stateD [OF r]
  have m: "on_mark sy px a = track_drawdown (e a1) (a1\<lparr>an_last_equity := e a1\<rparr>)" by (simp add: on_mark_def Let_def a1_def e_def)
  have "risk_state (a1\<lparr>an_last_equity := e a1\<rparr>) = risk_state (marked sy px a)" using r by simp
  from risk_stateD(5) [OF this] show ?thesis unfolding m using d by (simp add: e_def)
qed

lemma on_market_risk:
  defines "e \<equiv> \<lambda>b. an_cash b + position_value b"
  shows "risk_state (an_on_market lg m a) = risk_state (track_drawdown (e (marked (me_symbol m) (me_close m) a)) (marked (me_symbol m) (me_close m) a)) \<and>
    an_last_equity (an_on_market lg m a) = e (marked (me_symbol m) (me_close m) a)"
proof -
  define a1 where "a1 = note_first_price (me_close m) (track_vol lg (me_close m) (a\<lparr>an_last_close := me_close m\<rparr>))"
  have r1: "risk_state a1 = risk_state a" by (simp add: a1_def)
  define a2 where "a2 = marked (me_symbol m) (me_close m) a1"
  define a3 where "a3 = a2\<lparr>an_market_events_total := an_market_events_total a2 + 1,
    an_market_events_in_position := (if an_any_position_open a2 then an_market_events_in_position a2 + 1 else an_market_events_in_position a2)\<rparr>"
  have r: "risk_state a3 = risk_state (marked (me_symbol m) (me_close m) a)" using marked_cong [OF r1] by (simp add: a3_def a2_def)
  note d = risk_stateD [OF r]
  define a4 where "a4 = record_equity (timestamp m, e a3) (a3\<lparr>an_last_equity := e a3\<rparr>)"
  define bh where "bh = (if an_first_price_set a4 \<and> an_first_price a4 > 0 then Some (an_initial_cash a4 * (me_close m / an_first_price a4)) else None)"
  define a5 where "a5 = (track_returns (e a3) bh a4)\<lparr>an_prev_equity := e a3\<rparr>"
  define b where "b = (case bh of None \<Rightarrow> a5 | Some x \<Rightarrow> (record_benchmark (timestamp m, x) a5)\<lparr>an_prev_bh_equity := x\<rparr>)"
  have "an_on_market lg m a = track_drawdown (e a3) b"
    unfolding an_on_market_def Let_def a1_def [symmetric] marked_def [symmetric] a2_def [symmetric] a3_def [symmetric]
    by (simp add: b_def a5_def bh_def a4_def e_def)
  moreover have "risk_state b = risk_state a3" "an_last_equity b = e a3" by (simp_all add: b_def a5_def a4_def split: option.split)
  ultimately have b: "an_on_market lg m a = track_drawdown (e a3) b" "risk_state b = risk_state a3" "an_last_equity b = e a3" by simp_all
  then have "risk_state b = risk_state (marked (me_symbol m) (me_close m) a)" using r by simp
  from risk_stateD(5) [OF this] show ?thesis using b d by (simp add: e_def)
qed

lemma note_fill_risk:
  "risk_state (snd (note_fill f a)) = risk_state (a\<lparr>an_total_fills := an_total_fills a + 1\<rparr>)"
  "fst (note_fill f a) = (case map_of (an_order_prices a) (fe_order_id f) of None \<Rightarrow> 0 | Some px \<Rightarrow> px)"
  "an_last_equity (snd (note_fill f a)) = an_last_equity a"
  by (simp_all add: note_fill_def Let_def record_latency_def record_slippage_def risk_state_def split: option.split)

lemma record_close_risk: "risk_state (record_close f st x t a) = risk_state a" "an_last_equity (record_close f st x t a) = an_last_equity a"
  by (simp_all add: record_close_def Let_def risk_state_def)

lemma risk_state_fields:
  assumes "risk_state a = risk_state b"
  shows "an_trades a = an_trades b" "an_order_prices a = an_order_prices b" "an_order_strategies a = an_order_strategies b"
    "an_max_drawdown a = an_max_drawdown b" "an_total_orders a = an_total_orders b" "an_total_fills a = an_total_fills b"
    "an_current_spread_bps a = an_current_spread_bps b" "an_current_funding_8h_rate a = an_current_funding_8h_rate b"
    "risk_state (a\<lparr>an_total_fills := k\<rparr>) = risk_state (b\<lparr>an_total_fills := k\<rparr>)"
    "risk_state (a\<lparr>an_cash := c, an_trades := ts\<rparr>) = risk_state (b\<lparr>an_cash := c, an_trades := ts\<rparr>)"
  using assms by (simp_all add: risk_state_def)

lemma on_fill_cong:
  assumes r: "risk_state a = risk_state b"
  shows "risk_state (an_on_fill f a) = risk_state (an_on_fill f b)"
proof -
  obtain i a' where a: "note_fill f a = (i, a')" by fastforce
  obtain j b' where b: "note_fill f b = (j, b')" by fastforce
  have i: "i = j" "risk_state a' = risk_state b'"
    using note_fill_risk(1,2) [of f a] note_fill_risk(1,2) [of f b] risk_state_fields [OF r] unfolding a b by simp_all
  note d = risk_stateD [OF i(2)] risk_state_fields [OF i(2)]
  obtain c p pnl where fa: "fill_account f (an_cash b') (an_pos (fe_symbol f) b') = (c, p, pnl)" by (metis prod_cases3)
  let ?rc = "\<lambda>st a'. case pnl of None \<Rightarrow> a' | Some x \<Rightarrow> record_close f st x (op_entry_time (an_pos (fe_symbol f) b')) a'"
  have rc: "risk_state (?rc st a') = risk_state (?rc st b')" for st using i(2) by (simp add: record_close_risk split: option.split)
  show ?thesis unfolding an_on_fill_def a b Let_def prod.case i(1) d(2,3) fa
    using risk_stateD(4) [OF risk_state_fields(10) [OF rc]] risk_state_fields(1) [OF rc] d by (simp cong: option.case_cong)
qed

lemma on_fill_last_equity: "an_last_equity (an_on_fill f a) = an_last_equity a"
proof -
  obtain i b where b: "note_fill f a = (i, b)" by fastforce
  obtain c p pnl where "fill_account f (an_cash b) (an_pos (fe_symbol f) b) = (c, p, pnl)" by (metis prod_cases3)
  then show ?thesis using note_fill_risk(3) [of f a] unfolding an_on_fill_def b Let_def
    by (simp add: b set_an_pos_def record_close_risk split: option.split)
qed

text \<open>The engine's own feed of its statistics: with the inline preset every event; with a threaded preset a mark for each market event and
  tick, and orders and fills as before.\<close>

definition feed_inline :: "(double \<Rightarrow> double) \<Rightarrow> any_event \<Rightarrow> analytics \<Rightarrow> analytics" where
  "feed_inline lg e a = (case an_on_event lg e a of None \<Rightarrow> a | Some a' \<Rightarrow> a')"

definition feed_threaded :: "(double \<Rightarrow> double) \<Rightarrow> any_event \<Rightarrow> analytics \<Rightarrow> analytics" where
  "feed_threaded lg e a = (case e of AE_Market m \<Rightarrow> on_mark (me_symbol m) (me_close m) a | AE_Tick t \<Rightarrow> on_mark (te_symbol t) (te_price t) a
     | _ \<Rightarrow> feed_inline lg e a)"

definition bar_event :: "any_event \<Rightarrow> bool" where
  "bar_event e \<longleftrightarrow> type_of_event e \<in> {Ev_Market, Ev_Order, Ev_Fill, Ev_Cancel, Ev_Amend}"

definition tick_stream_event :: "any_event \<Rightarrow> bool" where
  "tick_stream_event e \<longleftrightarrow> type_of_event e \<in> {Ev_Tick, Ev_Order, Ev_Fill, Ev_Cancel, Ev_Amend}"

lemma feed_step:
  assumes "bar_event e" "risk_state a = risk_state b" "an_last_equity a = an_last_equity b"
  shows "risk_state (feed_inline lg e a) = risk_state (feed_threaded lg e b) \<and> an_last_equity (feed_inline lg e a) = an_last_equity (feed_threaded lg e b)"
proof (cases e)
  case (AE_Market m)
  note mc = marked_cong [OF assms(2), of "me_symbol m" "me_close m"]
  show ?thesis unfolding AE_Market feed_inline_def feed_threaded_def an_on_event_def
    using on_market_risk [of lg m a] on_mark_risk [of "me_symbol m" "me_close m" b] risk_stateD(1,2,5) [OF mc] by simp
next
  case (AE_Order o')
  then show ?thesis using assms by (simp add: feed_inline_def feed_threaded_def an_on_event_def an_on_order_def risk_state_def)
next
  case (AE_Fill f)
  then show ?thesis using on_fill_cong [OF assms(2)] assms(3) by (simp add: feed_inline_def feed_threaded_def an_on_event_def on_fill_last_equity)
qed (use assms in \<open>simp_all add: bar_event_def type_of_event_def feed_inline_def feed_threaded_def an_on_event_def\<close>)

lemma feed_run:
  assumes "list_all bar_event es" "risk_state a = risk_state b" "an_last_equity a = an_last_equity b"
  shows "risk_state (fold (feed_inline lg) es a) = risk_state (fold (feed_threaded lg) es b) \<and>
    an_last_equity (fold (feed_inline lg) es a) = an_last_equity (fold (feed_threaded lg) es b)"
  using assms by (induction es arbitrary: a b) (simp_all add: feed_step)

lemma check_order_vol: "check_order ord port (w\<lparr>realized_vol_1h := x\<rparr>) r = check_order ord port w r"
proof (cases w)
  case (fields a b c d e f g h i j)
  show ?thesis unfolding fields risk_snapshot.update_convs check_order_def static_gates_def risk_snapshot.select_convs by (rule refl)
qed

lemma check_post_fill_vol: "check_post_fill f (w\<lparr>realized_vol_1h := x\<rparr>) r = check_post_fill f w r"
proof (cases w)
  case (fields a b c d e f' g h i j)
  show ?thesis unfolding fields risk_snapshot.update_convs check_post_fill_def book_trade_loss_def risk_snapshot.select_convs by (rule refl)
qed

text \<open>On bar data the threading preset does not change a risk decision: after any sequence of bars, orders, fills, cancels and amends,
  the statistics kept by marks give the risk manager the same view as the full inline statistics, the volatility estimate (which no gate
  reads) apart, so every order check and every check after a fill answers the same.\<close>

theorem threaded_risk_view_is_inline:
  fixes lg :: "double \<Rightarrow> double" and a :: analytics
  assumes "list_all bar_event es"
  defines "v \<equiv> risk_view (fold (feed_inline lg) es a)" and "w \<equiv> risk_view (fold (feed_threaded lg) es a)"
  shows "v\<lparr>realized_vol_1h := 0\<rparr> = w\<lparr>realized_vol_1h := 0\<rparr> \<and> check_order ord port v r = check_order ord port w r \<and>
    check_post_fill f v r = check_post_fill f w r"
proof -
  note fr = feed_run [OF assms(1) refl refl, of lg a]
  note d = risk_state_fields [OF conjunct1 [OF fr]]
  have eq: "v\<lparr>realized_vol_1h := 0\<rparr> = w\<lparr>realized_vol_1h := 0\<rparr>" using d fr by (simp add: v_def w_def risk_view_def)
  then have w: "v = w\<lparr>realized_vol_1h := realized_vol_1h v\<rparr>" by (cases v; cases w) simp
  have "check_order ord port (w\<lparr>realized_vol_1h := x\<rparr>) r = check_order ord port w r" for x by (rule check_order_vol)
  moreover have "check_post_fill f (w\<lparr>realized_vol_1h := x\<rparr>) r = check_post_fill f w r" for x by (rule check_post_fill_vol)
  ultimately show ?thesis using eq w by metis
qed

lemma threaded_risk_view_is_inline_witness:
  "\<forall>r. check_order (mk_order_event 0 ''BTC'' OT_Limit Buy 1 1 TIF_GTC 0) (mk_portfolio 0)
      (risk_view (fold (feed_inline (\<lambda>x. x)) [AE_Market (mk_market_event 0 ''BTC'' 1 1 1 1 1), AE_Fill (sample_fill 1 Buy)] (mk_analytics 0 1 0 1 5))) r =
   check_order (mk_order_event 0 ''BTC'' OT_Limit Buy 1 1 TIF_GTC 0) (mk_portfolio 0)
      (risk_view (fold (feed_threaded (\<lambda>x. x)) [AE_Market (mk_market_event 0 ''BTC'' 1 1 1 1 1), AE_Fill (sample_fill 1 Buy)] (mk_analytics 0 1 0 1 5))) r"
  by (intro allI conjunct1 [OF conjunct2 [OF threaded_risk_view_is_inline]]) (simp add: bar_event_def type_of_event_def)

subsection \<open>Ticks\<close>

definition breakers where
  "breakers a = (an_max_drawdown a, an_current_spread_bps a, an_current_funding_8h_rate a)"

lemma breakers_risk: "risk_state a = risk_state b \<Longrightarrow> breakers a = breakers b"
  using risk_state_fields [of a b] by (simp add: breakers_def)

lemma breakers_frame: "breakers (set_an_pos sy p a) = breakers a" "breakers (a\<lparr>an_cash := c, an_trades := ts\<rparr>) = breakers a"
  "breakers (a\<lparr>an_total_fills := k\<rparr>) = breakers a"
  by (simp_all add: breakers_def set_an_pos_def)

lemma breakers_fill: "breakers (an_on_fill f a) = breakers a"
proof -
  obtain i b where b: "note_fill f a = (i, b)" by fastforce
  have "breakers b = breakers a" using breakers_risk [OF note_fill_risk(1) [of f a]] by (simp add: b breakers_frame)
  moreover obtain c p pnl where "fill_account f (an_cash b) (an_pos (fe_symbol f) b) = (c, p, pnl)" by (metis prod_cases3)
  moreover have "breakers (record_close f st x t b) = breakers b" for st x t by (rule breakers_risk) (rule record_close_risk)
  ultimately show ?thesis unfolding an_on_fill_def b Let_def by (simp add: breakers_frame split: option.split)
qed

lemma breakers_tick_stream: "tick_stream_event e \<Longrightarrow> breakers (feed_inline lg e a) = breakers a"
proof (cases e)
  case (AE_Tick t)
  then show ?thesis
    by (simp add: feed_inline_def an_on_event_def an_on_tick_def Let_def breakers_def note_first_price_def track_vol_def set_an_pos_def)
next
  case (AE_Order o')
  then show ?thesis by (simp add: feed_inline_def an_on_event_def an_on_order_def breakers_def)
next
  case (AE_Fill f)
  then show ?thesis by (simp add: feed_inline_def an_on_event_def breakers_fill)
qed (simp_all add: tick_stream_event_def type_of_event_def feed_inline_def an_on_event_def)

lemma breakers_stream: "list_all tick_stream_event es \<Longrightarrow> breakers (fold (feed_inline lg) es a) = breakers a"
  by (induction es arbitrary: a) (simp_all add: breakers_tick_stream)

lemma no_breaker_no_halt:
  assumes "snap_max_drawdown snap = 0" "current_spread_bps snap = 0" "current_funding_8h_rate snap = 0" "0 < max_drawdown l"
  shows "static_gates l ord port snap \<noteq> Some Risk_Halt"
proof -
  have n: "\<not> (0 < x \<and> x < 0)" for x :: double by (cases x) (simp_all add: double_defs)
  have "0 / Fin 100 = (0::double)" by (simp add: double_defs)
  moreover have "\<not> max_drawdown l \<le> 0" using assms(4) by (cases "max_drawdown l") (simp_all add: double_defs)
  ultimately show ?thesis unfolding static_gates_def Let_def assms(1-3) by (simp only: n if_False split: if_split) simp
qed

text \<open>C33: A tick stream cannot trip the drawdown breaker with the inline preset: \<open>on_tick\<close> updates the equity but neither its peak nor the
  drawdown, so after any sequence of ticks, orders, fills, cancels and amends, with any losses, the risk view still shows a drawdown of 0
  and no order check halts on a market condition.\<close>

theorem tick_stream_never_trips_drawdown:
  fixes lg :: "double \<Rightarrow> double" and c rf :: double and w pp m :: nat
  assumes "list_all tick_stream_event es" "0 < max_drawdown l"
  defines "v \<equiv> risk_view (fold (feed_inline lg) es (mk_analytics c w rf pp m))"
  shows "snap_max_drawdown v = 0 \<and> static_gates l ord port v \<noteq> Some Risk_Halt"
proof -
  have "breakers (fold (feed_inline lg) es (mk_analytics c w rf pp m)) = (0, 0, 0)"
    unfolding breakers_stream [OF assms(1)] by (simp add: breakers_def mk_analytics_def)
  then have "snap_max_drawdown v = 0" "current_spread_bps v = 0" "current_funding_8h_rate v = 0"
    by (simp_all add: breakers_def v_def risk_view_def double_defs)
  with no_breaker_no_halt [OF this assms(2)] show ?thesis by simp
qed

lemma tick_stream_never_trips_drawdown_witness:
  "\<forall>ord port. static_gates limits_demo ord port (risk_view (fold (feed_inline (\<lambda>x. x))
     [AE_Fill (sample_fill 1 Buy), AE_Tick (mk_tick_event 0 ''BTC'' 1 1 Tick_Unknown)] (mk_analytics (dint 1000) 252 0 252 100))) \<noteq> Some Risk_Halt"
proof (intro allI)
  fix ord port
  have "0 < max_drawdown limits_demo" by (simp add: limits_demo_def zero_double_def)
  with tick_stream_never_trips_drawdown [of "[AE_Fill (sample_fill 1 Buy), AE_Tick (mk_tick_event 0 ''BTC'' 1 1 Tick_Unknown)]" limits_demo
      "\<lambda>x. x" "dint 1000" 252 0 252 100 ord port]
  show "static_gates limits_demo ord port (risk_view (fold (feed_inline (\<lambda>x. x))
     [AE_Fill (sample_fill 1 Buy), AE_Tick (mk_tick_event 0 ''BTC'' 1 1 Tick_Unknown)] (mk_analytics (dint 1000) 252 0 252 100))) \<noteq> Some Risk_Halt"
    by (simp add: tick_stream_event_def type_of_event_def)
qed

subsection \<open>Well-formed statistics\<close>

definition curves_ok :: "analytics \<Rightarrow> bool" where
  "curves_ok a \<longleftrightarrow> 4 \<le> an_max_equity_points a \<and> length (an_equity_curve a) \<le> an_max_equity_points a \<and>
     length (an_benchmark_curve a) \<le> an_max_equity_points a \<and> 0 < an_equity_stride a \<and> 0 < an_bench_stride a"

definition returns_ok :: "analytics \<Rightarrow> bool" where
  "returns_ok a \<longleftrightarrow> an_market_events_in_position a \<le> an_market_events_total a \<and> length (an_rolling_returns a) \<le> an_rolling_window a \<and>
     length (an_benchmark_returns a) \<le> length (an_strategy_returns a) \<and> wf_n (an_return_stats a) = int (length (an_strategy_returns a))"

definition fills_ok :: "analytics \<Rightarrow> bool" where
  "fills_ok a \<longleftrightarrow> an_win_count a \<le> length (an_trade_returns a) \<and> an_holding_count a = length (an_trade_returns a) \<and>
     length (an_trade_returns a) \<le> length (an_trades a) \<and> an_slippage_count a \<le> length (an_trades a) \<and>
     an_adverse_count a + an_favorable_count a \<le> an_slippage_count a \<and> an_total_fills a = of_nat (length (an_trades a))"

lemma length_every_other: "length (every_other xs) = (length xs + 1) div 2"
  by (induction xs rule: every_other.induct) simp_all

lemma record_equity_point_ok:
  assumes "record_equity_point n pt (c, s, k) = (c', s', k')" "length c \<le> n" "4 \<le> n" "0 < s"
  shows "length c' \<le> n" "0 < s'"
  using assms by (auto simp: record_equity_point_def Let_def length_every_other split: if_splits)

lemma record_equity_ok [tt_inv]: "curves_ok a \<Longrightarrow> curves_ok (record_equity pt a)" "curves_ok a \<Longrightarrow> curves_ok (record_benchmark pt a)"
  by (auto simp: curves_ok_def record_equity_def record_benchmark_def dest: record_equity_point_ok split: prod.split)

lemma curves_ok_parts [tt_inv]:
  "curves_ok (note_first_price px a) = curves_ok a" "curves_ok (track_vol lg px a) = curves_ok a" "curves_ok (track_returns e bh a) = curves_ok a"
  "curves_ok (track_drawdown e a) = curves_ok a" "curves_ok (set_an_pos sy p a) = curves_ok a" "curves_ok (record_latency l a) = curves_ok a"
  "curves_ok (record_slippage f px a) = curves_ok a" "curves_ok (record_close f st x t a) = curves_ok a"
  by (simp_all add: curves_ok_def note_first_price_def track_vol_def track_returns_def track_drawdown_def set_an_pos_def record_latency_def
       record_slippage_def record_close_def Let_def)

lemma returns_ok_parts [tt_inv]:
  "returns_ok (record_equity pt a) = returns_ok a" "returns_ok (record_benchmark pt a) = returns_ok a"
  "returns_ok (note_first_price px a) = returns_ok a" "returns_ok (track_vol lg px a) = returns_ok a"
  "returns_ok (track_drawdown e a) = returns_ok a" "returns_ok (set_an_pos sy p a) = returns_ok a" "returns_ok (record_latency l a) = returns_ok a"
  "returns_ok (record_slippage f px a) = returns_ok a" "returns_ok (record_close f st x t a) = returns_ok a"
  by (simp_all add: returns_ok_def record_equity_def record_benchmark_def note_first_price_def track_vol_def track_drawdown_def set_an_pos_def
      record_latency_def record_slippage_def record_close_def Let_def split_def)

lemma track_returns_ok [tt_inv]: "returns_ok a \<Longrightarrow> returns_ok (track_returns e bh a)"
  by (auto simp: returns_ok_def track_returns_def Let_def welford_update_def split: option.split)

lemma fills_ok_parts [tt_inv]:
  "fills_ok (record_equity pt a) = fills_ok a" "fills_ok (record_benchmark pt a) = fills_ok a" "fills_ok (track_returns e bh a) = fills_ok a"
  "fills_ok (note_first_price px a) = fills_ok a" "fills_ok (track_vol lg px a) = fills_ok a"
  "fills_ok (track_drawdown e a) = fills_ok a" "fills_ok (set_an_pos sy p a) = fills_ok a"
  by (simp_all add: fills_ok_def record_equity_def record_benchmark_def track_returns_def note_first_price_def track_vol_def track_drawdown_def
      set_an_pos_def Let_def split_def)

definition analytics_ok :: "analytics \<Rightarrow> bool" where
  "analytics_ok a \<longleftrightarrow> curves_ok a \<and> returns_ok a \<and> fills_ok a"

lemma analytics_ok_parts [tt_inv]:
  "analytics_ok a \<Longrightarrow> analytics_ok (record_equity pt a)" "analytics_ok a \<Longrightarrow> analytics_ok (record_benchmark pt a)"
  "analytics_ok a \<Longrightarrow> analytics_ok (note_first_price px a)" "analytics_ok a \<Longrightarrow> analytics_ok (track_vol lg px a)"
  "analytics_ok a \<Longrightarrow> analytics_ok (track_drawdown e a)" "analytics_ok a \<Longrightarrow> analytics_ok (set_an_pos sy p a)"
  "analytics_ok a \<Longrightarrow> analytics_ok (track_returns e bh a)"
  by (simp_all add: analytics_ok_def curves_ok_parts record_equity_ok returns_ok_parts track_returns_ok fills_ok_parts)

lemma analytics_ok_fields [tt_inv]:
  "analytics_ok a \<Longrightarrow> analytics_ok (a\<lparr>an_last_close := x\<rparr>)" "analytics_ok a \<Longrightarrow> analytics_ok (a\<lparr>an_last_equity := x\<rparr>)"
  "analytics_ok a \<Longrightarrow> analytics_ok (a\<lparr>an_prev_equity := x\<rparr>)" "analytics_ok a \<Longrightarrow> analytics_ok (a\<lparr>an_prev_bh_equity := x\<rparr>)"
  "analytics_ok a \<Longrightarrow> analytics_ok (a\<lparr>an_current_spread_bps := x\<rparr>)"
  "analytics_ok a \<Longrightarrow> analytics_ok (a\<lparr>an_cash := x, an_total_funding_pnl := y\<rparr>)"
  "analytics_ok a \<Longrightarrow> analytics_ok (a\<lparr>an_order_prices := ps, an_order_strategies := ss, an_total_orders := k\<rparr>)"
  by (simp_all add: analytics_ok_def curves_ok_def returns_ok_def fills_ok_def)

lemma analytics_ok_count:
  "analytics_ok a \<Longrightarrow> analytics_ok (a\<lparr>an_market_events_total := an_market_events_total a + 1,
     an_market_events_in_position := (if b then an_market_events_in_position a + 1 else an_market_events_in_position a)\<rparr>)"
  by (simp add: analytics_ok_def curves_ok_def returns_ok_def fills_ok_def)

lemma an_on_market_ok: assumes "analytics_ok a" shows "analytics_ok (an_on_market lg m a)"
proof -
  define a2 where "a2 = set_an_pos (me_symbol m) ((an_pos (me_symbol m) (note_first_price (me_close m) (track_vol lg (me_close m)
    (a\<lparr>an_last_close := me_close m\<rparr>))))\<lparr>op_last_price := me_close m\<rparr>) (note_first_price (me_close m) (track_vol lg (me_close m) (a\<lparr>an_last_close := me_close m\<rparr>)))"
  define a3 where "a3 = a2\<lparr>an_market_events_total := an_market_events_total a2 + 1,
    an_market_events_in_position := (if an_any_position_open a2 then an_market_events_in_position a2 + 1 else an_market_events_in_position a2)\<rparr>"
  define e where "e = an_cash a3 + position_value a3"
  define a4 where "a4 = record_equity (timestamp m, e) (a3\<lparr>an_last_equity := e\<rparr>)"
  have "analytics_ok a2" unfolding a2_def by (intro tt_inv assms)
  then have "analytics_ok a3" unfolding a3_def by (rule analytics_ok_count)
  then have "analytics_ok a4" unfolding a4_def by (intro tt_inv)
  then show ?thesis
    unfolding an_on_market_def Let_def a2_def [symmetric] a3_def [symmetric] e_def [symmetric] a4_def [symmetric]
    by (auto intro!: tt_inv split: option.split)
qed

lemma note_fill_ok:
  assumes "analytics_ok a"
  shows "curves_ok (snd (note_fill f a))" "returns_ok (snd (note_fill f a))"
    "an_trades (snd (note_fill f a)) = an_trades a" "an_trade_returns (snd (note_fill f a)) = an_trade_returns a"
    "an_win_count (snd (note_fill f a)) = an_win_count a" "an_holding_count (snd (note_fill f a)) = an_holding_count a"
    "an_slippage_count (snd (note_fill f a)) \<le> an_slippage_count a + 1"
    "an_adverse_count (snd (note_fill f a)) + an_favorable_count (snd (note_fill f a)) \<le> an_slippage_count (snd (note_fill f a))"
    "an_total_fills (snd (note_fill f a)) = an_total_fills a + 1"
proof -
  have "curves_ok (a\<lparr>an_total_fills := k\<rparr>) \<and> returns_ok (a\<lparr>an_total_fills := k\<rparr>)" for k
    using assms by (simp add: analytics_ok_def curves_ok_def returns_ok_def)
  then show "curves_ok (snd (note_fill f a))" "returns_ok (snd (note_fill f a))"
    by (simp_all add: note_fill_def Let_def curves_ok_parts returns_ok_parts split: option.split)
  show "an_trades (snd (note_fill f a)) = an_trades a" "an_trade_returns (snd (note_fill f a)) = an_trade_returns a"
    "an_win_count (snd (note_fill f a)) = an_win_count a" "an_holding_count (snd (note_fill f a)) = an_holding_count a"
    "an_slippage_count (snd (note_fill f a)) \<le> an_slippage_count a + 1"
    "an_total_fills (snd (note_fill f a)) = an_total_fills a + 1"
    by (simp_all add: note_fill_def Let_def record_latency_def record_slippage_def split: option.split)
  show "an_adverse_count (snd (note_fill f a)) + an_favorable_count (snd (note_fill f a)) \<le> an_slippage_count (snd (note_fill f a))"
    using assms by (simp add: note_fill_def Let_def record_latency_def record_slippage_def analytics_ok_def fills_ok_def split: option.split)
qed

lemma record_close_counts:
  "an_trades (record_close f st x t a) = an_trades a" "length (an_trade_returns (record_close f st x t a)) = length (an_trade_returns a) + 1"
  "an_win_count (record_close f st x t a) \<le> an_win_count a + 1" "an_holding_count (record_close f st x t a) = an_holding_count a + 1"
  "an_slippage_count (record_close f st x t a) = an_slippage_count a" "an_adverse_count (record_close f st x t a) = an_adverse_count a"
  "an_favorable_count (record_close f st x t a) = an_favorable_count a" "an_total_fills (record_close f st x t a) = an_total_fills a"
  by (simp_all add: record_close_def Let_def)

lemma an_on_fill_ok: assumes "analytics_ok a" shows "analytics_ok (an_on_fill f a)"
proof -
  obtain i b where b: "note_fill f a = (i, b)" by fastforce
  note n = note_fill_ok [OF assms, of f, unfolded b snd_conv]
  obtain c p pnl where fa: "fill_account f (an_cash b) (an_pos (fe_symbol f) b) = (c, p, pnl)" by (metis prod_cases3)
  have base: "an_win_count a \<le> length (an_trade_returns a)" "an_holding_count a = length (an_trade_returns a)"
    "length (an_trade_returns a) \<le> length (an_trades a)" "an_slippage_count a \<le> length (an_trades a)" "an_total_fills a = of_nat (length (an_trades a))"
    using assms by (simp_all add: analytics_ok_def fills_ok_def)
  have step: "analytics_ok (d\<lparr>an_cash := c, an_trades := an_trades d @ [r]\<rparr>)"
    if "curves_ok d" "returns_ok d" "an_trades d = an_trades a" "an_win_count d \<le> length (an_trade_returns d)"
      "an_holding_count d = length (an_trade_returns d)" "length (an_trade_returns d) \<le> length (an_trades a) + 1"
      "an_slippage_count d = an_slippage_count b" "an_adverse_count d = an_adverse_count b" "an_favorable_count d = an_favorable_count b"
      "an_total_fills d = an_total_fills b" for d r
    using that n base by (simp add: analytics_ok_def curves_ok_def returns_ok_def fills_ok_def)
  show ?thesis
  proof (cases pnl)
    case None
    show ?thesis unfolding an_on_fill_def b Let_def prod.case fa None option.case
      by (intro tt_inv step) (use n base in simp_all)
  next
    case (Some x)
    show ?thesis unfolding an_on_fill_def b Let_def prod.case fa Some option.case
      by (intro tt_inv step) (use n base record_close_counts(3) [of f _ x _ b] in \<open>simp_all add: record_close_counts curves_ok_parts returns_ok_parts le_trans [OF record_close_counts(3)]\<close>)
  qed
qed

lemma an_on_event_ok: assumes "analytics_ok a" "an_on_event lg e a = Some b" shows "analytics_ok b"
proof (cases e)
  case (AE_Market m) with assms show ?thesis by (auto simp: an_on_event_def intro: an_on_market_ok)
next
  case (AE_Tick t) with assms show ?thesis by (auto simp: an_on_event_def an_on_tick_def Let_def intro!: tt_inv)
next
  case (AE_Order o') with assms show ?thesis by (auto simp: an_on_event_def an_on_order_def intro!: tt_inv)
next
  case (AE_Fill f) with assms show ?thesis by (auto simp: an_on_event_def intro: an_on_fill_ok)
next
  case (AE_Snapshot e) with assms show ?thesis by (auto simp: an_on_event_def an_on_l2_snapshot_def Let_def intro!: tt_inv split: list.splits if_splits)
next
  case (AE_Funding fe) with assms show ?thesis by (auto simp: an_on_event_def an_on_funding_def Let_def intro!: tt_inv)
qed (use assms in \<open>auto simp: an_on_event_def\<close>)

inductive analytics_reach :: "(double \<Rightarrow> double) \<Rightarrow> analytics \<Rightarrow> bool" for lg where
  fresh: "analytics_reach lg (mk_analytics c w rf pp m)"
| event: "analytics_reach lg a \<Longrightarrow> an_on_event lg e a = Some b \<Longrightarrow> analytics_reach lg b"
| mark: "analytics_reach lg a \<Longrightarrow> analytics_reach lg (on_mark sy px a)"
| reset: "analytics_reach lg a \<Longrightarrow> analytics_reach lg (analytics_reset c a)"

text \<open>C34: The statistics stay well formed through every sequence of events, marks and resets: the equity and benchmark curves never
  exceed their cap, however long the run; there is one trade record per fill counted; wins, holding times and slippage samples are counted
  once per closing trade and per fill; the rolling window holds at most its size; the return statistics count the returns recorded.\<close>

theorem analytics_well_formed:
  assumes "analytics_reach lg a"
  shows "length (an_equity_curve a) \<le> an_max_equity_points a \<and> length (an_benchmark_curve a) \<le> an_max_equity_points a \<and>
    an_total_fills a = of_nat (length (an_trades a)) \<and> an_win_count a \<le> length (an_trade_returns a) \<and>
    an_holding_count a = length (an_trade_returns a) \<and> length (an_trade_returns a) \<le> length (an_trades a) \<and>
    an_adverse_count a + an_favorable_count a \<le> an_slippage_count a \<and> an_slippage_count a \<le> length (an_trades a) \<and>
    length (an_rolling_returns a) \<le> an_rolling_window a \<and> an_market_events_in_position a \<le> an_market_events_total a \<and>
    wf_n (an_return_stats a) = int (length (an_strategy_returns a)) \<and> length (an_benchmark_returns a) \<le> length (an_strategy_returns a)"
proof -
  from assms have "analytics_ok a"
  proof induction
    case (fresh c w rf pp m)
    show ?case by (simp add: analytics_ok_def curves_ok_def returns_ok_def fills_ok_def mk_analytics_def welford_zero_def)
  next
    case (event a e b)
    then show ?case by (blast intro: an_on_event_ok)
  next
    case (mark a sy px)
    then show ?case unfolding on_mark_def Let_def by (intro tt_inv)
  next
    case (reset a c)
    then show ?case by (simp add: analytics_reset_def analytics_ok_def curves_ok_def returns_ok_def fills_ok_def mk_analytics_def welford_zero_def)
  qed
  then show ?thesis unfolding analytics_ok_def curves_ok_def returns_ok_def fills_ok_def by blast
qed

lemma max_points_on_fill: "an_max_equity_points (an_on_fill f a) = an_max_equity_points a"
proof -
  obtain i b where b: "note_fill f a = (i, b)" by fastforce
  obtain c p pnl where fa: "fill_account f (an_cash b) (an_pos (fe_symbol f) b) = (c, p, pnl)" by (metis prod_cases3)
  have "an_max_equity_points (snd (note_fill f a)) = an_max_equity_points a"
    by (simp add: note_fill_def Let_def record_latency_def record_slippage_def split: option.split)
  then show ?thesis unfolding an_on_fill_def b Let_def prod.case fa by (simp add: b set_an_pos_def record_close_def Let_def split: option.split)
qed

lemma max_points_simps:
  "an_max_equity_points (on_mark sy px a) = an_max_equity_points a" "an_max_equity_points (an_on_fill f a) = an_max_equity_points a"
  "an_max_equity_points (mk_analytics c w rf pp m) = (if m > 4 then m else 4)"
  by (simp_all add: on_mark_def Let_def track_drawdown_def set_an_pos_def max_points_on_fill mk_analytics_def)

lemma analytics_well_formed_witness:
  "length (an_equity_curve (on_mark ''BTC'' 1 (an_on_fill (sample_fill 1 Buy) (mk_analytics 0 1 0 1 5)))) \<le> 5"
proof -
  have "analytics_reach (\<lambda>x. x) (on_mark ''BTC'' 1 (an_on_fill (sample_fill 1 Buy) (mk_analytics 0 1 0 1 5)))"
    by (rule analytics_reach.mark, rule analytics_reach.event [OF analytics_reach.fresh, where e = "AE_Fill (sample_fill 1 Buy)"])
       (simp only: an_on_event_def any_event.case)
  from conjunct1 [OF analytics_well_formed [OF this]] show ?thesis unfolding max_points_simps by simp
qed

end
