(* ===== verification/Text.thy ===== *)
theory Text
  imports Binary64
begin

text \<open>
  The string operations of the C and C++ standard libraries that the parsers use: \<open>std::string::find\<close> and
  \<open>substr\<close> on character lists, \<open>isspace\<close> and \<open>isdigit\<close> in the C locale, and \<open>strtod\<close> with correct rounding.
  A position \<open>std::string::npos\<close> is \<open>None\<close>.
\<close>

definition isspace :: "char \<Rightarrow> bool" where
  "isspace c \<longleftrightarrow> c \<in> {CHR '' '', CHR 0x09, CHR 0x0A, CHR 0x0B, CHR 0x0C, CHR 0x0D}"

definition isdigit :: "char \<Rightarrow> bool" where
  "isdigit c \<longleftrightarrow> 48 \<le> (of_char c :: nat) \<and> (of_char c :: nat) \<le> 57"

definition digit_val :: "char \<Rightarrow> nat" where "digit_val c = of_char c - 48"

definition tolower :: "char \<Rightarrow> char" where
  "tolower c = (let n = (of_char c :: nat) in if 65 \<le> n \<and> n \<le> 90 then char_of (n + 32) else c)"

definition toupper :: "char \<Rightarrow> char" where
  "toupper c = (let n = (of_char c :: nat) in if 97 \<le> n \<and> n \<le> 122 then char_of (n - 32) else c)"

subsection \<open>Searching\<close>

fun starts_with :: "string \<Rightarrow> string \<Rightarrow> bool" where
  "starts_with [] s = True"
| "starts_with (c # cs) [] = False"
| "starts_with (c # cs) (d # ds) = (c = d \<and> starts_with cs ds)"

text \<open>The first occurrence of \<open>p\<close> in \<open>s\<close>, as an offset.\<close>

fun find_str :: "string \<Rightarrow> string \<Rightarrow> nat option" where
  "find_str p [] = (if p = [] then Some 0 else None)"
| "find_str p (c # cs) = (if starts_with p (c # cs) then Some 0 else map_option Suc (find_str p cs))"

text \<open>\<open>s.find(p, pos)\<close>: \<open>npos\<close> when \<open>pos\<close> is beyond the end.\<close>

definition find_from :: "string \<Rightarrow> string \<Rightarrow> nat \<Rightarrow> nat option" where
  "find_from s p pos = (if pos \<le> length s then map_option (\<lambda>k. pos + k) (find_str p (drop pos s)) else None)"

text \<open>\<open>s.substr(pos, n)\<close> for \<open>pos \<le> s.size()\<close>.\<close>

definition substr :: "string \<Rightarrow> nat \<Rightarrow> nat \<Rightarrow> string" where
  "substr s pos n = take n (drop pos s)"

subsection \<open>Numbers\<close>

definition num_of_digits :: "string \<Rightarrow> int" where
  "num_of_digits ds = foldl (\<lambda>n c. n * 10 + int (digit_val c)) 0 ds"

definition take_sign :: "string \<Rightarrow> bool \<times> string" where
  "take_sign s = (case s of [] \<Rightarrow> (False, [])
     | c # cs \<Rightarrow> if c = CHR ''-'' then (True, cs) else if c = CHR ''+'' then (False, cs) else (False, s))"

text \<open>The optional exponent part: consumed only when at least one digit follows.\<close>

definition take_exponent :: "string \<Rightarrow> string \<Rightarrow> int \<times> string" where
  "take_exponent mark s = (case s of [] \<Rightarrow> (0, [])
     | c # cs \<Rightarrow>
        if c \<in> set mark then
          (let (neg, r) = take_sign cs; ds = takeWhile isdigit r
           in if ds = [] then (0, s)
              else ((if neg then - 1 else 1) * num_of_digits ds, dropWhile isdigit r))
        else (0, s))"

definition is_hex :: "char \<Rightarrow> bool" where
  "is_hex c \<longleftrightarrow> isdigit c \<or> tolower c \<in> set ''abcdef''"

definition hex_val :: "char \<Rightarrow> nat" where
  "hex_val c = (if isdigit c then digit_val c else of_char (tolower c) - 87)"

text \<open>An integer part, optionally followed by a point and a fraction, in the given base: the digits as one
  number, the length of the fraction, and the rest. \<open>None\<close> when there is no digit.\<close>

definition take_fraction :: "(char \<Rightarrow> bool) \<Rightarrow> string \<Rightarrow> string \<times> string" where
  "take_fraction isd r = (case r of [] \<Rightarrow> ([], []) | c # cs \<Rightarrow>
     if c = CHR ''.'' then (takeWhile isd cs, dropWhile isd cs) else ([], r))"

definition number_in_base :: "(char \<Rightarrow> nat) \<Rightarrow> int \<Rightarrow> string \<Rightarrow> int" where
  "number_in_base dv b ds = foldl (\<lambda>n c. n * b + int (dv c)) 0 ds"

definition take_mantissa :: "(char \<Rightarrow> bool) \<Rightarrow> (char \<Rightarrow> nat) \<Rightarrow> int \<Rightarrow> string \<Rightarrow> (int \<times> nat \<times> string) option" where
  "take_mantissa isd dv b s =
     (let ip = takeWhile isd s; (fp, r) = take_fraction isd (dropWhile isd s)
      in if ip = [] \<and> fp = [] then None else Some (number_in_base dv b (ip @ fp), length fp, r))"

definition is_nan_char :: "char \<Rightarrow> bool" where
  "is_nan_char c \<longleftrightarrow> isdigit c \<or> c = CHR ''_'' \<or> (97 \<le> (of_char (tolower c) :: nat) \<and> (of_char (tolower c) :: nat) \<le> 122)"

definition drop_nan_payload :: "string \<Rightarrow> string" where
  "drop_nan_payload s = (case s of [] \<Rightarrow> [] | c # cs \<Rightarrow>
     if c = CHR ''('' then (case dropWhile is_nan_char cs of [] \<Rightarrow> s | d # ds \<Rightarrow> if d = CHR '')'' then ds else s) else s)"

text \<open>The magnitude after the sign: infinity, not-a-number, hexadecimal, decimal.\<close>

definition strtod_mag :: "string \<Rightarrow> (double \<times> (rat option) \<times> string) option" where
  "strtod_mag s =
     (let l = map tolower s in
      if starts_with ''infinity'' l then Some (PInf, None, drop 8 s)
      else if starts_with ''inf'' l then Some (PInf, None, drop 3 s)
      else if starts_with ''nan'' l then Some (NaN, None, drop_nan_payload (drop 3 s))
      else case (if starts_with ''0x'' l then take_mantissa is_hex hex_val 16 (drop 2 s) else None) of
        Some (n, k, r) \<Rightarrow> (let (e, r') = take_exponent ''pP'' r in Some (0, Some (of_int n * 2 powi (e - 4 * int k)), r'))
      | None \<Rightarrow>
         (case take_mantissa isdigit digit_val 10 s of None \<Rightarrow> None
          | Some (n, k, r) \<Rightarrow> (let (e, r') = take_exponent ''eE'' r in Some (0, Some (of_int n * 10 powi (e - int k)), r'))))"

text \<open>\<open>strtod\<close>: the value and the unread rest, or \<open>None\<close> when nothing converts (\<open>endptr\<close> stays at the start).\<close>

definition strtod :: "string \<Rightarrow> (double \<times> string) option" where
  "strtod s =
     (let (neg, t) = take_sign (dropWhile isspace s)
      in case strtod_mag t of None \<Rightarrow> None
         | Some (x, Some q, r) \<Rightarrow> Some (rnd (if neg then - q else q), r)
         | Some (x, None, r) \<Rightarrow> Some (if neg then - x else x, r))"

text \<open>Decimal text of a natural number, as \<open>std::to_string\<close> prints it.\<close>

fun show_nat :: "nat \<Rightarrow> string" where
  "show_nat n = (if n < 10 then [char_of (48 + n)] else show_nat (n div 10) @ [char_of (48 + n mod 10)])"

declare show_nat.simps [simp del]

definition show_int :: "int \<Rightarrow> string" where
  "show_int i = (if i < 0 then CHR ''-'' # show_nat (nat (- i)) else show_nat (nat i))"

subsection \<open>Facts\<close>

lemma digit_char [simp]: "d < 10 \<Longrightarrow> isdigit (char_of (48 + d))" "d < 10 \<Longrightarrow> digit_val (char_of (48 + d)) = d"
  by (simp_all add: isdigit_def digit_val_def)

lemma show_nat_digits: "list_all isdigit (show_nat n) \<and> show_nat n \<noteq> []"
proof (induction n rule: show_nat.induct)
  case (1 n)
  then show ?case by (subst (1 2) show_nat.simps) auto
qed

lemma num_of_digits_snoc [simp]: "num_of_digits (ds @ [c]) = num_of_digits ds * 10 + int (digit_val c)"
  by (simp add: num_of_digits_def)

lemma num_of_digits_show [simp]: "num_of_digits (show_nat n) = int n"
proof (induction n rule: show_nat.induct)
  case (1 n)
  show ?case
  proof (cases "n < 10")
    case True
    then show ?thesis by (subst show_nat.simps) (simp add: num_of_digits_def)
  next
    case False
    with 1 have "num_of_digits (show_nat (n div 10)) = int (n div 10)" by simp
    moreover have "int (n div 10) * 10 + int (n mod 10) = int n" by presburger
    ultimately show ?thesis using False by (subst show_nat.simps) (simp only: if_False num_of_digits_snoc digit_char(2) mod_less_divisor zero_less_numeral)
  qed
qed

lemma take_digits: "list_all P xs \<Longrightarrow> (case ys of [] \<Rightarrow> True | y # _ \<Rightarrow> \<not> P y) \<Longrightarrow>
   takeWhile P (xs @ ys) = xs \<and> dropWhile P (xs @ ys) = ys"
  by (induction xs) (auto split: list.splits)

lemma starts_with_append [simp]: "starts_with p (p @ s)"
  by (induction p) auto

lemma starts_with_iff: "starts_with p s \<longleftrightarrow> (\<exists>r. s = p @ r)"
proof (induction p s rule: starts_with.induct)
  case (3 c cs d ds)
  then show ?case by auto
qed auto

lemma find_str_sound: "find_str p s = Some k \<Longrightarrow> starts_with p (drop k s) \<and> k \<le> length s"
  by (induction s arbitrary: k) (auto split: if_splits)

lemma find_from_ge: "find_from s p pos = Some k \<Longrightarrow> pos \<le> k \<and> k \<le> length s"
  using find_str_sound by (force simp: find_from_def split: if_splits)

text \<open>A character that ends a decimal integer for \<open>strtod\<close>.\<close>

definition ends_number :: "string \<Rightarrow> bool" where
  "ends_number r = (case r of [] \<Rightarrow> True | c # _ \<Rightarrow> \<not> isdigit c \<and> c \<notin> set ''.eExX'')"

lemma isdigit_tolower: "isdigit c \<Longrightarrow> tolower c = c" "isdigit c \<Longrightarrow> \<not> isspace c" "isdigit c \<Longrightarrow> c \<noteq> CHR ''-'' \<and> c \<noteq> CHR ''+''"
  "isdigit c \<Longrightarrow> c \<notin> set ''infaxX.eE''"
  by (auto simp: isdigit_def tolower_def isspace_def Let_def)

lemma of_char_tolower: "(of_char (tolower c) :: nat) =
    (if 65 \<le> (of_char c :: nat) \<and> (of_char c :: nat) \<le> 90 then of_char c + 32 else of_char c)"
  by (simp add: tolower_def Let_def)

lemma tolower_x: assumes "tolower c = CHR ''x''" shows "c = CHR ''x'' \<or> c = CHR ''X''"
proof -
  have "(of_char (tolower c) :: nat) = 120" by (simp add: assms)
  then have "(of_char c :: nat) = 120 \<or> (of_char c :: nat) = 88" unfolding of_char_tolower by (auto split: if_splits)
  then have "(of_char c :: nat) = of_char (CHR ''x'') \<or> (of_char c :: nat) = of_char (CHR ''X'')" by simp
  then show ?thesis unfolding of_char_eq_iff .
qed

lemma number_in_base_10: "number_in_base digit_val 10 ds = num_of_digits ds"
  by (simp add: number_in_base_def num_of_digits_def)

lemma strtod_nat:
  assumes "ends_number r"
  shows "strtod (show_nat n @ r) = Some (rnd (of_nat n), r)"
proof -
  obtain c cs where s: "show_nat n = c # cs" and d: "isdigit c" "list_all isdigit cs"
    using show_nat_digits [of n] by (cases "show_nat n") auto
  note c = isdigit_tolower [OF d(1)]
  have m: "takeWhile isdigit (show_nat n @ r) = show_nat n" "dropWhile isdigit (show_nat n @ r) = r"
    using take_digits [of isdigit "show_nat n" r] show_nat_digits [of n] assms by (auto simp: ends_number_def split: list.splits)
  have f: "take_fraction isdigit r = ([], r)" "take_exponent ''eE'' r = (0, r)"
    using assms by (auto simp: take_fraction_def take_exponent_def ends_number_def split: list.splits)
  have x: "\<not> starts_with ''0x'' (map tolower (show_nat n @ r))"
  proof (cases cs)
    case Nil
    show ?thesis
    proof (cases r)
      case (Cons a as)
      have "tolower a \<noteq> CHR ''x''" using assms tolower_x [of a] by (auto simp: ends_number_def Cons)
      then show ?thesis by (auto simp: s Nil Cons)
    qed (auto simp: s Nil)
  next
    case (Cons e es)
    with d(2) have "isdigit e" by simp
    with isdigit_tolower [OF this] show ?thesis by (auto simp: s Cons)
  qed
  have i: "\<not> starts_with (CHR ''i'' # p) (map tolower (show_nat n @ r))" "\<not> starts_with (CHR ''n'' # p) (map tolower (show_nat n @ r))" for p
    using c by (auto simp: s)
  have "take_mantissa isdigit digit_val 10 (show_nat n @ r) = Some (int n, 0, r)"
    using show_nat_digits [of n] by (simp add: take_mantissa_def m f number_in_base_10)
  then have mag: "strtod_mag (show_nat n @ r) = Some (0, Some (of_nat n), r)"
    by (simp only: strtod_mag_def Let_def i x if_False option.case prod.case f) simp
  have "take_sign (dropWhile isspace (show_nat n @ r)) = (False, show_nat n @ r)" using c by (simp add: s take_sign_def)
  then show ?thesis by (simp add: strtod_def mag)
qed

end
