(* ===== verification/Margin_Table.thy ===== *)
theory Margin_Table
  imports Text
begin

text \<open>
  The tiered maintenance margin table, \<open>src/risk/maintenance_margin_table.cpp\<close>: the hand-written scanner of the
  exchange's leverage-bracket JSON and the lookup by notional. The two scanning loops recurse on the
  unread characters and carry the position, the string and escape flags and the nesting depth. \<open>std::sort\<close> leaves
  the order of equal caps open; the model's insertion sort picks one.
\<close>

record MarginTier =
  notional_cap :: double
  maintenance_margin_rate :: double
  maint_amount :: double

type_synonym margin_table = "MarginTier list"

definition DBL_MAX :: double where "DBL_MAX = Fin ((2 ^ 53 - 1) * 2 ^ 971)"

definition skip_ws :: "string \<Rightarrow> nat \<Rightarrow> nat" where
  "skip_ws s pos = pos + length (takeWhile isspace (drop pos s))"

definition extract_number :: "string \<Rightarrow> string \<Rightarrow> double option" where
  "extract_number obj key =
     (let quoted_key = [CHR 0x22] @ key @ [CHR 0x22] in
      case find_from obj quoted_key 0 of None \<Rightarrow> None
      | Some p0 \<Rightarrow>
       (case find_from obj '':'' (p0 + length quoted_key) of None \<Rightarrow> None
        | Some p1 \<Rightarrow>
          (let pos = skip_ws obj (p1 + 1) in
           if pos \<ge> length obj then None
           else if obj ! pos = CHR 0x22 then
             (case find_from obj [CHR 0x22] (pos + 1) of None \<Rightarrow> None
              | Some e \<Rightarrow> map_option fst (strtod (substr obj (pos + 1) (e - pos - 1))))
           else map_option fst (strtod (drop pos obj)))))"

text \<open>The position of the bracket that closes the array.\<close>

fun scan_array :: "string \<Rightarrow> nat \<Rightarrow> bool \<Rightarrow> bool \<Rightarrow> int \<Rightarrow> nat option" where
  "scan_array [] pos in_string escaped depth = None"
| "scan_array (c # cs) pos in_string escaped depth =
     (if in_string then
        (if escaped then scan_array cs (pos + 1) True False depth
         else if c = CHR 0x5C then scan_array cs (pos + 1) True True depth
         else if c = CHR 0x22 then scan_array cs (pos + 1) False escaped depth
         else scan_array cs (pos + 1) True escaped depth)
      else if c = CHR 0x22 then scan_array cs (pos + 1) True escaped depth
      else if c = CHR ''['' then scan_array cs (pos + 1) False escaped (depth + 1)
      else if c = CHR '']'' then
        (if depth - 1 = 0 then Some pos else scan_array cs (pos + 1) False escaped (depth - 1))
      else scan_array cs (pos + 1) False escaped depth)"

definition first_brackets_array :: "string \<Rightarrow> string option" where
  "first_brackets_array body =
     (let key = [CHR 0x22] @ ''brackets'' @ [CHR 0x22] in
      case find_from body key 0 of None \<Rightarrow> None
      | Some p0 \<Rightarrow>
       (case find_from body '':'' (p0 + length key) of None \<Rightarrow> None
        | Some p1 \<Rightarrow>
         (case find_from body ''['' (p1 + 1) of None \<Rightarrow> None
          | Some start \<Rightarrow>
             map_option (\<lambda>pos. substr body (start + 1) (pos - start - 1))
               (scan_array (drop start body) start False False 0))))"

definition tier_of_object :: "string \<Rightarrow> MarginTier" where
  "tier_of_object obj =
     \<lparr>notional_cap = (case extract_number obj ''notionalCap'' of Some x \<Rightarrow> x | None \<Rightarrow> DBL_MAX),
      maintenance_margin_rate = (case extract_number obj ''maintMarginRatio'' of Some x \<Rightarrow> x | None \<Rightarrow> 0),
      maint_amount = (case extract_number obj ''cum'' of Some x \<Rightarrow> x | None \<Rightarrow> 0)\<rparr>"

fun scan_objects :: "string \<Rightarrow> string \<Rightarrow> nat \<Rightarrow> bool \<Rightarrow> bool \<Rightarrow> int \<Rightarrow> nat option \<Rightarrow> margin_table" where
  "scan_objects br [] pos in_string escaped depth start = []"
| "scan_objects br (c # cs) pos in_string escaped depth start =
     (if in_string then
        (if escaped then scan_objects br cs (pos + 1) True False depth start
         else if c = CHR 0x5C then scan_objects br cs (pos + 1) True True depth start
         else if c = CHR 0x22 then scan_objects br cs (pos + 1) False escaped depth start
         else scan_objects br cs (pos + 1) True escaped depth start)
      else if c = CHR 0x22 then scan_objects br cs (pos + 1) True escaped depth start
      else if c = CHR ''{'' then
        scan_objects br cs (pos + 1) False escaped (depth + 1) (if depth = 0 then Some pos else start)
      else if c = CHR ''}'' then
        (if depth \<le> 0 then scan_objects br cs (pos + 1) False escaped depth start
         else (case start of
             Some st \<Rightarrow> if depth - 1 = 0
               then tier_of_object (substr br st (pos - st + 1)) # scan_objects br cs (pos + 1) False escaped (depth - 1) None
               else scan_objects br cs (pos + 1) False escaped (depth - 1) start
           | None \<Rightarrow> scan_objects br cs (pos + 1) False escaped (depth - 1) start))
      else scan_objects br cs (pos + 1) False escaped depth start)"

definition parse_bracket_objects :: "string \<Rightarrow> margin_table" where
  "parse_bracket_objects br = scan_objects br br 0 False False 0 None"

fun insert_tier :: "MarginTier \<Rightarrow> margin_table \<Rightarrow> margin_table" where
  "insert_tier t [] = [t]"
| "insert_tier t (u # us) = (if notional_cap t < notional_cap u then t # u # us else u # insert_tier t us)"

definition sort_tiers :: "margin_table \<Rightarrow> margin_table" where
  "sort_tiers ts = fold insert_tier ts []"

definition load_from_leverage_bracket_json :: "string \<Rightarrow> margin_table" where
  "load_from_leverage_bracket_json body =
     (case first_brackets_array body of None \<Rightarrow> [] | Some br \<Rightarrow> sort_tiers (parse_bracket_objects br))"

text \<open>The lookup loop shared by the two queries: the first tier whose cap covers the notional, else the last.\<close>

definition tier_for_notional :: "margin_table \<Rightarrow> double \<Rightarrow> MarginTier" where
  "tier_for_notional ts notional =
     (case find (\<lambda>t. notional \<le> notional_cap t) ts of Some t \<Rightarrow> t | None \<Rightarrow> last ts)"

definition maintenance_margin_rate_for_notional :: "margin_table \<Rightarrow> double \<Rightarrow> double" where
  "maintenance_margin_rate_for_notional ts notional =
     (if ts = [] then lit (5 / 1000) else maintenance_margin_rate (tier_for_notional ts notional))"

definition maint_amount_for_notional :: "margin_table \<Rightarrow> double \<Rightarrow> double" where
  "maint_amount_for_notional ts notional =
     (if ts = [] then 0 else maint_amount (tier_for_notional ts notional))"

subsection \<open>The table is sorted\<close>

abbreviation caps_sorted :: "margin_table \<Rightarrow> bool" where
  "caps_sorted \<equiv> sorted_wrt (\<lambda>t u. notional_cap t \<le> notional_cap u)"

lemma set_insert_tier [simp]: "set (insert_tier t ts) = insert t (set ts)"
  by (induction ts) auto

lemma set_sort_tiers [simp]: "set (sort_tiers ts) = set ts"
proof -
  have "set (fold insert_tier ts us) = set ts \<union> set us" for us
    by (induction ts arbitrary: us) auto
  then show ?thesis by (simp add: sort_tiers_def)
qed

lemma insert_tier_sorted:
  assumes "caps_sorted ts" "\<forall>u\<in>insert t (set ts). notional_cap u \<noteq> NaN"
  shows "caps_sorted (insert_tier t ts)"
  using assms
proof (induction ts)
  case Nil
  then show ?case by simp
next
  case (Cons u us)
  show ?case
  proof (cases "notional_cap t < notional_cap u")
    case True
    then have "\<forall>v\<in>set (u # us). notional_cap t \<le> notional_cap v"
      using Cons.prems dless_imp_le [OF True] dle_trans by auto
    with Cons.prems show ?thesis using True by simp
  next
    case False
    then have "notional_cap u \<le> notional_cap t" using Cons.prems dnot_less by auto
    with Cons False show ?thesis by simp
  qed
qed

lemma sort_tiers_sorted: "\<forall>t\<in>set ts. notional_cap t \<noteq> NaN \<Longrightarrow> caps_sorted (sort_tiers ts)"
proof -
  have "caps_sorted us \<Longrightarrow> \<forall>t\<in>set ts \<union> set us. notional_cap t \<noteq> NaN \<Longrightarrow> caps_sorted (fold insert_tier ts us)" for us
  proof (induction ts arbitrary: us)
    case (Cons t ts)
    then show ?case using insert_tier_sorted [of us t] by simp
  qed simp
  from this [of "[]"] show "\<forall>t\<in>set ts. notional_cap t \<noteq> NaN \<Longrightarrow> caps_sorted (sort_tiers ts)" by (simp add: sort_tiers_def)
qed

lemma find_sorted:
  assumes "caps_sorted ts" "find (\<lambda>t. x \<le> notional_cap t) ts = Some t"
  shows "t \<in> set ts \<and> x \<le> notional_cap t \<and> (\<forall>u\<in>set ts. x \<le> notional_cap u \<longrightarrow> notional_cap t \<le> notional_cap u)"
  using assms
proof (induction ts)
  case (Cons u us)
  show ?case
  proof (cases "x \<le> notional_cap u")
    case True
    with Cons.prems have "t = u" by simp
    moreover have "notional_cap u \<noteq> NaN" using True by auto
    ultimately show ?thesis using True Cons.prems dle_refl by auto
  qed (use Cons in auto)
qed simp

text \<open>A loaded table answers with the right tier: whatever JSON was loaded, if its caps are numbers, the tier
  used for a notional covered by some tier is the one with the smallest covering cap; beyond all caps it
  is a tier with the largest cap.\<close>

theorem loaded_tier_is_smallest_cover:
  assumes "ts = load_from_leverage_bracket_json body" "ts \<noteq> []" "\<forall>t\<in>set ts. notional_cap t \<noteq> NaN"
  shows "tier_for_notional ts x \<in> set ts \<and>
    (if \<exists>t\<in>set ts. x \<le> notional_cap t
     then x \<le> notional_cap (tier_for_notional ts x) \<and>
       (\<forall>u\<in>set ts. x \<le> notional_cap u \<longrightarrow> notional_cap (tier_for_notional ts x) \<le> notional_cap u)
     else (\<forall>u\<in>set ts. notional_cap u \<le> notional_cap (tier_for_notional ts x)))"
proof -
  obtain us where us: "ts = sort_tiers us"
    using assms(1,2) by (auto simp: load_from_leverage_bracket_json_def split: option.splits)
  have s: "caps_sorted ts" unfolding us by (rule sort_tiers_sorted) (use assms(3) us in simp)
  show ?thesis
  proof (cases "find (\<lambda>t. x \<le> notional_cap t) ts")
    case None
    have "notional_cap u \<le> notional_cap (last ts)" if "u \<in> set ts" for u
    proof -
      have "ts = butlast ts @ [last ts]" using assms(2) by simp
      with s have "sorted_wrt (\<lambda>t u. notional_cap t \<le> notional_cap u) (butlast ts @ [last ts])" by simp
      then have "\<forall>v\<in>set (butlast ts). notional_cap v \<le> notional_cap (last ts)" by (simp add: sorted_wrt_append)
      moreover have "u \<in> set (butlast ts) \<or> u = last ts" using that \<open>ts = butlast ts @ [last ts]\<close>
        by (metis Un_iff empty_set insert_iff list.simps(15) set_append empty_iff)
      ultimately show ?thesis using dle_refl assms(3) that by auto
    qed
    moreover have "tier_for_notional ts x = last ts" by (simp add: tier_for_notional_def None)
    moreover have "\<not> (\<exists>t\<in>set ts. x \<le> notional_cap t)" using None by (auto simp: find_None_iff)
    ultimately show ?thesis using assms(2) by simp
  next
    case (Some t)
    from find_sorted [OF s Some] Some show ?thesis by (auto simp: tier_for_notional_def)
  qed
qed

definition quoted :: "string \<Rightarrow> string" where "quoted s = [CHR 0x22] @ s @ [CHR 0x22]"

definition sample_brackets :: string where
  "sample_brackets = ''[{'' @ quoted ''brackets'' @ '':[{'' @ quoted ''notionalCap'' @ '':50000,'' @ quoted ''maintMarginRatio'' @ '':0.5},{'' @
     quoted ''notionalCap'' @ '':'' @ quoted ''1000'' @ '',''  @ quoted ''maintMarginRatio'' @ '':0.25}]}]''"

lemma sample_loads: "load_from_leverage_bracket_json sample_brackets =
  [\<lparr>notional_cap = Fin 1000, maintenance_margin_rate = Fin (1 / 4), maint_amount = Fin 0\<rparr>,
   \<lparr>notional_cap = Fin 50000, maintenance_margin_rate = Fin (1 / 2), maint_amount = Fin 0\<rparr>]"
  by code_simp

theorem loaded_tier_is_smallest_cover_witness:
  "notional_cap (tier_for_notional (load_from_leverage_bracket_json sample_brackets) (Fin 2000)) = Fin 50000 \<and>
   tier_for_notional (load_from_leverage_bracket_json sample_brackets) (Fin 2000) \<in> set (load_from_leverage_bracket_json sample_brackets)"
  using loaded_tier_is_smallest_cover [OF refl, of sample_brackets "Fin 2000"]
  by (simp add: sample_loads) (simp add: tier_for_notional_def)

end
