(* ===== verification/Futures_Risk.thy ===== *)
theory Futures_Risk
  imports Risk_Manager Margin_Table
begin

text \<open>
  The futures pre-trade check, \<open>src/risk/futures_risk_check.h\<close>: notional cap, leverage cap and projected
  liquidation distance of the position the order would leave. The texts that \<open>snprintf\<close> makes are a
  \<^emph>\<open>reason\<close> with the values that go into them.
\<close>

datatype futures_reason = No_Reason
  | Notional_Exceeds double double double double double
  | Leverage_Exceeds double double double double
  | Liquidation_Near double double double double double

record decision =
  allow :: bool
  reason :: futures_reason

definition allowed :: decision where "allowed = \<lparr>allow = True, reason = No_Reason\<rparr>"

definition refused :: "futures_reason \<Rightarrow> decision" where "refused r = \<lparr>allow = False, reason = r\<rparr>"

definition noop_evaluate :: "order_event \<Rightarrow> portfolio \<Rightarrow> double \<Rightarrow> decision" where
  "noop_evaluate ord port mark = allowed"

record futures_config =
  max_notional_usdt :: double
  max_leverage :: double
  min_liquidation_distance_pct :: double
  maintenance_margin_pct :: double

record futures_check =
  fc_config :: futures_config
  mm_table :: "margin_table option"

definition existing_qty :: "order_event \<Rightarrow> portfolio \<Rightarrow> double" where
  "existing_qty ord port = (case map_of (positions port) (oe_symbol ord) of Some p \<Rightarrow> qty p | None \<Rightarrow> 0)"

definition futures_mm_rate :: "futures_check \<Rightarrow> double \<Rightarrow> double" where
  "futures_mm_rate fc post_notional =
     (case mm_table fc of
        Some t \<Rightarrow> if t \<noteq> [] then maintenance_margin_rate_for_notional t post_notional else maintenance_margin_pct (fc_config fc)
      | None \<Rightarrow> maintenance_margin_pct (fc_config fc))"

definition evaluate :: "order_event \<Rightarrow> portfolio \<Rightarrow> double \<Rightarrow> futures_check \<Rightarrow> decision" where
  "evaluate ord port mark fc =
     (let c = fc_config fc in
      if mark \<le> 0 then allowed
      else if max_notional_usdt c \<le> 0 \<and> max_leverage c \<le> 0 \<and> min_liquidation_distance_pct c \<le> 0 then allowed
      else
       let eq = existing_qty ord port;
           signed_delta = (if oe_side ord = Buy then oe_quantity ord else - oe_quantity ord);
           post_notional = \<bar>eq + signed_delta\<bar> * mark
       in
       if max_notional_usdt c > 0 \<and> post_notional > max_notional_usdt c
       then refused (Notional_Exceeds post_notional (max_notional_usdt c) eq signed_delta mark)
       else if cash port > 0 \<and> post_notional > 0 then
         (if max_leverage c > 0 \<and> post_notional / cash port > max_leverage c
          then refused (Leverage_Exceeds (post_notional / cash port) (max_leverage c) post_notional (cash port))
          else if min_liquidation_distance_pct c > 0 \<and>
            cash port / post_notional - futures_mm_rate fc post_notional < min_liquidation_distance_pct c
          then refused (Liquidation_Near (cash port / post_notional - futures_mm_rate fc post_notional)
            (min_liquidation_distance_pct c) (cash port) post_notional (futures_mm_rate fc post_notional))
          else allowed)
       else allowed)"

definition set_maintenance_margin_table :: "margin_table option \<Rightarrow> futures_check \<Rightarrow> futures_check" where
  "set_maintenance_margin_table t fc = fc\<lparr>mm_table := t\<rparr>"

definition post_notional :: "order_event \<Rightarrow> portfolio \<Rightarrow> double \<Rightarrow> double" where
  "post_notional ord port mark = \<bar>existing_qty ord port + signed_order_quantity ord\<bar> * mark"

text \<open>What an allowed order satisfies, one cap at a time; a cap that is not positive is switched off.\<close>

definition within_caps :: "order_event \<Rightarrow> portfolio \<Rightarrow> double \<Rightarrow> futures_check \<Rightarrow> bool" where
  "within_caps ord port mark fc \<longleftrightarrow>
     (let c = fc_config fc; n = post_notional ord port mark in
      (0 < max_notional_usdt c \<longrightarrow> n \<le> max_notional_usdt c) \<and>
      (0 < max_leverage c \<longrightarrow> 0 < cash port \<longrightarrow> 0 < n \<longrightarrow> n / cash port \<le> max_leverage c) \<and>
      (0 < min_liquidation_distance_pct c \<longrightarrow> 0 < cash port \<longrightarrow> 0 < n \<longrightarrow>
        min_liquidation_distance_pct c \<le> cash port / n - futures_mm_rate fc n))"

lemma evaluate_allow:
  fixes ord :: order_event and port :: portfolio and mark :: double
  assumes "0 < mark"
  defines "n \<equiv> post_notional ord port mark"
  shows "allow (evaluate ord port mark fc) \<longleftrightarrow>
    \<not> (0 < max_notional_usdt (fc_config fc) \<and> n > max_notional_usdt (fc_config fc)) \<and>
    (0 < cash port \<and> 0 < n \<longrightarrow>
      \<not> (0 < max_leverage (fc_config fc) \<and> n / cash port > max_leverage (fc_config fc)) \<and>
      \<not> (0 < min_liquidation_distance_pct (fc_config fc) \<and> cash port / n - futures_mm_rate fc n < min_liquidation_distance_pct (fc_config fc)))"
proof -
  have p: "\<not> 0 < a" if "a \<le> 0" for a :: double using that by (cases a) (auto simp: double_defs)
  have m: "\<not> mark \<le> 0" using p assms(1) by blast
  show ?thesis
    unfolding n_def evaluate_def Let_def post_notional_def signed_order_quantity_def [symmetric]
    using m p by (auto simp: refused_def allowed_def)
qed

text \<open>C24: At a positive mark price the futures check allows an order exactly when the position it would leave is inside every cap that is
  enabled, whichever of the three are: its notional value is at most the notional cap; the leverage, value over cash, is at most
  the leverage cap; the distance to liquidation, with the tiered rate when a table is loaded, is at least the minimum. The last two are
  checked only when the account has cash and the order does not leave it flat. The values are required to be finite numbers.\<close>

theorem futures_allowed_within_caps:
  assumes "0 < mark" "isfinite (cash port)" "isfinite (post_notional ord port mark)"
    and "isfinite (futures_mm_rate fc (post_notional ord port mark))"
  shows "allow (evaluate ord port mark fc) \<longleftrightarrow> within_caps ord port mark fc"
proof -
  have nan: "a \<noteq> NaN" if "0 < a" for a :: double using that by auto
  have fin: "a \<noteq> NaN" if "isfinite a" for a :: double using that by auto
  have div: "a / b \<noteq> NaN" if "isfinite a" "isfinite b" "0 < b" for a b :: double
    using that by (auto simp: isfinite_iff zero_double_def dops_Fin)
  have sub: "a - b \<noteq> NaN" if "a \<noteq> NaN" "isfinite b" for a b :: double
    using that by (cases a; cases b) (auto simp: double_defs)
  show ?thesis unfolding evaluate_allow [OF assms(1)] within_caps_def Let_def
    using assms nan fin div sub by (auto simp: dnot_less)
qed

text \<open>Only the leverage cap, of 10, is set. The order leaves a position worth 200: allowed with 1000 in cash, refused with 10.\<close>

definition leverage_demo :: futures_check where
  "leverage_demo = \<lparr>fc_config = \<lparr>max_notional_usdt = 0, max_leverage = dint 10, min_liquidation_distance_pct = 0,
     maintenance_margin_pct = 0\<rparr>, mm_table = None\<rparr>"

theorem futures_allowed_within_caps_witness:
  "allow (evaluate (fst (rate_demo 0)) (mk_portfolio (dint 1000)) (dint 100) leverage_demo) \<and>
   \<not> allow (evaluate (fst (rate_demo 0)) (mk_portfolio (dint 10)) (dint 100) leverage_demo)"
proof -
  let ?o = "fst (rate_demo 0)"
  have pn: "post_notional ?o (mk_portfolio c) (dint 100) = dint 200" for c
    by (simp add: post_notional_def existing_qty_def mk_portfolio_def rate_demo_def mk_order_event_def signed_order_quantity_def
      dint_ieee dint_ops)
  have r: "futures_mm_rate leverage_demo x = 0" for x by (simp add: futures_mm_rate_def leverage_demo_def)
  have m: "max_notional_usdt (fc_config leverage_demo) = 0" "max_leverage (fc_config leverage_demo) = dint 10"
    "min_liquidation_distance_pct (fc_config leverage_demo) = 0" by (simp_all add: leverage_demo_def)
  have c: "cash (mk_portfolio x) = x" for x by (simp add: mk_portfolio_def)
  have l: "dint 200 / dint 1000 = rnd (1 / 5)" "dint 200 / dint 10 = dint 20" by (simp_all add: dint_def dops_Fin)
  have "rnd (1 / 5) \<le> dint 10" using rnd_le_fixed [of 10 "1 / 5"] by (simp add: dint_def)
  then have w: "within_caps ?o (mk_portfolio (dint 1000)) (dint 100) leverage_demo" "\<not> within_caps ?o (mk_portfolio (dint 10)) (dint 100) leverage_demo"
    by (simp_all add: within_caps_def Let_def m c pn l dint_zero)
  have f: "isfinite (0 :: double)" "isfinite (dint x)" for x by (simp_all add: dint_def zero_double_def)
  have "allow (evaluate ?o (mk_portfolio (dint k)) (dint 100) leverage_demo) \<longleftrightarrow> within_caps ?o (mk_portfolio (dint k)) (dint 100) leverage_demo" for k
    by (rule futures_allowed_within_caps) (simp_all add: pn r c f dint_zero)
  then show ?thesis using w by simp
qed

end
