(* ===== verification/Exit_Policy.thy ===== *)
theory Exit_Policy
  imports Event_Types
begin

text \<open>
  Exit plans: \<open>src/exits/exit_intent.h\<close>, the handles of \<open>src/exits/bracket_adapter.h\<close> and the platform's default
  exit policy \<open>src/exits/default_exit_policy.cpp\<close>. \<open>std::optional\<close> is \<open>option\<close>; default member
  values are those of \<open>new_intent\<close>.
\<close>

datatype exit_reason = Stop_Loss | Take_Profit | Trailing_Stop | Time_Stop | Manual

record exit_intent =
  ei_symbol :: symbol
  ei_close_side :: order_side
  ei_qty :: double
  ei_qty_fraction :: double
  ei_stop_loss :: "double option"
  ei_take_profit :: "double option"
  ei_reference_entry :: "double option"
  ei_trailing_pct :: "double option"
  ei_deadline :: "time_point option"
  ei_opener :: order_id
  ei_strategy :: string

definition new_intent :: exit_intent where
  "new_intent = \<lparr>ei_symbol = [], ei_close_side = Sell, ei_qty = 0, ei_qty_fraction = 1, ei_stop_loss = None,
     ei_take_profit = None, ei_reference_entry = None, ei_trailing_pct = None, ei_deadline = None, ei_opener = 0,
     ei_strategy = []\<rparr>"

definition make_long_exit_intent :: "symbol \<Rightarrow> double \<Rightarrow> double \<Rightarrow> double \<Rightarrow> double \<Rightarrow> string \<Rightarrow> exit_intent" where
  "make_long_exit_intent sy entry q sl_pct tp_pct strat = new_intent\<lparr>ei_symbol := sy, ei_close_side := Sell, ei_qty := q,
     ei_reference_entry := Some entry,
     ei_stop_loss := (if sl_pct > 0 then Some (entry * (1 - sl_pct)) else None),
     ei_take_profit := (if tp_pct > 0 then Some (entry * (1 + tp_pct)) else None), ei_strategy := strat\<rparr>"

definition make_short_exit_intent :: "symbol \<Rightarrow> double \<Rightarrow> double \<Rightarrow> double \<Rightarrow> double \<Rightarrow> string \<Rightarrow> exit_intent" where
  "make_short_exit_intent sy entry q sl_pct tp_pct strat = new_intent\<lparr>ei_symbol := sy, ei_close_side := Buy, ei_qty := q,
     ei_reference_entry := Some entry,
     ei_stop_loss := (if sl_pct > 0 then Some (entry * (1 + sl_pct)) else None),
     ei_take_profit := (if tp_pct > 0 then Some (entry * (1 - tp_pct)) else None), ei_strategy := strat\<rparr>"

record bracket_handles =
  sl_exchange_id :: "string option"
  tp_exchange_id :: "string option"
  oco_list_id :: "string option"
  bh_symbol :: string

definition no_handles :: bracket_handles where
  "no_handles = \<lparr>sl_exchange_id = None, tp_exchange_id = None, oco_list_id = None, bh_symbol = []\<rparr>"

definition handles_empty :: "bracket_handles \<Rightarrow> bool" where
  "handles_empty h \<longleftrightarrow> sl_exchange_id h = None \<and> tp_exchange_id h = None \<and> oco_list_id h = None"

record bracket_caps =
  stop_market :: bool
  stop_limit :: bool
  oco :: bool
  trailing_stop :: bool

record recovered_bracket =
  rb_opener :: order_id
  rb_strategy :: string
  rb_symbol :: symbol
  rb_close_side :: order_side
  rb_qty :: double
  rb_entry_price :: double
  rb_stop_loss :: "double option"
  rb_take_profit :: "double option"
  rb_handles :: bracket_handles

text \<open>The null adapter places nothing.\<close>

definition null_capabilities :: bracket_caps where
  "null_capabilities = \<lparr>stop_market = False, stop_limit = False, oco = False, trailing_stop = False\<rparr>"

definition null_place :: "order_id \<Rightarrow> exit_intent \<Rightarrow> double \<Rightarrow> bracket_handles" where
  "null_place i ei px = no_handles"

definition null_list_open :: "recovered_bracket list" where "null_list_open = []"

subsection \<open>The default policy\<close>

datatype exit_policy_mode = Floor | Strategy_Only | Engine_Only | Union_Mode

record default_exit_params =
  ep_mode :: exit_policy_mode
  sl_pct :: double
  tp_pct :: double
  trail_pct :: double

definition platform_has_any_protection :: "default_exit_params \<Rightarrow> bool" where
  "platform_has_any_protection p \<longleftrightarrow> sl_pct p > 0 \<or> tp_pct p > 0 \<or> trail_pct p > 0"

definition apply_trail :: "default_exit_params \<Rightarrow> exit_intent \<Rightarrow> exit_intent" where
  "apply_trail p ei = (if trail_pct p > 0 then ei\<lparr>ei_trailing_pct := Some (trail_pct p)\<rparr> else ei)"

definition is_position_reducing :: "order_event \<Rightarrow> double \<Rightarrow> bool" where
  "is_position_reducing ord net_qty \<longleftrightarrow>
     oe_opener_order_id ord \<noteq> 0 \<and> (oe_order_id ord = 0 \<or> oe_opener_order_id ord \<noteq> oe_order_id ord) \<or>
     net_qty > eps12 \<and> oe_side ord = Sell \<or> net_qty < - eps12 \<and> oe_side ord = Buy"

definition intents_have_stop_loss :: "exit_intent list \<Rightarrow> bool" where
  "intents_have_stop_loss eis \<longleftrightarrow> list_ex (\<lambda>ei. ei_stop_loss ei \<noteq> None) eis"

definition intents_have_take_profit :: "exit_intent list \<Rightarrow> bool" where
  "intents_have_take_profit eis \<longleftrightarrow> list_ex (\<lambda>ei. ei_take_profit ei \<noteq> None) eis"

definition platform_intent :: "order_event \<Rightarrow> default_exit_params \<Rightarrow> exit_intent" where
  "platform_intent ord p =
     (let slp = (if sl_pct p > 0 then sl_pct p else 0); tpp = (if tp_pct p > 0 then tp_pct p else 0);
          e0 = (if oe_side ord = Buy then make_long_exit_intent (oe_symbol ord) (oe_price ord) (oe_quantity ord) slp tpp []
                else make_short_exit_intent (oe_symbol ord) (oe_price ord) (oe_quantity ord) slp tpp []);
          e1 = (if sl_pct p \<le> 0 then e0\<lparr>ei_stop_loss := None\<rparr> else e0);
          e2 = (if tp_pct p \<le> 0 then e1\<lparr>ei_take_profit := None\<rparr> else e1)
      in apply_trail p e2)"

definition make_platform_exit_intent :: "order_event \<Rightarrow> default_exit_params \<Rightarrow> exit_intent option" where
  "make_platform_exit_intent ord p =
     (if \<not> platform_has_any_protection p then None
      else if \<not> oe_price ord > 0 \<or> \<not> oe_quantity ord > 0 \<or> \<not> isfinite (oe_price ord) \<or> \<not> isfinite (oe_quantity ord) then None
      else let ei = platform_intent ord p in
        if ei_stop_loss ei = None \<and> ei_take_profit ei = None \<and> ei_trailing_pct ei = None then None else Some ei)"

text \<open>Patching the first intent of a non-empty plan.\<close>

definition patch_front :: "(exit_intent \<Rightarrow> exit_intent) \<Rightarrow> exit_intent list \<Rightarrow> exit_intent list" where
  "patch_front f eis = (case eis of [] \<Rightarrow> [] | ei # rest \<Rightarrow> f ei # rest)"

definition default_reference :: "exit_intent \<Rightarrow> exit_intent \<Rightarrow> exit_intent" where
  "default_reference pl ei = (if ei_reference_entry ei = None then ei\<lparr>ei_reference_entry := ei_reference_entry pl\<rparr> else ei)"

definition floor_stop :: "exit_intent option \<Rightarrow> exit_intent list \<Rightarrow> exit_intent list" where
  "floor_stop platform eis = (case platform of
     Some pl \<Rightarrow> if \<not> intents_have_stop_loss eis \<and> ei_stop_loss pl \<noteq> None
       then patch_front (\<lambda>ei. default_reference pl (ei\<lparr>ei_stop_loss := ei_stop_loss pl\<rparr>)) eis else eis
   | None \<Rightarrow> eis)"

definition floor_target :: "default_exit_params \<Rightarrow> exit_intent option \<Rightarrow> exit_intent list \<Rightarrow> exit_intent list" where
  "floor_target p platform eis = (case platform of
     Some pl \<Rightarrow> if \<not> intents_have_take_profit eis \<and> ei_take_profit pl \<noteq> None \<and> tp_pct p > 0
       then patch_front (\<lambda>ei. default_reference pl (ei\<lparr>ei_take_profit := ei_take_profit pl\<rparr>)) eis else eis
   | None \<Rightarrow> eis)"

definition floor_trail :: "default_exit_params \<Rightarrow> exit_intent list \<Rightarrow> exit_intent list" where
  "floor_trail p eis = (if trail_pct p > 0 \<and> \<not> list_ex (\<lambda>ei. ei_trailing_pct ei \<noteq> None) eis
     then patch_front (\<lambda>ei. ei\<lparr>ei_trailing_pct := Some (trail_pct p)\<rparr>) eis else eis)"

definition apply_default_exit_policy :: "default_exit_params \<Rightarrow> order_event \<Rightarrow> double \<Rightarrow> exit_intent list \<Rightarrow> exit_intent list" where
  "apply_default_exit_policy p ord net_qty eis =
     (if ep_mode p = Strategy_Only then eis
      else if is_position_reducing ord net_qty then (if ep_mode p = Engine_Only then [] else eis)
      else
       let platform = make_platform_exit_intent ord p in
       case ep_mode p of
         Engine_Only \<Rightarrow> (case platform of Some pl \<Rightarrow> [pl] | None \<Rightarrow> [])
       | Union_Mode \<Rightarrow>
          (case platform of
             Some pl \<Rightarrow>
               if ei_stop_loss pl \<noteq> None \<and> \<not> intents_have_stop_loss eis
               then eis @ [pl\<lparr>ei_take_profit := None, ei_trailing_pct := ei_trailing_pct pl\<rparr>]
               else if eis = [] then [pl] else eis
           | None \<Rightarrow> eis)
       | _ \<Rightarrow>
          if eis = [] then (case platform of Some pl \<Rightarrow> [pl] | None \<Rightarrow> [])
          else floor_trail p (floor_target p platform (floor_stop platform eis)))"

definition parse_exit_policy_mode :: "string \<Rightarrow> exit_policy_mode option" where
  "parse_exit_policy_mode s =
     (if s = ''floor'' then Some Floor
      else if s = ''strategy_only'' \<or> s = ''strategy-only'' then Some Strategy_Only
      else if s = ''engine_only'' \<or> s = ''engine-only'' then Some Engine_Only
      else if s = ''union'' then Some Union_Mode else None)"

definition exit_policy_mode_name :: "exit_policy_mode \<Rightarrow> string" where
  "exit_policy_mode_name m = (case m of Floor \<Rightarrow> ''floor'' | Strategy_Only \<Rightarrow> ''strategy_only''
     | Engine_Only \<Rightarrow> ''engine_only'' | Union_Mode \<Rightarrow> ''union'')"

subsection \<open>Protection\<close>

lemma parse_mode_name: "parse_exit_policy_mode (exit_policy_mode_name m) = Some m"
  by (cases m) (simp_all add: parse_exit_policy_mode_def exit_policy_mode_name_def)

lemma pos_not_le: "0 < a \<Longrightarrow> \<not> a \<le> (0::double)"
  by (cases a) (auto simp: double_defs)

lemma platform_intent_levels:
  "ei_stop_loss (platform_intent ord p) =
    (if sl_pct p > 0 then Some (oe_price ord * (if oe_side ord = Buy then 1 - sl_pct p else 1 + sl_pct p)) else None)"
  "ei_take_profit (platform_intent ord p) =
    (if tp_pct p > 0 then Some (oe_price ord * (if oe_side ord = Buy then 1 + tp_pct p else 1 - tp_pct p)) else None)"
  using pos_not_le [of "sl_pct p"] pos_not_le [of "tp_pct p"]
  by (simp_all add: platform_intent_def Let_def apply_trail_def make_long_exit_intent_def make_short_exit_intent_def)

lemma platform_stop:
  assumes "sl_pct p > 0" "oe_price ord > 0" "oe_quantity ord > 0" "isfinite (oe_price ord)" "isfinite (oe_quantity ord)"
  shows "make_platform_exit_intent ord p = Some (platform_intent ord p)" "ei_stop_loss (platform_intent ord p) \<noteq> None"
  using assms by (simp_all add: make_platform_exit_intent_def platform_has_any_protection_def Let_def platform_intent_levels)

lemma floor_keeps_stop:
  "intents_have_stop_loss eis \<Longrightarrow> intents_have_stop_loss (floor_trail p (floor_target p platform eis))"
  by (cases eis) (auto simp: floor_trail_def floor_target_def patch_front_def default_reference_def intents_have_stop_loss_def
      split: option.split)

lemma floor_adds_stop:
  "eis \<noteq> [] \<Longrightarrow> ei_stop_loss pl \<noteq> None \<Longrightarrow> intents_have_stop_loss (floor_stop (Some pl) eis)"
  by (cases eis) (auto simp: floor_stop_def patch_front_def default_reference_def intents_have_stop_loss_def)

text \<open>No entry goes unprotected: unless the mode leaves exits to the strategy, every entry order with a valid price
  and quantity ends up with a plan that has a stop loss, whatever the strategy supplied, as long as the
  platform stop is enabled.\<close>

theorem entry_always_has_stop:
  assumes "ep_mode p \<noteq> Strategy_Only" "\<not> is_position_reducing ord net_qty" "sl_pct p > 0"
    and "oe_price ord > 0" "oe_quantity ord > 0" "isfinite (oe_price ord)" "isfinite (oe_quantity ord)"
  shows "intents_have_stop_loss (apply_default_exit_policy p ord net_qty eis)"
proof -
  note pl = platform_stop [OF assms(3-7)]
  then have one: "intents_have_stop_loss [platform_intent ord p]" by (simp add: intents_have_stop_loss_def)
  note d = apply_default_exit_policy_def Let_def pl assms(2)
  show ?thesis
  proof (cases "ep_mode p")
    case Floor
    then show ?thesis using one floor_keeps_stop [OF floor_adds_stop [OF _ pl(2)], of eis p "Some (platform_intent ord p)"]
      by (simp add: d)
  next
    case Union_Mode
    moreover obtain y where "ei_stop_loss (platform_intent ord p) = Some y" using pl(2) by blast
    ultimately show ?thesis using pl(1) assms(2)
      by (auto simp: apply_default_exit_policy_def Let_def intents_have_stop_loss_def)
  qed (use assms(1) one in \<open>simp_all add: d\<close>)
qed

text \<open>The platform's stop and target are on the right sides of the entry: for a long entry
  \<open>stop \<le> entry \<le> target\<close> and for a short one \<open>target \<le> entry \<le> stop\<close>, with rounding included.\<close>

theorem platform_levels_bracket_entry:
  assumes "make_platform_exit_intent ord p = Some pl" "ieee (oe_price ord)"
    and "ei_stop_loss pl = Some sl" "ei_take_profit pl = Some tp"
  shows "if oe_side ord = Buy then sl \<le> oe_price ord \<and> oe_price ord \<le> tp else tp \<le> oe_price ord \<and> oe_price ord \<le> sl"
proof -
  have e: "oe_price ord > 0" "isfinite (oe_price ord)" and pl: "pl = platform_intent ord p"
    using assms(1) by (auto simp: make_platform_exit_intent_def Let_def split: if_splits)
  note s = assms(3,4) [unfolded pl platform_intent_levels]
  have "1 - x \<le> 1" "1 \<le> 1 + x" if "0 < x" for x :: double
    using dsub_le [of x 1] dadd_ge [of x 1] dless_imp_le [OF that] by simp_all
  then show ?thesis using s dmul_le [OF e(1) assms(2) e(2)] dmul_ge [OF e(1) assms(2) e(2)] by (auto split: if_splits)
qed

subsection \<open>Examples\<close>

definition policy_demo :: default_exit_params where
  "policy_demo = \<lparr>ep_mode = Floor, sl_pct = Fin (1 / 4), tp_pct = Fin (1 / 2), trail_pct = 0\<rparr>"

definition entry_demo :: order_event where
  "entry_demo = mk_order_event 0 ''BTC'' OT_Limit Buy (dint 2) (dint 100) TIF_GTC 0"

theorem entry_always_has_stop_witness: "intents_have_stop_loss (apply_default_exit_policy policy_demo entry_demo 0 [new_intent])"
proof -
  have "\<not> 0 < - a" if "0 < a" for a :: double using that by (cases a) (auto simp: double_defs)
  from this [OF eps12_bounds(1)]
  have "\<not> is_position_reducing entry_demo 0" "ep_mode policy_demo \<noteq> Strategy_Only" "sl_pct policy_demo > 0"
    by (simp_all add: is_position_reducing_def entry_demo_def mk_order_event_def policy_demo_def) (simp_all add: zero_double_def)
  then show ?thesis by (intro entry_always_has_stop) (simp_all add: entry_demo_def mk_order_event_def dint_zero)
qed

theorem platform_levels_bracket_entry_witness:
  "\<exists>sl tp. ei_stop_loss (platform_intent entry_demo policy_demo) = Some sl \<and> ei_take_profit (platform_intent entry_demo policy_demo) = Some tp \<and>
    sl \<le> dint 100 \<and> dint 100 \<le> tp"
proof -
  have pos: "sl_pct policy_demo > 0" "tp_pct policy_demo > 0" by (simp_all add: policy_demo_def zero_double_def)
  have o: "oe_price entry_demo = dint 100" "oe_quantity entry_demo = dint 2" "oe_side entry_demo = Buy"
    by (simp_all add: entry_demo_def mk_order_event_def)
  have "make_platform_exit_intent entry_demo policy_demo = Some (platform_intent entry_demo policy_demo)"
    by (rule platform_stop(1)) (simp_all add: pos o dint_zero)
  from platform_levels_bracket_entry [OF this] show ?thesis
    by (simp add: platform_intent_levels pos o dint_ieee)
qed

end
