(* ===== verification/Exit_Manager.thy ===== *)
theory Exit_Manager
  imports Exit_Policy
begin

text \<open>
  Engine-side enforcement of exit plans, \<open>src/exits/exit_manager.cpp\<close>. The unordered multimaps are lists of pairs
  (the list order stands for the iteration order); erasing a key filters the list. The bracket adapter is a
  venue: its \<open>place\<close> is a parameter held in the state, and \<open>em_calls\<close> records what the manager asked of it.
  The mutex of the venue maps is not modelled: every operation runs on the engine thread and the
  two lookups that other threads make read a single entry.

  \<open>on_price\<close> and \<open>on_bar\<close> differ in how an armed intent reacts (\<open>price_step\<close>, \<open>bar_step\<close>) and share the loop
  \<open>exit_loop\<close> and the close \<open>fire_exit\<close>, which the source repeats.
\<close>

record armed_intent =
  ai_intent :: exit_intent
  ai_entry_price :: double
  ai_best_price :: double
  ai_ts_armed :: time_point

record exchange_leg =
  xl_opener :: order_id
  xl_strategy :: string

datatype adapter_call = Call_Place order_id exit_intent double | Call_Cancel order_id bracket_handles

record exit_manager =
  em_pending :: "(order_id \<times> exit_intent) list"
  em_armed :: "(order_id \<times> armed_intent) list"
  em_remaining :: "(order_id, double) umap"
  em_in_flight :: "(order_id, double) umap"
  em_index :: "((string \<times> symbol) \<times> order_id) list"
  em_adapter :: "(order_id \<Rightarrow> exit_intent \<Rightarrow> double \<Rightarrow> bracket_handles) option"
  em_handles :: "(order_id, bracket_handles) umap"
  em_legs :: "(string, exchange_leg) umap"
  em_calls :: "adapter_call list"

definition mk_exit_manager :: exit_manager where
  "mk_exit_manager = \<lparr>em_pending = [], em_armed = [], em_remaining = [], em_in_flight = [], em_index = [],
     em_adapter = None, em_handles = [], em_legs = [], em_calls = []\<rparr>"

definition emplace :: "'k \<Rightarrow> 'v \<Rightarrow> ('k, 'v) umap \<Rightarrow> ('k, 'v) umap" where
  "emplace k v m = (if map_of m k = None then m @ [(k, v)] else m)"

definition add_to :: "order_id \<Rightarrow> double \<Rightarrow> (order_id, double) umap \<Rightarrow> (order_id, double) umap" where
  "add_to k x m = AList.update k ((case map_of m k of None \<Rightarrow> 0 | Some y \<Rightarrow> y) + x) m"

definition erase_key :: "'k \<Rightarrow> ('k \<times> 'v) list \<Rightarrow> ('k \<times> 'v) list" where
  "erase_key k m = filter (\<lambda>x. fst x \<noteq> k) m"

definition has_key :: "'k \<Rightarrow> ('k \<times> 'v) list \<Rightarrow> bool" where
  "has_key k m \<longleftrightarrow> k \<in> set (map fst m)"

definition register_pending :: "exit_intent \<Rightarrow> exit_manager \<Rightarrow> exit_manager" where
  "register_pending ei m =
     (if ei_opener ei = 0 then m
      else m\<lparr>em_index := em_index m @ [((ei_strategy ei, ei_symbol ei), ei_opener ei)],
             em_pending := em_pending m @ [(ei_opener ei, ei)]\<rparr>)"

definition untrack_opener :: "order_id \<Rightarrow> string \<Rightarrow> symbol \<Rightarrow> exit_manager \<Rightarrow> exit_manager" where
  "untrack_opener i st sy m = m\<lparr>em_index := filter (\<lambda>x. \<not> (fst x = (st, sy) \<and> snd x = i)) (em_index m)\<rparr>"

definition drop_leg :: "string option \<Rightarrow> (string, exchange_leg) umap \<Rightarrow> (string, exchange_leg) umap" where
  "drop_leg x legs = (case x of None \<Rightarrow> legs | Some k \<Rightarrow> AList.delete k legs)"

definition release_venue_bracket :: "order_id \<Rightarrow> exit_manager \<Rightarrow> exit_manager" where
  "release_venue_bracket i m =
     (case map_of (em_handles m) i of None \<Rightarrow> m
      | Some h \<Rightarrow> m\<lparr>em_handles := AList.delete i (em_handles m),
           em_legs := drop_leg (tp_exchange_id h) (drop_leg (sl_exchange_id h) (em_legs m)),
           em_calls := (if em_adapter m \<noteq> None then em_calls m @ [Call_Cancel i h] else em_calls m)\<rparr>)"

definition consume_opener_qty :: "order_id \<Rightarrow> double \<Rightarrow> exit_manager \<Rightarrow> double \<times> exit_manager" where
  "consume_opener_qty i requested m =
     (if \<not> requested > 0 then (0, m)
      else case map_of (em_remaining m) i of None \<Rightarrow> (requested, m)
        | Some r \<Rightarrow>
           (let q = std_min requested r; r' = r - q
            in (q, m\<lparr>em_remaining := AList.update i (if \<bar>r'\<bar> < eps12 then 0 else r') (em_remaining m)\<rparr>)))"

definition exit_cancel :: "order_id \<Rightarrow> exit_manager \<Rightarrow> exit_manager" where
  "exit_cancel i m =
     (let (sname, sy) = (case map_of (em_pending m) i of Some ei \<Rightarrow> (ei_strategy ei, ei_symbol ei)
            | None \<Rightarrow> (case map_of (em_armed m) i of Some ai \<Rightarrow> (ei_strategy (ai_intent ai), ei_symbol (ai_intent ai))
                | None \<Rightarrow> ([], [])));
          m1 = m\<lparr>em_pending := erase_key i (em_pending m), em_armed := erase_key i (em_armed m),
                 em_remaining := AList.delete i (em_remaining m), em_in_flight := AList.delete i (em_in_flight m)\<rparr>;
          m2 = (if sname \<noteq> [] \<or> sy \<noteq> [] then untrack_opener i sname sy m1 else m1)
      in release_venue_bracket i m2)"

definition drop_opener :: "order_id \<Rightarrow> exit_manager \<Rightarrow> exit_manager" where
  "drop_opener i m = release_venue_bracket i
     (m\<lparr>em_pending := erase_key i (em_pending m), em_armed := erase_key i (em_armed m),
        em_remaining := AList.delete i (em_remaining m), em_in_flight := AList.delete i (em_in_flight m)\<rparr>)"

definition exit_cancel_strategy :: "string \<Rightarrow> symbol \<Rightarrow> exit_manager \<Rightarrow> exit_manager" where
  "exit_cancel_strategy st sy m =
     (let openers = map snd (filter (\<lambda>x. fst x = (st, sy)) (em_index m))
      in fold drop_opener openers (m\<lparr>em_index := erase_key (st, sy) (em_index m)\<rparr>))"

subsection \<open>Fills\<close>

definition clamp_fraction :: "double \<Rightarrow> double" where
  "clamp_fraction fr = (let f1 = (if fr \<le> 0 then 1 else fr) in if f1 > 1 then 1 else f1)"

definition closer_fill :: "fill_event \<Rightarrow> order_id \<Rightarrow> exit_manager \<Rightarrow> exit_manager" where
  "closer_fill f opener m =
     (let fq = fe_filled_quantity f;
          (unaccounted, m1) = (case map_of (em_in_flight m) opener of None \<Rightarrow> (fq, m)
            | Some x \<Rightarrow>
               (let matched = std_min fq x; x' = x - matched
                in (fq - matched, m\<lparr>em_in_flight := (if x' \<le> eps12 then AList.delete opener (em_in_flight m)
                      else AList.update opener x' (em_in_flight m))\<rparr>)))
      in if unaccounted > eps12 then exit_cancel opener m1
         else case map_of (em_remaining m1) opener of None \<Rightarrow> exit_cancel opener m1
           | Some r \<Rightarrow> if r \<le> 0 then exit_cancel opener m1 else m1)"

definition grow_armed :: "fill_event \<Rightarrow> armed_intent \<Rightarrow> armed_intent" where
  "grow_armed f ai =
     (let add = fe_filled_quantity f * clamp_fraction (ei_qty_fraction (ai_intent ai)); prev = ei_qty (ai_intent ai)
      in if add \<le> 0 then ai
         else ai\<lparr>ai_entry_price := (if prev + add > 0
                   then (ai_entry_price ai * prev + fe_fill_price f * add) / (prev + add) else ai_entry_price ai),
                 ai_intent := (ai_intent ai)\<lparr>ei_qty := prev + add\<rparr>\<rparr>)"

definition shift_levels :: "double \<Rightarrow> exit_intent \<Rightarrow> exit_intent" where
  "shift_levels fill_px ei = (case ei_reference_entry ei of None \<Rightarrow> ei
     | Some ref \<Rightarrow>
        if ref > 0 then
          (let delta = fill_px - ref;
               e1 = (if \<bar>delta\<bar> > lit (1 / 10 ^ 15)
                     then ei\<lparr>ei_stop_loss := map_option (\<lambda>x. x + delta) (ei_stop_loss ei),
                             ei_take_profit := map_option (\<lambda>x. x + delta) (ei_take_profit ei)\<rparr>
                     else ei)
           in e1\<lparr>ei_reference_entry := Some fill_px\<rparr>)
        else ei)"

definition arm_intent :: "fill_event \<Rightarrow> exit_intent \<Rightarrow> armed_intent" where
  "arm_intent f ei = \<lparr>ai_intent = shift_levels (fe_fill_price f)
       (ei\<lparr>ei_qty := fe_filled_quantity f * clamp_fraction (ei_qty_fraction ei)\<rparr>),
     ai_entry_price = fe_fill_price f, ai_best_price = fe_fill_price f, ai_ts_armed = timestamp f\<rparr>"

definition add_leg :: "string option \<Rightarrow> exchange_leg \<Rightarrow> (string, exchange_leg) umap \<Rightarrow> (string, exchange_leg) umap" where
  "add_leg x leg legs = (case x of None \<Rightarrow> legs | Some k \<Rightarrow> emplace k leg legs)"

definition install_handles :: "order_id \<Rightarrow> string \<Rightarrow> bracket_handles \<Rightarrow> exit_manager \<Rightarrow> exit_manager" where
  "install_handles i st h m = m\<lparr>
     em_legs := add_leg (tp_exchange_id h) \<lparr>xl_opener = i, xl_strategy = st\<rparr>
       (add_leg (sl_exchange_id h) \<lparr>xl_opener = i, xl_strategy = st\<rparr> (em_legs m)),
     em_handles := emplace i h (em_handles m)\<rparr>"

definition place_bracket :: "fill_event \<Rightarrow> exit_intent list \<Rightarrow> exit_manager \<Rightarrow> exit_manager" where
  "place_bracket f to_place m =
     (case (em_adapter m, to_place) of
        (Some place, first # _) \<Rightarrow>
          (let h = place (fe_order_id f) first (fe_fill_price f);
               m1 = m\<lparr>em_calls := em_calls m @ [Call_Place (fe_order_id f) first (fe_fill_price f)]\<rparr>
           in if handles_empty h then m1 else install_handles (fe_order_id f) (ei_strategy first) h m1)
      | _ \<Rightarrow> m)"

definition opener_fill :: "fill_event \<Rightarrow> exit_manager \<Rightarrow> exit_manager" where
  "opener_fill f m =
     (let i = fe_order_id f; range = filter (\<lambda>x. fst x = i) (em_pending m) in
      if range = [] then
        m\<lparr>em_armed := map (\<lambda>(k, ai). if k = i then (k, grow_armed f ai) else (k, ai)) (em_armed m),
          em_remaining := add_to i (fe_filled_quantity f) (em_remaining m)\<rparr>
      else
        (let armed = map (\<lambda>(k, ei). (i, arm_intent f ei)) range
         in place_bracket f (map (\<lambda>x. ai_intent (snd x)) armed)
              (m\<lparr>em_armed := em_armed m @ armed, em_remaining := add_to i (fe_filled_quantity f) (em_remaining m),
                 em_pending := erase_key i (em_pending m)\<rparr>)))"

definition exit_on_fill :: "fill_event \<Rightarrow> order_id \<Rightarrow> exit_manager \<Rightarrow> exit_manager" where
  "exit_on_fill f opener m =
     (if opener \<noteq> 0 \<and> opener \<noteq> fe_order_id f then closer_fill f opener m else opener_fill f m)"

definition exit_on_fill_legacy :: "fill_event \<Rightarrow> exit_manager \<Rightarrow> exit_manager" where
  "exit_on_fill_legacy f = exit_on_fill f (if fe_opener_order_id f \<noteq> 0 then fe_opener_order_id f else fe_order_id f)"

subsection \<open>Prices and bars\<close>

abbreviation is_long :: "armed_intent \<Rightarrow> bool" where
  "is_long ai \<equiv> ei_close_side (ai_intent ai) = Sell"

text \<open>The best price so far and the trailing stop it implies.\<close>

definition track_best :: "double \<Rightarrow> armed_intent \<Rightarrow> armed_intent" where
  "track_best px ai = (if is_long ai then (if px > ai_best_price ai then ai\<lparr>ai_best_price := px\<rparr> else ai)
     else (if px < ai_best_price ai then ai\<lparr>ai_best_price := px\<rparr> else ai))"

definition set_stop :: "double \<Rightarrow> armed_intent \<Rightarrow> armed_intent" where
  "set_stop x ai = ai\<lparr>ai_intent := (ai_intent ai)\<lparr>ei_stop_loss := Some x\<rparr>\<rparr>"

definition raise_trail :: "armed_intent \<Rightarrow> armed_intent" where
  "raise_trail ai = (case ei_trailing_pct (ai_intent ai) of None \<Rightarrow> ai
     | Some pct \<Rightarrow>
        if is_long ai then
          (let trailed = ai_best_price ai * (1 - pct); cur = (case ei_stop_loss (ai_intent ai) of Some x \<Rightarrow> x | None \<Rightarrow> 0)
           in if trailed > cur then set_stop trailed ai else ai)
        else
          (let trailed = ai_best_price ai * (1 + pct); cur = (case ei_stop_loss (ai_intent ai) of Some x \<Rightarrow> x | None \<Rightarrow> PInf)
           in if trailed < cur then set_stop trailed ai else ai))"

definition sl_hit :: "double \<Rightarrow> armed_intent \<Rightarrow> bool" where
  "sl_hit px ai = (case ei_stop_loss (ai_intent ai) of None \<Rightarrow> False | Some x \<Rightarrow> if is_long ai then px \<le> x else px \<ge> x)"

definition tp_hit :: "double \<Rightarrow> armed_intent \<Rightarrow> bool" where
  "tp_hit px ai = (case ei_take_profit (ai_intent ai) of None \<Rightarrow> False | Some x \<Rightarrow> if is_long ai then px \<ge> x else px \<le> x)"

definition time_hit :: "time_point \<Rightarrow> armed_intent \<Rightarrow> bool" where
  "time_hit ts ai = (case ei_deadline (ai_intent ai) of None \<Rightarrow> False | Some d \<Rightarrow> ts \<ge> d)"

text \<open>How one armed intent reacts: its new state, and the fire price when it triggers.\<close>

definition price_step :: "double \<Rightarrow> time_point \<Rightarrow> armed_intent \<Rightarrow> armed_intent \<times> double option" where
  "price_step px ts ai =
     (let a = raise_trail (track_best px ai)
      in (a, if sl_hit px a \<or> tp_hit px a \<or> time_hit ts a then Some px else None))"

definition bar_step :: "double \<Rightarrow> double \<Rightarrow> double \<Rightarrow> double \<Rightarrow> time_point \<Rightarrow> armed_intent \<Rightarrow> armed_intent \<times> double option" where
  "bar_step opn low high cl ts ai =
     (let favorable = (if is_long ai then high else low); adverse = (if is_long ai then low else high) in
      if sl_hit adverse ai then
        (let sl = the (ei_stop_loss (ai_intent ai))
         in (ai, Some (if (if is_long ai then opn \<le> sl else opn \<ge> sl) then opn else sl)))
      else if tp_hit favorable ai then
        (let tp = the (ei_take_profit (ai_intent ai))
         in (ai, Some (if (if is_long ai then opn \<ge> tp else opn \<le> tp) then opn else tp)))
      else if time_hit ts ai then (ai, Some cl)
      else (raise_trail (track_best favorable ai), None))"

definition close_order :: "time_point \<Rightarrow> order_id \<Rightarrow> exit_intent \<Rightarrow> double \<Rightarrow> double \<Rightarrow> order_event" where
  "close_order ts i ei q px = (mk_order_event ts (ei_symbol ei) OT_Market (ei_close_side ei) q px TIF_GTC 0)
     \<lparr>oe_opener_order_id := i, oe_strategy_name := ei_strategy ei\<rparr>"

text \<open>The close of a triggered intent; \<open>others\<close> are the armed intents that stay.\<close>

definition fire_exit :: "time_point \<Rightarrow> order_id \<Rightarrow> armed_intent \<Rightarrow> double \<Rightarrow> (order_id \<times> armed_intent) list \<Rightarrow> exit_manager
    \<Rightarrow> order_event list \<times> exit_manager" where
  "fire_exit ts i ai px others m =
     (let ei = ai_intent ai; (q, m1) = consume_opener_qty i (ei_qty ei) m in
      if \<not> q > 0 then
        ([], if has_key i others then m1 else release_venue_bracket i (untrack_opener i (ei_strategy ei) (ei_symbol ei) m1))
      else
        (let m2 = release_venue_bracket i (m1\<lparr>em_in_flight := add_to i q (em_in_flight m1)\<rparr>);
             flat = (case map_of (em_remaining m2) i of None \<Rightarrow> True | Some r \<Rightarrow> r \<le> 0)
         in ([close_order ts i ei q px],
             if flat \<or> \<not> has_key i others
             then release_venue_bracket i (untrack_opener i (ei_strategy ei) (ei_symbol ei)
                    (m2\<lparr>em_remaining := AList.delete i (em_remaining m2)\<rparr>))
             else m2)))"

fun exit_loop :: "(armed_intent \<Rightarrow> armed_intent \<times> double option) \<Rightarrow> symbol \<Rightarrow> time_point \<Rightarrow> (order_id \<times> armed_intent) list
    \<Rightarrow> (order_id \<times> armed_intent) list \<Rightarrow> exit_manager \<Rightarrow> order_event list \<times> exit_manager" where
  "exit_loop react sy ts kept [] m = ([], m\<lparr>em_armed := kept\<rparr>)"
| "exit_loop react sy ts kept ((i, ai) # rest) m =
     (if ei_symbol (ai_intent ai) \<noteq> sy then exit_loop react sy ts (kept @ [(i, ai)]) rest m
      else case react ai of
        (ai', None) \<Rightarrow> exit_loop react sy ts (kept @ [(i, ai')]) rest m
      | (ai', Some px) \<Rightarrow>
          (let (cs, m1) = fire_exit ts i ai' px (kept @ rest) m; (cs', m2) = exit_loop react sy ts kept rest m1
           in (cs @ cs', m2)))"

definition exit_on_price :: "symbol \<Rightarrow> double \<Rightarrow> time_point \<Rightarrow> exit_manager \<Rightarrow> order_event list \<times> exit_manager" where
  "exit_on_price sy px ts m =
     (if em_armed m = [] \<or> \<not> px > 0 then ([], m) else exit_loop (price_step px ts) sy ts [] (em_armed m) m)"

definition exit_on_bar :: "symbol \<Rightarrow> double \<Rightarrow> double \<Rightarrow> double \<Rightarrow> double \<Rightarrow> time_point \<Rightarrow> exit_manager \<Rightarrow> order_event list \<times> exit_manager" where
  "exit_on_bar sy opn low high cl ts m =
     (if em_armed m = [] then ([], m)
      else if \<not> low > 0 \<or> \<not> high > 0 \<or> \<not> cl > 0 then ([], m)
      else
       let (lo, hi) = (if low > high then (high, low) else (low, high)); op = (if \<not> opn > 0 then cl else opn)
       in exit_loop (bar_step op lo hi cl ts) sy ts [] (em_armed m) m)"

subsection \<open>Queries, recovery, reset\<close>

definition openers_for :: "string \<Rightarrow> symbol \<Rightarrow> exit_manager \<Rightarrow> nat" where
  "openers_for st sy m = length (filter (\<lambda>x. fst x = (st, sy)) (em_index m))"

definition opener_for_exchange_order :: "string \<Rightarrow> exit_manager \<Rightarrow> order_id" where
  "opener_for_exchange_order x m = (case map_of (em_legs m) x of None \<Rightarrow> 0 | Some leg \<Rightarrow> xl_opener leg)"

definition strategy_name_for_exchange_order :: "string \<Rightarrow> exit_manager \<Rightarrow> string" where
  "strategy_name_for_exchange_order x m = (case map_of (em_legs m) x of None \<Rightarrow> [] | Some leg \<Rightarrow> xl_strategy leg)"

record armed_view =
  av_opener :: order_id
  av_strategy :: string
  av_symbol :: symbol
  av_close_side :: order_side
  av_qty :: double
  av_entry_price :: double
  av_stop_loss :: "double option"
  av_take_profit :: "double option"
  av_venue_managed :: bool
  av_venue_list_id :: string
  av_ts_armed :: time_point

definition snapshot_armed :: "exit_manager \<Rightarrow> armed_view list" where
  "snapshot_armed m = map (\<lambda>(i, ai).
     let ei = ai_intent ai; h = map_of (em_handles m) i in
     \<lparr>av_opener = i, av_strategy = ei_strategy ei, av_symbol = ei_symbol ei, av_close_side = ei_close_side ei,
      av_qty = ei_qty ei, av_entry_price = ai_entry_price ai, av_stop_loss = ei_stop_loss ei,
      av_take_profit = ei_take_profit ei, av_venue_managed = (h \<noteq> None),
      av_venue_list_id = (case h of Some hs \<Rightarrow> (case oco_list_id hs of Some x \<Rightarrow> x | None \<Rightarrow> []) | None \<Rightarrow> []),
      av_ts_armed = ai_ts_armed ai\<rparr>) (em_armed m)"

definition rehydrate :: "recovered_bracket \<Rightarrow> time_point \<Rightarrow> exit_manager \<Rightarrow> exit_manager" where
  "rehydrate rb now m =
     (if rb_opener rb = 0 \<or> handles_empty (rb_handles rb) then m
      else
       let ei = new_intent\<lparr>ei_symbol := rb_symbol rb, ei_close_side := rb_close_side rb, ei_qty := rb_qty rb,
             ei_stop_loss := rb_stop_loss rb, ei_take_profit := rb_take_profit rb, ei_opener := rb_opener rb,
             ei_strategy := rb_strategy rb\<rparr>;
           ai = \<lparr>ai_intent = ei, ai_entry_price = rb_entry_price rb, ai_best_price = rb_entry_price rb, ai_ts_armed = now\<rparr>;
           m1 = m\<lparr>em_armed := em_armed m @ [(rb_opener rb, ai)],
                  em_remaining := AList.update (rb_opener rb) (rb_qty rb) (em_remaining m),
                  em_index := (if rb_strategy rb \<noteq> [] \<or> rb_symbol rb \<noteq> []
                    then em_index m @ [((rb_strategy rb, rb_symbol rb), rb_opener rb)] else em_index m)\<rparr>
       in install_handles (rb_opener rb) (rb_strategy rb) (rb_handles rb) m1)"

definition exit_reset :: "exit_manager \<Rightarrow> exit_manager" where
  "exit_reset m = m\<lparr>em_pending := [], em_armed := [], em_remaining := [], em_in_flight := [], em_index := [],
     em_handles := [], em_legs := []\<rparr>"

subsection \<open>No triggered intent survives\<close>

definition triggered :: "double \<Rightarrow> time_point \<Rightarrow> armed_intent \<Rightarrow> bool" where
  "triggered px ts ai \<longleftrightarrow> sl_hit px ai \<or> tp_hit px ai \<or> time_hit ts ai"

lemma exit_loop_fire:
  assumes "ei_symbol (ai_intent ai) = sy" "react ai = (ai', Some px)" "fire_exit ts i ai' px (kept @ rest) m = (c1, m1)"
    "exit_loop react sy ts kept rest m1 = (c2, m2)"
  shows "exit_loop react sy ts kept ((i, ai) # rest) m = (c1 @ c2, m2)"
  using assms by simp

definition survives_as :: "(armed_intent \<Rightarrow> armed_intent \<times> double option) \<Rightarrow> symbol \<Rightarrow> armed_intent \<Rightarrow> armed_intent \<Rightarrow> bool" where
  "survives_as react sy a0 a \<longleftrightarrow> (if ei_symbol (ai_intent a0) \<noteq> sy then a = a0 else react a0 = (a, None))"

lemma exit_loop_survivors:
  "(i, ai) \<in> set (em_armed (snd (exit_loop react sy ts kept todo m))) \<Longrightarrow>
   (i, ai) \<in> set kept \<or> (\<exists>a0. (i, a0) \<in> set todo \<and> survives_as react sy a0 ai)"
proof (induction todo arbitrary: kept m)
  case Nil
  then show ?case by simp
next
  case (Cons x rest)
  obtain j aj where x: "x = (j, aj)" by (cases x)
  consider (other) "ei_symbol (ai_intent aj) \<noteq> sy" | (stay) a where "ei_symbol (ai_intent aj) = sy" "react aj = (a, None)"
    | (fire) a px where "ei_symbol (ai_intent aj) = sy" "react aj = (a, Some px)"
    by (metis old.prod.exhaust option.exhaust)
  then show ?case
  proof cases
    case other
    then have e: "exit_loop react sy ts kept (x # rest) m = exit_loop react sy ts (kept @ [(j, aj)]) rest m" by (simp add: x)
    have "(i, ai) \<in> set (kept @ [(j, aj)]) \<or> (\<exists>a0. (i, a0) \<in> set rest \<and> survives_as react sy a0 ai)"
      using Cons.prems unfolding e by (rule Cons.IH)
    moreover have "survives_as react sy aj aj" using other by (simp add: survives_as_def)
    ultimately show ?thesis unfolding x by fastforce
  next
    case stay
    then have e: "exit_loop react sy ts kept (x # rest) m = exit_loop react sy ts (kept @ [(j, a)]) rest m" by (simp add: x)
    have "(i, ai) \<in> set (kept @ [(j, a)]) \<or> (\<exists>a0. (i, a0) \<in> set rest \<and> survives_as react sy a0 ai)"
      using Cons.prems unfolding e by (rule Cons.IH)
    moreover have "survives_as react sy aj a" using stay by (simp add: survives_as_def)
    ultimately show ?thesis unfolding x by fastforce
  next
    case fire
    obtain c1 m1 where f: "fire_exit ts j a px (kept @ rest) m = (c1, m1)" by fastforce
    obtain c2 m2 where l: "exit_loop react sy ts kept rest m1 = (c2, m2)" by fastforce
    have "(i, ai) \<in> set (em_armed m2)" using Cons.prems unfolding x exit_loop_fire [OF fire f l] by simp
    then have "(i, ai) \<in> set (em_armed (snd (exit_loop react sy ts kept rest m1)))" by (simp add: l)
    from Cons.IH [OF this] show ?thesis by auto
  qed
qed

lemma price_step_survivor: "price_step px ts a0 = (a, None) \<Longrightarrow> \<not> triggered px ts a \<and> a = raise_trail (track_best px a0)"
  by (auto simp: price_step_def triggered_def Let_def split: if_splits)

lemma track_raise_intent [simp]:
  "ei_close_side (ai_intent (raise_trail ai)) = ei_close_side (ai_intent ai)" "ei_symbol (ai_intent (raise_trail ai)) = ei_symbol (ai_intent ai)"
  "ai_intent (track_best px ai) = ai_intent ai"
  by (simp_all add: raise_trail_def track_best_def set_stop_def Let_def split: option.split)

text \<open>The stop never loosens: a long's stop only rises, a short's only falls.\<close>

definition tightens :: "armed_intent \<Rightarrow> armed_intent \<Rightarrow> bool" where
  "tightens a a' \<longleftrightarrow> (case ei_stop_loss (ai_intent a) of None \<Rightarrow> True
     | Some x \<Rightarrow> (\<exists>y. ei_stop_loss (ai_intent a') = Some y \<and> (y = x \<or> (if is_long a then x < y else y < x))))"

lemma raise_trail_tightens: "tightens ai (raise_trail (track_best px ai))"
  by (auto simp: tightens_def raise_trail_def set_stop_def Let_def split: option.split)

lemma exit_on_price_survivor:
  assumes "px > 0" "(i, ai) \<in> set (em_armed (snd (exit_on_price sy px ts m)))" "ei_symbol (ai_intent ai) = sy"
  obtains a0 where "(i, a0) \<in> set (em_armed m)" "\<not> triggered px ts ai" "ei_close_side (ai_intent ai) = ei_close_side (ai_intent a0)" "tightens a0 ai"
proof -
  have "em_armed m \<noteq> []" using assms(2) by (auto simp: exit_on_price_def)
  then have "exit_on_price sy px ts m = exit_loop (price_step px ts) sy ts [] (em_armed m) m"
    using assms(1) by (simp add: exit_on_price_def)
  with exit_loop_survivors [of i ai "price_step px ts" sy ts "[]" "em_armed m" m] assms(2)
  obtain a0 where a0: "(i, a0) \<in> set (em_armed m)" "survives_as (price_step px ts) sy a0 ai" by auto
  then have "price_step px ts a0 = (ai, None)" using assms(3) by (auto simp: survives_as_def split: if_splits)
  note s = price_step_survivor [OF this]
  then show thesis using a0(1) raise_trail_tightens [of a0 px] that by auto
qed

text \<open>C16: After a price update no intent of that symbol that the price, or the clock, triggers is still armed; every
  intent left comes from one armed before under the same opener, with the same side, and with a stop that
  has not moved away from the price.\<close>

theorem no_triggered_intent_survives:
  assumes "px > 0" "(i, ai) \<in> set (em_armed (snd (exit_on_price sy px ts m)))" "ei_symbol (ai_intent ai) = sy"
  shows "\<not> triggered px ts ai \<and>
    (\<exists>a0. (i, a0) \<in> set (em_armed m) \<and> ei_close_side (ai_intent ai) = ei_close_side (ai_intent a0) \<and> tightens a0 ai)"
  using exit_on_price_survivor [OF assms] by blast

subsection \<open>What the closes are\<close>

lemma release_frame [tt_frame]:
  "em_armed (release_venue_bracket i m) = em_armed m" "em_pending (release_venue_bracket i m) = em_pending m"
  "em_remaining (release_venue_bracket i m) = em_remaining m" "em_in_flight (release_venue_bracket i m) = em_in_flight m"
  "em_index (release_venue_bracket i m) = em_index m" "em_adapter (release_venue_bracket i m) = em_adapter m"
  by (simp_all add: release_venue_bracket_def split: option.split)

lemma consume_bound:
  assumes "consume_opener_qty i q m = (c, m')" "0 < c"
  shows "c \<le> q"
proof -
  have n: "q \<noteq> NaN" if "0 < q" using that by auto
  from assms show ?thesis
    using n dle_refl [of q] dless_imp_le [of _ q]
    by (auto simp: consume_opener_qty_def Let_def std_min_def split: if_splits option.splits)
qed

lemma fire_exit_closes:
  assumes "fire_exit ts i ai px others m = (cs, m')" "c \<in> set cs"
  shows "\<exists>q. c = close_order ts i (ai_intent ai) q px \<and> 0 < q \<and> q \<le> ei_qty (ai_intent ai)"
proof -
  obtain q m1 where q: "consume_opener_qty i (ei_qty (ai_intent ai)) m = (q, m1)" by fastforce
  from assms have "0 < q" "c = close_order ts i (ai_intent ai) q px"
    by (auto simp: fire_exit_def q Let_def split: if_splits)
  with consume_bound [OF q] show ?thesis by blast
qed

text \<open>Every close of a pass comes from an armed intent that reacted with a fire price.\<close>

definition closes_from :: "(armed_intent \<Rightarrow> armed_intent \<times> double option) \<Rightarrow> symbol \<Rightarrow> time_point \<Rightarrow> order_id \<Rightarrow> armed_intent \<Rightarrow> order_event \<Rightarrow> bool" where
  "closes_from react sy ts i a0 c \<longleftrightarrow> ei_symbol (ai_intent a0) = sy \<and>
     (\<exists>a px q. react a0 = (a, Some px) \<and> c = close_order ts i (ai_intent a) q px \<and> 0 < q \<and> q \<le> ei_qty (ai_intent a))"

lemma exit_loop_closes:
  "c \<in> set (fst (exit_loop react sy ts kept todo m)) \<Longrightarrow> \<exists>i a0. (i, a0) \<in> set todo \<and> closes_from react sy ts i a0 c"
proof (induction todo arbitrary: kept m)
  case Nil
  then show ?case by simp
next
  case (Cons x rest)
  obtain j aj where x: "x = (j, aj)" by (cases x)
  consider (other) "ei_symbol (ai_intent aj) \<noteq> sy" | (stay) a where "ei_symbol (ai_intent aj) = sy" "react aj = (a, None)"
    | (fire) a px where "ei_symbol (ai_intent aj) = sy" "react aj = (a, Some px)"
    by (metis old.prod.exhaust option.exhaust)
  then show ?case
  proof cases
    case other
    then have e: "exit_loop react sy ts kept (x # rest) m = exit_loop react sy ts (kept @ [(j, aj)]) rest m" by (simp add: x)
    from Cons.prems show ?thesis unfolding e using Cons.IH [of "kept @ [(j, aj)]" m] by auto
  next
    case stay
    then have e: "exit_loop react sy ts kept (x # rest) m = exit_loop react sy ts (kept @ [(j, a)]) rest m" by (simp add: x)
    from Cons.prems show ?thesis unfolding e using Cons.IH [of "kept @ [(j, a)]" m] by auto
  next
    case fire
    obtain c1 m1 where f: "fire_exit ts j a px (kept @ rest) m = (c1, m1)" by fastforce
    obtain c2 m2 where l: "exit_loop react sy ts kept rest m1 = (c2, m2)" by fastforce
    have "c \<in> set c1 \<or> c \<in> set c2" using Cons.prems unfolding x exit_loop_fire [OF fire f l] by simp
    then show ?thesis
    proof
      assume "c \<in> set c1"
      from fire_exit_closes [OF f this] fire have "closes_from react sy ts j aj c" unfolding closes_from_def by blast
      then show ?thesis unfolding x by auto
    next
      assume "c \<in> set c2"
      then have "c \<in> set (fst (exit_loop react sy ts kept rest m1))" by (simp add: l)
      from Cons.IH [OF this] show ?thesis by auto
    qed
  qed
qed

lemma dle_linear: "\<not> a \<le> b \<Longrightarrow> a \<noteq> NaN \<Longrightarrow> b \<noteq> NaN \<Longrightarrow> b \<le> (a::double)"
  using dnot_le [of a b] dless_imp_le by blast

lemma dle_not_NaN: "a \<le> b \<Longrightarrow> a \<noteq> NaN" "(a::double) \<le> b \<Longrightarrow> b \<noteq> NaN"
  by auto

text \<open>The anchored price: the level, or the open when it is already beyond the level.\<close>

lemma anchored_below:
  assumes "lo \<le> x" "lo \<le> opn" "opn \<le> (hi::double)"
  shows "lo \<le> (if opn \<le> x then opn else x) \<and> (if opn \<le> x then opn else x) \<le> hi"
  using assms dle_linear [of opn x] dle_not_NaN [OF assms(1)] dle_not_NaN [OF assms(2)] dle_trans [of x opn hi] by simp

lemma anchored_above:
  assumes "x \<le> hi" "lo \<le> opn" "opn \<le> (hi::double)"
  shows "lo \<le> (if x \<le> opn then opn else x) \<and> (if x \<le> opn then opn else x) \<le> hi"
  using assms dle_linear [of x opn] dle_not_NaN [OF assms(1)] dle_not_NaN [OF assms(2)] dle_trans [of lo opn x] by simp

lemma bar_step_fire:
  assumes "bar_step opn lo hi cl ts a0 = (a, Some px)" "lo \<le> opn" "opn \<le> hi" "lo \<le> cl" "cl \<le> hi"
  shows "a = a0 \<and> lo \<le> px \<and> px \<le> hi"
proof -
  let ?fav = "if is_long a0 then hi else lo" and ?adv = "if is_long a0 then lo else hi"
  show ?thesis
  proof (cases "sl_hit ?adv a0")
    case True
    then obtain sl where sl: "ei_stop_loss (ai_intent a0) = Some sl" "if is_long a0 then lo \<le> sl else sl \<le> hi"
      by (auto simp: sl_hit_def split: option.splits if_splits)
    have "a0 = a \<and> (if (if is_long a0 then opn \<le> sl else opn \<ge> sl) then opn else sl) = px"
      using assms(1) True by (auto simp: bar_step_def sl split: if_splits)
    with sl(2) anchored_below [of lo sl opn hi] anchored_above [of sl hi lo opn] assms(2,3) show ?thesis by (auto split: if_splits)
  next
    case no_sl: False
    show ?thesis
    proof (cases "tp_hit ?fav a0")
      case True
      then obtain tp where tp: "ei_take_profit (ai_intent a0) = Some tp" "if is_long a0 then tp \<le> hi else lo \<le> tp"
        by (auto simp: tp_hit_def split: option.splits if_splits)
      have "a0 = a \<and> (if (if is_long a0 then opn \<ge> tp else opn \<le> tp) then opn else tp) = px"
        using assms(1) True no_sl by (auto simp: bar_step_def tp split: if_splits)
      with tp(2) anchored_below [of lo tp opn hi] anchored_above [of tp hi lo opn] assms(2,3) show ?thesis by (auto split: if_splits)
    next
      case False
      then have "a = a0" "px = cl" using assms(1) no_sl by (auto simp: bar_step_def Let_def split: if_splits)
      with assms(4,5) show ?thesis by simp
    qed
  qed
qed

text \<open>C25: A bar exit is one the bar could have filled: every close that \<open>on_bar\<close> issues is a market order for an intent armed
  under the opener it names, on the side and symbol of that intent, for a positive quantity of at most the
  armed size, at a price the bar traded through.\<close>

theorem bar_exits_within_range:
  assumes "c \<in> set (fst (exit_on_bar sy opn low high cl ts m))" "0 < opn" "low \<le> opn" "opn \<le> high" "low \<le> cl" "cl \<le> high"
  shows "\<exists>ai. (oe_opener_order_id c, ai) \<in> set (em_armed m) \<and> oe_symbol c = sy \<and> ei_symbol (ai_intent ai) = sy \<and>
    oe_side c = ei_close_side (ai_intent ai) \<and> oe_order_type c = OT_Market \<and> oe_tif c = TIF_IOC \<and>
    0 < oe_quantity c \<and> oe_quantity c \<le> ei_qty (ai_intent ai) \<and> low \<le> oe_price c \<and> oe_price c \<le> high"
proof -
  have "\<not> low > high" using dle_less_trans [OF dle_trans [OF assms(3,4)], of low] by auto
  then have "exit_on_bar sy opn low high cl ts m = exit_loop (bar_step opn low high cl ts) sy ts [] (em_armed m) m"
    using assms(1,2) by (auto simp: exit_on_bar_def split: if_splits)
  with assms(1) exit_loop_closes [of c "bar_step opn low high cl ts" sy ts "[]" "em_armed m" m]
  obtain i a0 where a0: "(i, a0) \<in> set (em_armed m)" "closes_from (bar_step opn low high cl ts) sy ts i a0 c" by auto
  then obtain a px q where f: "bar_step opn low high cl ts a0 = (a, Some px)" "c = close_order ts i (ai_intent a) q px"
    "0 < q" "q \<le> ei_qty (ai_intent a)" "ei_symbol (ai_intent a0) = sy" by (auto simp: closes_from_def)
  from bar_step_fire [OF f(1) assms(3-6)] f a0(1) show ?thesis
    by (intro exI [of _ a0]) (simp add: close_order_def mk_order_event_def)
qed

subsection \<open>Several plans for one opener\<close>

lemma map_of_delete [simp]: "map_of (AList.delete k m) i = (if i = k then None else map_of m i)"
  by (simp add: delete_conv')

lemma consume_other: "consume_opener_qty j q m = (c, m') \<Longrightarrow> i \<noteq> j \<Longrightarrow> map_of (em_remaining m') i = map_of (em_remaining m) i"
  by (auto simp: consume_opener_qty_def Let_def update_conv' split: if_splits option.splits)

lemma fire_exit_other:
  assumes "fire_exit ts j ai px others m = (cs, m')" "i \<noteq> j"
  shows "map_of (em_remaining m') i = map_of (em_remaining m) i \<and> filter (\<lambda>c. oe_opener_order_id c = i) cs = []"
proof -
  obtain q m1 where q: "consume_opener_qty j (ei_qty (ai_intent ai)) m = (q, m1)" by fastforce
  from assms consume_other [OF q assms(2)] show ?thesis
    by (auto simp: fire_exit_def q Let_def release_frame untrack_opener_def close_order_def split: if_splits)
qed

text \<open>Armed intents of other openers are passed over: they add no close of \<open>i\<close> and leave what remains of \<open>i\<close> alone.\<close>

lemma exit_loop_skip:
  assumes "\<not> has_key i xs"
  shows "\<exists>kept' m' cs. exit_loop react sy ts kept (xs @ rest) m = (let (ds, m2) = exit_loop react sy ts kept' rest m' in (cs @ ds, m2)) \<and>
    map_of (em_remaining m') i = map_of (em_remaining m) i \<and> filter (\<lambda>c. oe_opener_order_id c = i) cs = []"
  using assms
proof (induction xs arbitrary: kept m)
  case Nil
  have "exit_loop react sy ts kept ([] @ rest) m = (let (ds, m2) = exit_loop react sy ts kept rest m in ([] @ ds, m2))" by simp
  then show ?case by (intro exI [of _ kept] exI [of _ m] exI [of _ "[]"]) simp
next
  case (Cons x xs)
  obtain j aj where x: "x = (j, aj)" by (cases x)
  have h: "i \<noteq> j" "\<not> has_key i xs" using Cons.prems by (auto simp: has_key_def x)
  consider (other) "ei_symbol (ai_intent aj) \<noteq> sy" | (stay) a where "ei_symbol (ai_intent aj) = sy" "react aj = (a, None)"
    | (fire) a px where "ei_symbol (ai_intent aj) = sy" "react aj = (a, Some px)"
    by (metis old.prod.exhaust option.exhaust)
  then show ?case
  proof cases
    case other
    then show ?thesis using Cons.IH [OF h(2), of "kept @ [(j, aj)]" m] by (simp add: x)
  next
    case stay
    then show ?thesis using Cons.IH [OF h(2), of "kept @ [(j, a)]" m] by (simp add: x)
  next
    case fire
    obtain c1 m1 where f: "fire_exit ts j a px (kept @ xs @ rest) m = (c1, m1)" by fastforce
    note o = fire_exit_other [OF f h(1)]
    from Cons.IH [OF h(2), of kept m1] obtain kept' m' cs where
      l: "exit_loop react sy ts kept (xs @ rest) m1 = (let (ds, m2) = exit_loop react sy ts kept' rest m' in (cs @ ds, m2))"
      "map_of (em_remaining m') i = map_of (em_remaining m1) i" "filter (\<lambda>c. oe_opener_order_id c = i) cs = []" by blast
    have "exit_loop react sy ts kept ((x # xs) @ rest) m = (let (ds, m2) = exit_loop react sy ts kept' rest m' in ((c1 @ cs) @ ds, m2))"
      using fire f l(1) by (simp add: x Let_def split: prod.split)
    then show ?thesis using l(2,3) o by (intro exI [of _ kept'] exI [of _ m'] exI [of _ "c1 @ cs"]) simp
  qed
qed

text \<open>A close of all that remains makes the manager forget the opener's remaining quantity; with nothing remembered the full size is closed.\<close>

lemma std_min_whole: "r \<le> q \<Longrightarrow> std_min q r = (r :: double)"
  by (cases q; cases r) (auto simp: std_min_def double_defs)

lemma fire_exit_whole:
  assumes "map_of (em_remaining m) i = Some r" "isfinite r" "0 < r" "r \<le> ei_qty (ai_intent ai)" "fire_exit ts i ai px others m = (cs, m')"
  shows "cs = [close_order ts i (ai_intent ai) r px] \<and> map_of (em_remaining m') i = None"
proof -
  have q: "0 < ei_qty (ai_intent ai)" using assms(3,4) by (rule dless_le_trans)
  obtain x where x: "r = Fin x" using assms(2) by (auto simp: isfinite_iff)
  have z: "r - r = 0" "\<bar>0\<bar> < eps12" "(0::double) \<le> 0" by (simp_all add: x zero_double_def dops_Fin)
  have "consume_opener_qty i (ei_qty (ai_intent ai)) m = (r, m\<lparr>em_remaining := AList.update i 0 (em_remaining m)\<rparr>)"
    using q assms(1) z by (simp add: consume_opener_qty_def std_min_whole [OF assms(4)] Let_def)
  then show ?thesis using assms(3,5) z(3) by (auto simp: fire_exit_def Let_def release_frame untrack_opener_def update_conv')
qed

lemma fire_exit_forgotten:
  assumes "map_of (em_remaining m) i = None" "0 < ei_qty (ai_intent ai)" "fire_exit ts i ai px others m = (cs, m')"
  shows "cs = [close_order ts i (ai_intent ai) (ei_qty (ai_intent ai)) px]"
  using assms by (auto simp: fire_exit_def consume_opener_qty_def Let_def release_frame)

lemma bar_step_same: "snd (bar_step opn low high cl ts ai) \<noteq> None \<Longrightarrow> \<exists>px. bar_step opn low high cl ts ai = (ai, Some px)"
  by (auto simp: bar_step_def Let_def split: if_splits)

text \<open>C26: Two plans for one opener can both close it. Whatever the levels, the side and the sizes, and whichever of the two comes first: when a
  bar triggers both plans and the first is for all that remains of the opener, the manager closes what remains and then the full size of the second plan
  again, because the remaining quantity that caps a close is forgotten as soon as it reaches zero. A strategy that
  supplies a target only, to which the platform adds a stop, has such a pair.\<close>

theorem bar_crossing_both_levels_closes_twice:
  assumes "em_armed m = xs @ (i, a) # ys @ (i, b) # zs" "\<not> has_key i (xs @ ys @ zs)"
    and "ei_symbol (ai_intent a) = sy" "ei_symbol (ai_intent b) = sy"
    and "snd (bar_step opn low high cl ts a) \<noteq> None" "snd (bar_step opn low high cl ts b) \<noteq> None"
    and "map_of (em_remaining m) i = Some r" "isfinite r" "0 < r" "r \<le> ei_qty (ai_intent a)" "0 < ei_qty (ai_intent b)"
    and "0 < opn" "0 < low" "low \<le> high" "0 < cl"
  shows "map oe_quantity (filter (\<lambda>c. oe_opener_order_id c = i) (fst (exit_on_bar sy opn low high cl ts m))) = [r, ei_qty (ai_intent b)]"
proof -
  let ?react = "bar_step opn low high cl ts" and ?own = "filter (\<lambda>c. oe_opener_order_id c = i)"
  have "\<not> low > high" "0 < high" using dle_less_trans [OF assms(14), of low] dless_le_trans [OF assms(13,14)] by auto
  then have bar: "exit_on_bar sy opn low high cl ts m = exit_loop ?react sy ts [] (xs @ (i, a) # ys @ (i, b) # zs) m"
    using assms(1,12,13,15) by (simp add: exit_on_bar_def)
  obtain pa pb where p: "?react a = (a, Some pa)" "?react b = (b, Some pb)" using bar_step_same assms(5,6) by metis
  have k: "\<not> has_key i xs" "\<not> has_key i ys" "\<not> has_key i zs" using assms(2) by (auto simp: has_key_def)
  obtain k1 m1 c1 where 1: "exit_loop ?react sy ts [] (xs @ (i, a) # ys @ (i, b) # zs) m =
      (let (ds, m2) = exit_loop ?react sy ts k1 ((i, a) # ys @ (i, b) # zs) m1 in (c1 @ ds, m2))"
    "map_of (em_remaining m1) i = Some r" "?own c1 = []" using exit_loop_skip [OF k(1)] assms(7) by metis
  obtain ca m2 where fa: "fire_exit ts i a pa (k1 @ ys @ (i, b) # zs) m1 = (ca, m2)" by fastforce
  note A = fire_exit_whole [OF 1(2) assms(8-10) fa]
  obtain k3 m3 c3 where 3: "exit_loop ?react sy ts k1 (ys @ (i, b) # zs) m2 =
      (let (ds, m4) = exit_loop ?react sy ts k3 ((i, b) # zs) m3 in (c3 @ ds, m4))"
    "map_of (em_remaining m3) i = None" "?own c3 = []" using exit_loop_skip [OF k(2)] conjunct2 [OF A] by metis
  obtain cb m4 where fb: "fire_exit ts i b pb (k3 @ zs) m3 = (cb, m4)" by fastforce
  note B = fire_exit_forgotten [OF 3(2) assms(11) fb]
  obtain c5 m5 where 5: "exit_loop ?react sy ts k3 zs m4 = (c5, m5)" "?own c5 = []"
    using exit_loop_skip [OF k(3), of ?react sy ts k3 "[]" m4] by auto
  have "fst (exit_on_bar sy opn low high cl ts m) = c1 @ ca @ c3 @ cb @ c5"
    using assms(3,4) p fa fb 3(1) 5(1) by (simp add: bar 1(1) Let_def split: prod.split)
  then show ?thesis using A B 1(3) 3(3) 5(2) by (simp add: close_order_def mk_order_event_def)
qed

subsection \<open>Closing by hand\<close>

lemma erase_key_frame [simp]: "map_of (erase_key i m) j = (if j = i then None else map_of m j)"
  by (induction m) (auto simp: erase_key_def)

definition forgotten :: "order_id \<Rightarrow> exit_manager \<Rightarrow> bool" where
  "forgotten i m \<longleftrightarrow> \<not> has_key i (em_pending m) \<and> \<not> has_key i (em_armed m) \<and> \<not> has_key i (em_handles m) \<and>
     map_of (em_remaining m) i = None \<and> map_of (em_in_flight m) i = None"

lemma has_key_erase [simp]: "has_key j (erase_key i m) \<longleftrightarrow> j \<noteq> i \<and> has_key j m"
  by (auto simp: has_key_def erase_key_def)

lemma has_key_map_of: "has_key i m \<longleftrightarrow> map_of m i \<noteq> None"
  by (simp add: has_key_def map_of_eq_None_iff)

lemma release_forgets: "\<not> has_key i (em_handles (release_venue_bracket i m))"
  by (simp add: release_venue_bracket_def has_key_map_of split: option.split)

lemma untrack_frame [tt_frame]:
  "em_armed (untrack_opener i st sy m) = em_armed m" "em_pending (untrack_opener i st sy m) = em_pending m"
  "em_remaining (untrack_opener i st sy m) = em_remaining m" "em_in_flight (untrack_opener i st sy m) = em_in_flight m"
  by (simp_all add: untrack_opener_def)

lemma exit_cancel_forgets: "forgotten i (exit_cancel i m)"
  unfolding exit_cancel_def Let_def forgotten_def
  by (auto simp: release_forgets tt_frame split: prod.split)

lemma exit_cancel_others:
  "j \<noteq> i \<Longrightarrow> filter (\<lambda>x. fst x = j) (em_armed (exit_cancel i m)) = filter (\<lambda>x. fst x = j) (em_armed m)"
  by (auto simp: exit_cancel_def Let_def tt_frame erase_key_def split: prod.split intro: filter_cong)

text \<open>A fill that closes a lot the manager did not close itself disarms that lot completely: nothing pending,
  armed or resting at the venue is left under its opener, so no exit can fire on a lot already closed, and
  the brackets of every other opener stay armed.\<close>

theorem outside_close_disarms:
  assumes "opener \<noteq> 0" "opener \<noteq> fe_order_id f" "map_of (em_in_flight m) opener = None" "fe_filled_quantity f > eps12"
  shows "forgotten opener (exit_on_fill f opener m) \<and>
    (\<forall>j. j \<noteq> opener \<longrightarrow> filter (\<lambda>x. fst x = j) (em_armed (exit_on_fill f opener m)) = filter (\<lambda>x. fst x = j) (em_armed m))"
proof -
  have "exit_on_fill f opener m = exit_cancel opener m" using assms by (simp add: exit_on_fill_def closer_fill_def)
  then show ?thesis by (simp add: exit_cancel_forgets exit_cancel_others)
qed

subsection \<open>Examples\<close>

definition plan_demo :: "double option \<Rightarrow> double option \<Rightarrow> exit_intent" where
  "plan_demo sl tp = new_intent\<lparr>ei_symbol := ''BTC'', ei_stop_loss := sl, ei_take_profit := tp, ei_opener := 1\<rparr>"

definition opener_demo :: fill_event where
  "opener_demo = mk_fill_event 0 ''BTC'' 1 Buy (dint 10) (dint 100) 0 0 1 [] 0"

definition armed_demo :: exit_manager where
  "armed_demo = exit_on_fill opener_demo 1
     (register_pending (plan_demo (Some (dint 90)) None) (register_pending (plan_demo None (Some (dint 110))) mk_exit_manager))"

lemma armed_demo_eq: "armed_demo = mk_exit_manager\<lparr>
   em_index := [(([], ''BTC''), 1), (([], ''BTC''), 1)],
   em_armed := [(1, \<lparr>ai_intent = (plan_demo None (Some (dint 110)))\<lparr>ei_qty := dint 10\<rparr>, ai_entry_price = dint 100,
                     ai_best_price = dint 100, ai_ts_armed = 0\<rparr>),
                (1, \<lparr>ai_intent = (plan_demo (Some (dint 90)) None)\<lparr>ei_qty := dint 10\<rparr>, ai_entry_price = dint 100,
                     ai_best_price = dint 100, ai_ts_armed = 0\<rparr>)],
   em_remaining := [(1, dint 10)]\<rparr>"
proof -
  have "clamp_fraction 1 = 1" by (simp add: clamp_fraction_def Let_def)
  then show ?thesis
    by (simp add: armed_demo_def exit_on_fill_def opener_fill_def register_pending_def plan_demo_def new_intent_def
      mk_exit_manager_def opener_demo_def mk_fill_event_def Let_def arm_intent_def shift_levels_def add_to_def erase_key_def
      place_bracket_def dint_ieee)
qed

theorem outside_close_disarms_witness:
  "forgotten 1 (exit_on_fill (mk_fill_event 5 ''BTC'' 7 Sell (dint 10) (dint 95) 0 0 2 [] 1) 1 armed_demo)"
  using outside_close_disarms [of 1 "mk_fill_event 5 ''BTC'' 7 Sell (dint 10) (dint 95) 0 0 2 [] 1" armed_demo]
  by (simp add: armed_demo_eq mk_exit_manager_def mk_fill_event_def dint_eps)

theorem no_triggered_intent_survives_witness:
  "list_all (\<lambda>x. \<not> sl_hit (dint 80) (snd x)) (em_armed (snd (exit_on_price ''BTC'' (dint 80) 1 armed_demo)))"
proof (rule ccontr)
  assume "\<not> ?thesis"
  then obtain i ai where a: "(i, ai) \<in> set (em_armed (snd (exit_on_price ''BTC'' (dint 80) 1 armed_demo)))" "sl_hit (dint 80) ai"
    by (auto simp: list_all_iff)
  have "(i, ai) \<in> set [] \<or> (\<exists>a0. (i, a0) \<in> set (em_armed armed_demo) \<and> survives_as (price_step (dint 80) 1) ''BTC'' a0 ai)"
    by (rule exit_loop_survivors [of _ _ _ _ 1]) (use a(1) in \<open>auto simp: exit_on_price_def dint_zero split: if_splits\<close>)
  then have "ei_symbol (ai_intent ai) = ''BTC''"
    by (auto simp: survives_as_def armed_demo_eq plan_demo_def price_step_def Let_def split: if_splits)
  from no_triggered_intent_survives [OF _ a(1) this] a(2) show False by (simp add: triggered_def dint_zero)
qed

theorem bar_crossing_both_levels_closes_twice_witness:
  "map oe_quantity (filter (\<lambda>c. oe_opener_order_id c = 1) (fst (exit_on_bar ''BTC'' (dint 100) (dint 85) (dint 115) (dint 100) 1 armed_demo)))
     = [dint 10, dint 10]"
proof -
  let ?plan = "\<lambda>sl tp. \<lparr>ai_intent = (plan_demo sl tp)\<lparr>ei_qty := dint 10\<rparr>, ai_entry_price = dint 100, ai_best_price = dint 100, ai_ts_armed = 0\<rparr>"
  let ?a = "?plan None (Some (dint 110))" and ?b = "?plan (Some (dint 90)) None"
  have "em_armed armed_demo = [] @ (1, ?a) # [] @ (1, ?b) # []" "map_of (em_remaining armed_demo) 1 = Some (dint 10)"
    by (simp_all add: armed_demo_eq)
  moreover have "snd (bar_step (dint 100) (dint 85) (dint 115) (dint 100) 1 ?a) \<noteq> None" "snd (bar_step (dint 100) (dint 85) (dint 115) (dint 100) 1 ?b) \<noteq> None"
    by (simp_all add: bar_step_def plan_demo_def new_intent_def sl_hit_def tp_hit_def Let_def)
  ultimately show ?thesis
    using bar_crossing_both_levels_closes_twice [of armed_demo "[]" 1 ?a "[]" ?b "[]" "''BTC''" "dint 100" "dint 85" "dint 115" "dint 100" 1 "dint 10"]
    by (simp add: has_key_def plan_demo_def dint_zero)
qed

theorem bar_exits_within_range_witness:
  "\<exists>c. c \<in> set (fst (exit_on_bar ''BTC'' (dint 100) (dint 85) (dint 115) (dint 100) 1 armed_demo)) \<and>
     dint 85 \<le> oe_price c \<and> oe_price c \<le> dint 115"
proof -
  have z: "\<bar>0\<bar> < eps12" "(0::double) \<le> 0" by (simp_all add: zero_double_def dops_Fin)
  have "fst (exit_on_bar ''BTC'' (dint 100) (dint 85) (dint 115) (dint 100) 1 armed_demo) \<noteq> []"
    by (simp add: exit_on_bar_def armed_demo_eq mk_exit_manager_def plan_demo_def new_intent_def dint_zero bar_step_def Let_def
      sl_hit_def tp_hit_def fire_exit_def consume_opener_qty_def std_min_def z release_venue_bracket_def has_key_def
      untrack_opener_def add_to_def close_order_def mk_order_event_def)
  then obtain c where "c \<in> set (fst (exit_on_bar ''BTC'' (dint 100) (dint 85) (dint 115) (dint 100) 1 armed_demo))"
    by (cases "fst (exit_on_bar ''BTC'' (dint 100) (dint 85) (dint 115) (dint 100) 1 armed_demo)") auto
  with bar_exits_within_range [OF this] show ?thesis by (intro exI [of _ c]) (auto simp: dint_zero)
qed

end
