(* ===== verification/Engine.thy ===== *)
theory Engine
  imports Registry Adverse_Selection Market_Maker Queue_Adapter Analytics Futures_Risk Exit_Manager
begin

text \<open>
  The order path of the engine, \<open>src/engine/engine.cpp\<close>, with the execution router (\<open>execution_router.cpp\<close>) and the instrument filter
  (\<open>instrument_spec_cache.cpp\<close>): from a strategy's order through the venue check, the risk manager and the execution adapter to the fill
  pipeline, the exit manager and the post-fill check.

  The configuration modelled is the backtest and paper one: no provider execution adapter, no shadow mode, inline threading. What only
  observes (the dashboard, the audit sink, progress output, debug timers) is left out; \<open>e_logged\<close> is the sequence of events given to
  \<open>log_event\<close>. Object pools are assumed not to run out. Strategies are an interface: the operations of \<open>IStrategy\<close> over a state of
  their own. Wall clock, steady clock and random draws are functions of the number of readings so far.

  Order books are shared between the registry and the adapters by reference. An adapter of theory \<open>Local_Adapter\<close> carries a copy of its book; each
  operation loads the current book into it and stores the result back.

  In this configuration the out-parameter \<open>halt_requested\<close> is set exactly when the halt flag is set during the call, so it is not passed
  along; functions that return \<open>false\<close> on a halt return that here.
\<close>

text \<open>Failures: an adapter or book exception, a full symbol table, a call through a null strategy, an event read as another class.\<close>

datatype engine_error = Adapter_Failure adapter_error | Registry_Failure registry_error | Null_Strategy | Undefined_Event

definition ebind :: "'e + 'a \<Rightarrow> ('a \<Rightarrow> 'e + 'b) \<Rightarrow> 'e + 'b" where
  "ebind m f = (case m of Inl e \<Rightarrow> Inl e | Inr x \<Rightarrow> f x)"

subsection \<open>Strategies\<close>

record 's strategy_ops =
  so_on_market :: "market_event \<Rightarrow> 's \<Rightarrow> order_event option \<times> 's"
  so_on_tick :: "tick_event \<Rightarrow> 's \<Rightarrow> order_event option \<times> 's"
  so_on_l2_update :: "l2_update_event \<Rightarrow> 's \<Rightarrow> order_event option \<times> 's"
  so_set_position_open :: "symbol \<Rightarrow> bool \<Rightarrow> 's \<Rightarrow> 's"
  so_on_fill :: "fill_event \<Rightarrow> order_id \<Rightarrow> 's \<Rightarrow> 's"
  so_take_pending_exit_intents :: "'s \<Rightarrow> exit_intent list \<times> 's"

record 's strat =
  sg_ops :: "'s strategy_ops"
  sg_state :: 's

subsection \<open>Adapters\<close>

datatype adapter = A_Local book_ref local_adapter | A_Queue queue_adapter

definition load_book :: "book_ref \<Rightarrow> book_heap \<Rightarrow> local_adapter \<Rightarrow> local_adapter" where
  "load_book r h a = a\<lparr>la_book := bh_book h r\<rparr>"

definition store_book :: "book_ref \<Rightarrow> local_adapter \<Rightarrow> book_heap \<Rightarrow> adapter \<times> book_heap" where
  "store_book r a h = (A_Local r a, set_book r (la_book a) h)"

definition adapter_submit :: "order_event \<Rightarrow> double \<Rightarrow> int \<Rightarrow> adapter \<Rightarrow> book_heap \<Rightarrow> engine_error + adapter \<times> book_heap" where
  "adapter_submit o1 draw now a h = (case a of
       A_Local r la \<Rightarrow> (case la_submit_order o1 draw now (load_book r h la) of Inl e \<Rightarrow> Inl (Adapter_Failure e) | Inr la' \<Rightarrow> Inr (store_book r la' h))
     | A_Queue qa \<Rightarrow> (case qa_submit_order o1 qa of None \<Rightarrow> Inl (Adapter_Failure Undefined_Conversion) | Some qa' \<Rightarrow> Inr (A_Queue qa', h)))"

definition adapter_poll :: "adapter \<Rightarrow> fill_event list \<times> adapter" where
  "adapter_poll a = (case a of A_Local r la \<Rightarrow> (case la_poll_fills [] la of (_, fs, la') \<Rightarrow> (fs, A_Local r la'))
     | A_Queue qa \<Rightarrow> (case qa_poll_fills [] qa of (_, fs, qa') \<Rightarrow> (fs, A_Queue qa')))"

definition adapter_set_mid :: "double \<Rightarrow> bool \<Rightarrow> adapter \<Rightarrow> adapter" where
  "adapter_set_mid px seeded a = (case a of A_Local r la \<Rightarrow> A_Local r (la_set_l2_seeded seeded (la_set_mid_price px la))
     | A_Queue qa \<Rightarrow> A_Queue (qa_set_mid_price px qa))"

definition adapter_cancel :: "order_id \<Rightarrow> int option \<Rightarrow> adapter \<Rightarrow> book_heap \<Rightarrow> bool \<times> adapter \<times> book_heap" where
  "adapter_cancel i lat a h = (case a of A_Local r la \<Rightarrow> (case la_cancel_order i lat (load_book r h la) of (ok, la') \<Rightarrow> (ok, store_book r la' h))
     | A_Queue qa \<Rightarrow> (case qa_cancel_order i lat qa of (ok, qa') \<Rightarrow> (ok, A_Queue qa', h)))"

definition adapter_modify :: "order_id \<Rightarrow> double \<Rightarrow> double \<Rightarrow> adapter \<Rightarrow> book_heap \<Rightarrow> engine_error + bool \<times> adapter \<times> book_heap" where
  "adapter_modify i px q a h = (case a of
       A_Local r la \<Rightarrow> (case la_modify_order i px q (load_book r h la) of None \<Rightarrow> Inl (Adapter_Failure Undefined_Conversion)
         | Some (ok, la') \<Rightarrow> Inr (ok, store_book r la' h))
     | A_Queue qa \<Rightarrow> Inr (False, A_Queue qa, h))"

definition adapter_advance :: "time_point \<Rightarrow> adapter \<Rightarrow> book_heap \<Rightarrow> adapter \<times> book_heap" where
  "adapter_advance ts a h = (case a of A_Local r la \<Rightarrow> store_book r (la_advance_time ts (load_book r h la)) h
     | A_Queue qa \<Rightarrow> (A_Queue (qa_advance_time ts qa), h))"

definition adapter_on_book_trades :: "trade list \<Rightarrow> time_point \<Rightarrow> adapter \<Rightarrow> book_heap \<Rightarrow> adapter \<times> book_heap" where
  "adapter_on_book_trades trs ts a h = (case a of A_Local r la \<Rightarrow> store_book r (la_on_book_trades trs ts (load_book r h la)) h | A_Queue qa \<Rightarrow> (a, h))"

definition adapter_sweep :: "symbol \<Rightarrow> double \<Rightarrow> double \<Rightarrow> time_point \<Rightarrow> adapter \<Rightarrow> book_heap \<Rightarrow> bool \<times> adapter \<times> book_heap" where
  "adapter_sweep sy low high ts a h = (case a of
       A_Local r la \<Rightarrow> (case sweep_resting_range sy low high ts (load_book r h la) of (any, la') \<Rightarrow> (any, store_book r la' h))
     | A_Queue qa \<Rightarrow> (False, a, h))"

definition adapter_l2_snapshot :: "symbol \<Rightarrow> (double \<times> double) list \<Rightarrow> (double \<times> double) list \<Rightarrow> adapter \<Rightarrow> adapter option" where
  "adapter_l2_snapshot sy bids asks a = (case a of A_Local r la \<Rightarrow> Some a | A_Queue qa \<Rightarrow> map_option A_Queue (qa_on_l2_snapshot sy bids asks qa))"

definition adapter_l2_update :: "symbol \<Rightarrow> order_side \<Rightarrow> double \<Rightarrow> double \<Rightarrow> adapter \<Rightarrow> adapter option" where
  "adapter_l2_update sy sd px q a = (case a of A_Local r la \<Rightarrow> Some a | A_Queue qa \<Rightarrow> map_option A_Queue (qa_on_l2_update sy sd px q qa))"

subsection \<open>The engine's state\<close>

record engine_config =
  cfg_fee :: "fee_model option"
  cfg_fill :: "fill_model option"
  cfg_impact :: "impact_model option"
  cfg_walked :: bool
  cfg_aggression :: double
  cfg_qty_scale :: double
  cfg_maker_queue :: "queue_model option"
  cfg_risk_unwind :: bool
  cfg_bar_delay :: nat
  cfg_exit_defaults :: default_exit_params
  cfg_overrides :: "(symbol, instrument_spec) umap"
  cfg_initial_balance :: double
  cfg_ln :: "double \<Rightarrow> double"
  cfg_draw :: "nat \<Rightarrow> double"
  cfg_wall :: "nat \<Rightarrow> time_point"
  cfg_steady :: "nat \<Rightarrow> int"

record order_meta =
  om_opener :: order_id
  om_strategy :: string

record 's engine =
  e_cfg :: engine_config
  e_check :: "futures_check option"
  e_registry :: book_registry
  e_heap :: book_heap
  e_adapters :: "(symbol, adapter) umap"
  e_ids :: u64
  e_reads :: nat
  e_latency :: "latency_model option"
  e_strategy :: "'s strat option"
  e_primary :: string
  e_extras :: "(string \<times> 's strat) list"
  e_portfolio :: portfolio
  e_tracker :: order_tracker
  e_analytics :: analytics
  e_adverse :: adverse_selection
  e_risk :: risk_manager
  e_mm :: market_maker
  e_mid :: double
  e_mark_symbol :: symbol
  e_specs :: "(symbol, instrument_spec option) umap"
  e_seeded :: "symbol list"
  e_exits :: exit_manager
  e_stops :: "order_event list"
  e_pending :: "(order_event \<times> u64) list"
  e_seq :: u64
  e_day_ids :: "(symbol \<times> order_id) list"
  e_meta :: "(order_id, order_meta) umap"
  e_halt :: bool
  e_pause :: bool
  e_flatten :: bool
  e_logged :: "any_event list"

text \<open>A new engine: \<open>ids\<close> is the state of the process-wide id generator; the limits, the calibration and the statistics' parameters come from the
  configuration.\<close>

definition mk_engine :: "engine_config \<Rightarrow> nat \<times> double \<times> nat \<times> nat \<Rightarrow> risk_limits \<Rightarrow> mm_calibration \<Rightarrow> futures_check option \<Rightarrow> latency_model option
    \<Rightarrow> 's strat option \<Rightarrow> u64 \<Rightarrow> 's engine" where
  "mk_engine cfg = (\<lambda>(rolling, risk_free, periods, max_points) lims calib check latency strategy ids.
     \<lparr>e_cfg = cfg, e_check = check, e_registry = mk_registry, e_heap = \<lparr>bh_book = (\<lambda>r. empty_book), bh_next = 0\<rparr>, e_adapters = [], e_ids = ids,
      e_reads = 0, e_latency = latency, e_strategy = strategy, e_primary = [], e_extras = [], e_portfolio = mk_portfolio (cfg_initial_balance cfg),
      e_tracker = [], e_analytics = mk_analytics (cfg_initial_balance cfg) rolling risk_free periods max_points, e_adverse = mk_adverse_selection,
      e_risk = mk_risk_manager lims, e_mm = set_calibration calib mk_market_maker, e_mid = 0, e_mark_symbol = [], e_specs = [], e_seeded = [],
      e_exits = mk_exit_manager, e_stops = [], e_pending = [], e_seq = 0, e_day_ids = [], e_meta = [], e_halt = False, e_pause = False,
      e_flatten = False, e_logged = []\<rparr>)"

type_synonym 's eresult = "engine_error + 's engine"
type_synonym 's eresult_ok = "engine_error + bool \<times> 's engine"

definition eng_log :: "any_event \<Rightarrow> 's engine \<Rightarrow> 's engine" where
  "eng_log ev e = e\<lparr>e_logged := e_logged e @ [ev]\<rparr>"

text \<open>With inline threading \<open>publish_event\<close> only settles funding.\<close>

definition publish_event :: "any_event \<Rightarrow> 's engine \<Rightarrow> 's engine" where
  "publish_event ev e = (case ev of AE_Funding fe \<Rightarrow> e\<lparr>e_portfolio := portfolio_on_funding fe (e_portfolio e)\<rparr> | _ \<Rightarrow> e)"

definition feed_analytics :: "any_event \<Rightarrow> 's engine \<Rightarrow> 's engine" where
  "feed_analytics ev e = e\<lparr>e_analytics := feed_inline (cfg_ln (e_cfg e)) ev (e_analytics e)\<rparr>"

definition trigger_halt :: "'s engine \<Rightarrow> 's engine" where
  "trigger_halt e = e\<lparr>e_halt := True\<rparr>"

definition set_pause_all :: "bool \<Rightarrow> 's engine \<Rightarrow> 's engine" where
  "set_pause_all b e = e\<lparr>e_pause := b\<rparr>"

definition request_flatten :: "'s engine \<Rightarrow> 's engine" where
  "request_flatten e = e\<lparr>e_flatten := True\<rparr>"

definition wall_now :: "'s engine \<Rightarrow> time_point \<times> 's engine" where
  "wall_now e = (cfg_wall (e_cfg e) (e_reads e), e\<lparr>e_reads := e_reads e + 1\<rparr>)"

definition steady_now :: "'s engine \<Rightarrow> int \<times> 's engine" where
  "steady_now e = (cfg_steady (e_cfg e) (e_reads e), e\<lparr>e_reads := e_reads e + 1\<rparr>)"

definition track :: "order_id \<Rightarrow> order_status \<Rightarrow> 's engine \<Rightarrow> 's engine" where
  "track i st e = e\<lparr>e_tracker := set_status i st (e_tracker e)\<rparr>"

definition next_id :: "'s engine \<Rightarrow> order_id \<times> 's engine" where
  "next_id e = (case order_id_next (e_ids e) of (i, c) \<Rightarrow> (i, e\<lparr>e_ids := c\<rparr>))"

definition put_adapter :: "symbol \<Rightarrow> adapter \<times> book_heap \<Rightarrow> 's engine \<Rightarrow> 's engine" where
  "put_adapter sy ah e = e\<lparr>e_adapters := AList.update sy (fst ah) (e_adapters e), e_heap := snd ah\<rparr>"

definition engine_book :: "symbol \<Rightarrow> 's engine \<Rightarrow> engine_error + book_ref \<times> 's engine" where
  "engine_book sy e = (case get_or_create sy (e_registry e, e_heap e) of Inl x \<Rightarrow> Inl (Registry_Failure x)
     | Inr (r, rg, h) \<Rightarrow> Inr (r, e\<lparr>e_registry := rg, e_heap := h\<rparr>))"

definition resolve_adapter :: "symbol \<Rightarrow> 's engine \<Rightarrow> engine_error + adapter \<times> 's engine" where
  "resolve_adapter sy e = (case map_of (e_adapters e) sy of Some a \<Rightarrow> Inr (a, e)
     | None \<Rightarrow> ebind (engine_book sy e) (\<lambda>(r, e1).
         let c = e_cfg e1;
             a = (case cfg_maker_queue c of Some qm \<Rightarrow> A_Queue (mk_queue_adapter (Some qm) (cfg_fee c))
                  | None \<Rightarrow> A_Local r (mk_local_adapter (bh_book (e_heap e1) r) (cfg_fee c) (cfg_fill c) (cfg_impact c) (cfg_aggression c)
                      (cfg_qty_scale c) (cfg_walked c)))
         in Inr (a, put_adapter sy (a, e_heap e1) e1)))"

definition advance_all :: "time_point \<Rightarrow> 's engine \<Rightarrow> 's engine" where
  "advance_all ts e = fold (\<lambda>(sy, a) e. put_adapter sy (adapter_advance ts a (e_heap e)) e) (e_adapters e) e"

subsection \<open>Attribution\<close>

definition register_order_meta :: "order_event \<Rightarrow> 's engine \<Rightarrow> 's engine" where
  "register_order_meta o1 e = e\<lparr>e_meta := AList.update (oe_order_id o1)
     \<lparr>om_opener = (if oe_opener_order_id o1 \<noteq> 0 then oe_opener_order_id o1 else oe_order_id o1), om_strategy = oe_strategy_name o1\<rparr> (e_meta e)\<rparr>"

definition lookup_opener :: "order_id \<Rightarrow> 's engine \<Rightarrow> order_id" where
  "lookup_opener i e = (case map_of (e_meta e) i of Some m \<Rightarrow> om_opener m | None \<Rightarrow> 0)"

definition lookup_strategy_name :: "order_id \<Rightarrow> 's engine \<Rightarrow> string" where
  "lookup_strategy_name i e = (case map_of (e_meta e) i of Some m \<Rightarrow> om_strategy m | None \<Rightarrow> [])"

definition stamp_fill_attribution :: "fill_event \<Rightarrow> 's engine \<Rightarrow> fill_event" where
  "stamp_fill_attribution f e =
     (let op = lookup_opener (fe_order_id f) e; sn = lookup_strategy_name (fe_order_id f) e;
          f1 = (if fe_opener_order_id f = 0 \<and> op \<noteq> 0 then f\<lparr>fe_opener_order_id := op\<rparr> else f)
      in if fe_strategy_name f1 = [] \<and> sn \<noteq> [] then f1\<lparr>fe_strategy_name := sn\<rparr> else f1)"

definition with_state :: "('s \<Rightarrow> 's) \<Rightarrow> 's strat \<Rightarrow> 's strat" where
  "with_state f s = s\<lparr>sg_state := f (sg_state s)\<rparr>"

definition dispatch_fill_to_strategy :: "fill_event \<Rightarrow> 's engine \<Rightarrow> 's engine" where
  "dispatch_fill_to_strategy f e =
     (let name = lookup_strategy_name (fe_order_id f) e; opener = lookup_opener (fe_order_id f) e;
          call = (\<lambda>s. with_state (so_on_fill (sg_ops s) f opener) s)
      in if name = [] then e
         else if e_strategy e \<noteq> None \<and> name = e_primary e then e\<lparr>e_strategy := map_option call (e_strategy e)\<rparr>
         else e\<lparr>e_extras := update_first (\<lambda>(n, s). n = name) (\<lambda>(n, s). (n, call s)) (e_extras e)\<rparr>)"

definition sweep_brackets :: "symbol \<Rightarrow> string \<Rightarrow> exit_manager \<Rightarrow> exit_manager" where
  "sweep_brackets sy name m = (if name = [] then m else if openers_for name sy m \<le> 1 then exit_cancel_strategy name sy m else m)"

definition notify_position_change_all :: "symbol \<Rightarrow> bool \<Rightarrow> 's engine \<Rightarrow> 's engine" where
  "notify_position_change_all sy opn e =
     (let call = (\<lambda>s. with_state (so_set_position_open (sg_ops s) sy opn) s);
          e1 = e\<lparr>e_strategy := map_option call (e_strategy e), e_extras := map (\<lambda>(n, s). (n, call s)) (e_extras e)\<rparr>
      in if opn then e1 else e1\<lparr>e_exits := fold (sweep_brackets sy) (e_primary e1 # map fst (e_extras e1)) (e_exits e1)\<rparr>)"

subsection \<open>Fills\<close>

text \<open>\<open>handle_engine_fill\<close> up to the post-fill check: the stamped fill and the engine with its books updated.\<close>

definition book_fill :: "fill_event \<Rightarrow> 's engine \<Rightarrow> fill_event \<times> 's engine" where
  "book_fill f0 e0 =
     (let f = stamp_fill_attribution f0 e0; opener = fe_opener_order_id f;
          e1 = track (fe_order_id f) (if fill_is_partial f then Partially_Filled else Filled) e0;
          e2 = eng_log (AE_Fill f) e1;
          e3 = e2\<lparr>e_portfolio := portfolio_on_fill f opener (fe_strategy_name f) (e_portfolio e2)\<rparr>;
          e4 = dispatch_fill_to_strategy f e3;
          e5 = e4\<lparr>e_adverse := as_on_fill f (e_adverse e4), e_exits := exit_on_fill f opener (e_exits e4), e_risk := risk_on_fill f (e_risk e4)\<rparr>;
          e6 = notify_position_change_all (fe_symbol f) (position_open (fe_symbol f) (e_portfolio e5)) e5
      in (f, feed_analytics (AE_Fill f) (publish_event (AE_Fill f) e6)))"

text \<open>Submission of an order to the adapter of its symbol: the mid price and the depth flag are set first.\<close>

definition submit_to_adapter :: "order_event \<Rightarrow> 's engine \<Rightarrow> 's eresult" where
  "submit_to_adapter o1 e = ebind (resolve_adapter (oe_symbol o1) e) (\<lambda>(a, e1).
     let a1 = adapter_set_mid (e_mid e1) (oe_symbol o1 \<in> set (e_seeded e1)) a; draw = cfg_draw (e_cfg e1) (e_reads e1);
         (now, e2) = steady_now e1
     in ebind (adapter_submit o1 draw now a1 (e_heap e2)) (\<lambda>ah. Inr (put_adapter (oe_symbol o1) ah e2)))"

definition take_fills :: "symbol \<Rightarrow> 's engine \<Rightarrow> fill_event list \<times> 's engine" where
  "take_fills sy e = (case map_of (e_adapters e) sy of None \<Rightarrow> ([], e)
     | Some a \<Rightarrow> (case adapter_poll a of (fs, a') \<Rightarrow> (fs, put_adapter sy (a', e_heap e) e)))"

definition note_order :: "order_event \<Rightarrow> 's engine \<Rightarrow> 's engine" where
  "note_order o1 e = feed_analytics (AE_Order o1) (publish_event (AE_Order o1) (eng_log (AE_Order o1) (track (oe_order_id o1) Open e)))"

definition unwind_one :: "symbol \<times> double \<Rightarrow> 's engine \<Rightarrow> 's eresult" where
  "unwind_one = (\<lambda>(sy, q) e.
     let (now, e1) = wall_now e; (i, e2) = next_id e1;
         o1 = (mk_order_event now sy OT_Market (if q > 0 then Sell else Buy) \<bar>q\<bar> (e_mid e2) TIF_GTC 0)
                \<lparr>oe_order_id := i, oe_strategy_name := ''risk_unwind''\<rparr>
     in ebind (submit_to_adapter o1 (note_order o1 e2)) (\<lambda>e3.
          let (fs, e4) = take_fills sy e3 in Inr (fold (\<lambda>f e. snd (book_fill f e)) fs e4)))"

fun unwind_all :: "(symbol \<times> double) list \<Rightarrow> 's engine \<Rightarrow> 's eresult" where
  "unwind_all [] e = Inr e"
| "unwind_all (x # xs) e = ebind (unwind_one x e) (unwind_all xs)"

definition unwind_positions :: "'s engine \<Rightarrow> 's eresult" where
  "unwind_positions e = unwind_all (map (\<lambda>(sy, p). (sy, qty p)) (filter (\<lambda>(sy, p). \<bar>qty p\<bar> \<ge> eps12) (positions (e_portfolio e)))) e"

text \<open>A terminal halt by the risk manager, with the unwind where it is configured.\<close>

definition risk_halt :: "'s engine \<Rightarrow> 's eresult" where
  "risk_halt e = ebind (if cfg_risk_unwind (e_cfg e) then unwind_positions e else Inr e) (\<lambda>e1. Inr (trigger_halt e1))"

definition handle_engine_fill :: "fill_event \<Rightarrow> 's engine \<Rightarrow> 's eresult_ok" where
  "handle_engine_fill f0 e =
     (let (f, e1) = book_fill f0 e; (act, rm) = check_post_fill f (risk_view (e_analytics e1)) (e_risk e1); e2 = e1\<lparr>e_risk := rm\<rparr>
      in if act = Risk_Halt then ebind (risk_halt e2) (\<lambda>e3. Inr (False, e3)) else Inr (True, e2))"

text \<open>The fills are handled in order until one halts the engine; the rest are then dropped.\<close>

fun handle_fills :: "fill_event list \<Rightarrow> 's engine \<Rightarrow> 's eresult_ok" where
  "handle_fills [] e = Inr (True, e)"
| "handle_fills (f # fs) e = ebind (handle_engine_fill f e) (\<lambda>(ok, e1). if ok then handle_fills fs e1 else Inr (False, e1))"

definition process_adapter_fills :: "symbol \<Rightarrow> 's engine \<Rightarrow> 's eresult_ok" where
  "process_adapter_fills sy e = (let (fs, e1) = take_fills sy e in handle_fills fs e1)"

definition deliver_mm_book_trades :: "symbol \<Rightarrow> trade list \<Rightarrow> time_point \<Rightarrow> 's engine \<Rightarrow> 's eresult" where
  "deliver_mm_book_trades sy trs ts e =
     (if trs = [] then Inr e
      else case map_of (e_adapters e) sy of None \<Rightarrow> Inr e
      | Some a \<Rightarrow> ebind (process_adapter_fills sy (put_adapter sy (adapter_on_book_trades trs ts a (e_heap e)) e)) (\<lambda>(ok, e1). Inr e1))"

text \<open>The market maker's ladder on the book of a symbol is re-centred, unless the symbol carries real depth; the crossings are delivered.\<close>

definition recenter :: "symbol \<Rightarrow> double \<Rightarrow> bool \<Rightarrow> time_point \<Rightarrow> 's engine \<Rightarrow> 's eresult" where
  "recenter sy px update_history ts e = ebind (engine_book sy e) (\<lambda>(r, e1).
     if sy \<in> set (e_seeded e1) then Inr e1
     else case replenish sy px update_history (e_mm e1) (bh_book (e_heap e1) r, e_ids e1) of Inl x \<Rightarrow> Inl (Adapter_Failure x)
     | Inr (trs, mm, b, c) \<Rightarrow> deliver_mm_book_trades sy trs ts (e1\<lparr>e_mm := mm, e_heap := set_book r b (e_heap e1), e_ids := c\<rparr>))"

subsection \<open>Orders\<close>

definition reject_order :: "order_event \<Rightarrow> string \<Rightarrow> 's engine \<Rightarrow> 's engine" where
  "reject_order o1 reason_text e = (let ev = AE_Rejection (mk_rejection_event (timestamp o1) (oe_symbol o1) (oe_order_id o1) reason_text)
     in track (oe_order_id o1) Rejected (publish_event ev (eng_log ev e)))"

definition venue_refuses :: "order_event \<Rightarrow> 's engine \<Rightarrow> bool" where
  "venue_refuses o1 e = (case e_check e of None \<Rightarrow> False | Some c \<Rightarrow> \<not> allow (evaluate o1 (e_portfolio e) (e_mid e) c))"

text \<open>The text of a venue refusal also carries the reason of the check, which is left out here.\<close>

definition process_order :: "order_event \<Rightarrow> 's engine \<Rightarrow> 's eresult_ok" where
  "process_order o1 e =
     (if e_halt e then Inr (False, e)
      else if venue_refuses o1 e then Inr (True, reject_order o1 ''venue risk check refused'' e)
      else
       let (act, rm) = check_order o1 (e_portfolio e) (risk_view (e_analytics e)) (e_risk e); e1 = e\<lparr>e_risk := rm\<rparr> in
       if act = Risk_Halt then ebind (risk_halt (reject_order o1 ''risk limit breached - engine halted'' e1)) (\<lambda>e2. Inr (False, e2))
       else if act = Risk_Reject then Inr (True, reject_order o1 ''order rejected by risk manager'' e1)
       else ebind (resolve_adapter (oe_symbol o1) e1) (\<lambda>(a, e2).
         ebind (submit_to_adapter o1 (note_order o1 e2)) (process_adapter_fills (oe_symbol o1))))"

text \<open>Cancels: a resting order through its adapter, else a stop that still waits.\<close>

definition draws_latency :: "order_id \<Rightarrow> adapter \<Rightarrow> bool" where
  "draws_latency i a = (case a of A_Local r la \<Rightarrow> True | A_Queue qa \<Rightarrow> map_of (qa_orders qa) i \<noteq> None)"

definition cancel_latency :: "order_id \<Rightarrow> adapter \<Rightarrow> 's engine \<Rightarrow> engine_error + int option \<times> 's engine" where
  "cancel_latency i a e = (if \<not> draws_latency i a then Inr (None, e) else case e_latency e of None \<Rightarrow> Inr (None, e)
     | Some m \<Rightarrow> (case get_cancel_latency m of None \<Rightarrow> Inl (Adapter_Failure Undefined_Conversion) | Some (us, m') \<Rightarrow> Inr (Some us, e\<lparr>e_latency := Some m'\<rparr>)))"

definition note_cancel :: "symbol \<Rightarrow> order_id \<Rightarrow> string \<Rightarrow> 's engine \<Rightarrow> 's engine" where
  "note_cancel sy i reason_text e = (let (now, e1) = wall_now (track i Cancelled e); ev = AE_Cancel (mk_cancel_event now sy i reason_text)
     in feed_analytics ev (publish_event ev (eng_log ev e1)))"

definition drop_stop :: "order_id \<Rightarrow> 's engine \<Rightarrow> bool \<times> 's engine" where
  "drop_stop i e = (let stops = filter (\<lambda>o'. oe_order_id o' \<noteq> i) (e_stops e) in (stops \<noteq> e_stops e, e\<lparr>e_stops := stops\<rparr>))"

definition eng_cancel_order :: "symbol \<Rightarrow> order_id \<Rightarrow> string \<Rightarrow> 's engine \<Rightarrow> 's eresult_ok" where
  "eng_cancel_order sy i reason_text e = ebind (resolve_adapter sy e) (\<lambda>(a, e1). ebind (cancel_latency i a e1) (\<lambda>(lat, e2).
     let (found, ah) = adapter_cancel i lat a (e_heap e2); e3 = put_adapter sy ah e2; (cancelled, e4) = (if found then (True, e3) else drop_stop i e3)
     in Inr (cancelled, if cancelled then note_cancel sy i reason_text e4 else e4)))"

definition note_amend :: "symbol \<Rightarrow> order_id \<Rightarrow> double \<Rightarrow> double \<Rightarrow> 's engine \<Rightarrow> 's engine" where
  "note_amend sy i px q e = (let (now, e1) = wall_now e; ev = AE_Amend (mk_amend_event now sy i px q) in feed_analytics ev (publish_event ev (eng_log ev e1)))"

definition eng_modify_order :: "symbol \<Rightarrow> order_id \<Rightarrow> double \<Rightarrow> double \<Rightarrow> 's engine \<Rightarrow> 's eresult_ok" where
  "eng_modify_order sy i px q e =
     (if e_halt e \<or> e_pause e then Inr (False, e)
      else ebind (resolve_adapter sy e) (\<lambda>(a, e1). ebind (adapter_modify i px q a (e_heap e1)) (\<lambda>(ok, ah).
        let e2 = put_adapter sy ah e1 in Inr (ok, if ok then note_amend sy i px q e2 else e2))))"

subsection \<open>Instrument filter\<close>

definition resolve_instrument_spec :: "symbol \<Rightarrow> 's engine \<Rightarrow> instrument_spec option \<times> 's engine" where
  "resolve_instrument_spec sy e = (case map_of (e_specs e) sy of Some sp \<Rightarrow> (sp, e)
     | None \<Rightarrow> (let sp = map_of (cfg_overrides (e_cfg e)) sy in (sp, e\<lparr>e_specs := AList.update sy sp (e_specs e)\<rparr>)))"

definition apply_instrument_spec :: "instrument_spec \<Rightarrow> order_event \<Rightarrow> bool \<times> order_event" where
  "apply_instrument_spec sp o0 =
     (let ty = oe_order_type o0;
          o1 = (if tick_size sp > 0 \<and> (ty = OT_Limit \<or> ty = OT_Stop_Limit) then o0\<lparr>oe_price := quantize_price_to_tick (oe_price o0) (tick_size sp)\<rparr> else o0);
          o2 = (if tick_size sp > 0 \<and> (ty = OT_Stop \<or> ty = OT_Stop_Limit)
                then o1\<lparr>oe_stop_price := quantize_price_to_tick (oe_stop_price o1) (tick_size sp)\<rparr> else o1);
          o3 = (if lot_size sp > 0 then o2\<lparr>oe_quantity := floor_qty_to_lot (oe_quantity o2) (lot_size sp)\<rparr> else o2);
          ref = (if ty = OT_Stop then oe_stop_price o3 else oe_price o3)
      in (meets_min_qty (oe_quantity o3) (min_qty sp) \<and> meets_min_notional (oe_quantity o3) ref (min_notional sp), o3))"

subsection \<open>Routing\<close>

text \<open>The pending orders are a priority queue on the eligible time, then the sequence number: here a list kept in that order.\<close>

definition pending_before :: "order_event \<times> u64 \<Rightarrow> order_event \<times> u64 \<Rightarrow> bool" where
  "pending_before p q \<longleftrightarrow> oe_earliest_eligible_ts (fst p) < oe_earliest_eligible_ts (fst q) \<or>
     oe_earliest_eligible_ts (fst p) = oe_earliest_eligible_ts (fst q) \<and> snd p < snd q"

fun push_pending :: "order_event \<times> u64 \<Rightarrow> (order_event \<times> u64) list \<Rightarrow> (order_event \<times> u64) list" where
  "push_pending p [] = [p]"
| "push_pending p (q # qs) = (if pending_before p q then p # q # qs else q # push_pending p qs)"

definition defer_order :: "order_event \<Rightarrow> 's engine \<Rightarrow> 's engine" where
  "defer_order o1 e = e\<lparr>e_pending := push_pending (o1, e_seq e) (e_pending e), e_seq := e_seq e + 1\<rparr>"

definition note_day_order :: "order_event \<Rightarrow> 's engine \<Rightarrow> 's engine" where
  "note_day_order o1 e = (if oe_tif o1 = TIF_Day then e\<lparr>e_day_ids := e_day_ids e @ [(oe_symbol o1, oe_order_id o1)]\<rparr> else e)"

text \<open>The tail of \<open>route_order\<close> for a bracket fire: the book is re-centred at the fire price for this order only.\<close>

definition route_anchored :: "order_event \<Rightarrow> time_point \<Rightarrow> 's engine \<Rightarrow> 's eresult_ok" where
  "route_anchored o1 sim e =
     (let ref = oe_price o1; bar_mid = e_mid e in
      ebind (if ref > 0 \<and> \<not> feq ref bar_mid then ebind (recenter (oe_symbol o1) ref False sim e) (\<lambda>e1. Inr (e1\<lparr>e_mid := ref\<rparr>)) else Inr e) (\<lambda>e2.
      ebind (process_order o1 (note_day_order o1 e2)) (\<lambda>(ok, e3). Inr (ok, e3\<lparr>e_mid := bar_mid\<rparr>))))"

text \<open>\<open>route_order\<close>: the order is changed in place, so it is part of the result. First it gets its id, is tracked and registered, and the
  instrument filter is applied.\<close>

definition admit_order :: "order_event \<Rightarrow> 's engine \<Rightarrow> bool \<times> order_event \<times> 's engine" where
  "admit_order o0 e =
     (let (i, e1) = next_id e; o1 = o0\<lparr>oe_order_id := i\<rparr>; (sp, e2) = resolve_instrument_spec (oe_symbol o1) (register_order_meta o1 (track i Pending e1))
      in case sp of None \<Rightarrow> (True, o1, e2) | Some s \<Rightarrow> (case apply_instrument_spec s o1 of (fits, o2) \<Rightarrow> (fits, o2, e2)))"

definition place_order :: "order_event \<Rightarrow> time_point \<Rightarrow> bool \<Rightarrow> 's engine \<Rightarrow> engine_error + bool \<times> order_event \<times> 's engine" where
  "place_order o1 sim anchor_immediate e =
     (if oe_order_type o1 = OT_Stop \<or> oe_order_type o1 = OT_Stop_Limit then Inr (True, o1, e\<lparr>e_stops := e_stops e @ [o1]\<rparr>)
      else if anchor_immediate then
        (let o2 = o1\<lparr>oe_earliest_eligible_ts := sim\<rparr> in ebind (route_anchored o2 sim e) (\<lambda>(ok, e1). Inr (ok, o2, e1)))
      else case e_latency e of
        Some m \<Rightarrow> (case get_order_latency m of None \<Rightarrow> Inl (Adapter_Failure Undefined_Conversion)
          | Some (us, m') \<Rightarrow> (let o2 = o1\<lparr>oe_earliest_eligible_ts := sim + micros us\<rparr> in Inr (True, o2, defer_order o2 (e\<lparr>e_latency := Some m'\<rparr>))))
      | None \<Rightarrow>
          if cfg_bar_delay (e_cfg e) > 0 then (let o2 = o1\<lparr>oe_earliest_eligible_ts := sim + 1\<rparr> in Inr (True, o2, defer_order o2 e))
          else (let o2 = o1\<lparr>oe_earliest_eligible_ts := sim\<rparr> in
            ebind (process_order o2 (note_day_order o2 e)) (\<lambda>(ok, e1). Inr (ok, o2, e1))))"

definition route_order :: "order_event \<Rightarrow> time_point \<Rightarrow> bool \<Rightarrow> 's engine \<Rightarrow> engine_error + bool \<times> order_event \<times> 's engine" where
  "route_order o0 sim anchor_immediate e =
     (if e_halt e then Inr (False, o0, e)
      else if e_pause e then Inr (True, o0, e)
      else let (fits, o1, e1) = admit_order o0 e in
       if \<not> fits then Inr (True, o1, reject_order o1 ''order rejected by venue filter (min_qty/min_notional)'' e1)
       else place_order o1 sim anchor_immediate e1)"

subsection \<open>Pending stops and deferred orders\<close>

definition stop_hit :: "double \<Rightarrow> double \<Rightarrow> order_event \<Rightarrow> bool" where
  "stop_hit high low st \<longleftrightarrow> oe_side st = Buy \<and> high \<ge> oe_stop_price st \<or> oe_side st = Sell \<and> low \<le> oe_stop_price st"

definition stop_ref :: "double \<Rightarrow> order_event \<Rightarrow> double" where
  "stop_ref opn st = (if oe_side st = Buy then (if opn \<ge> oe_stop_price st then opn else oe_stop_price st)
     else (if opn \<le> oe_stop_price st then opn else oe_stop_price st))"

definition stop_order :: "time_point \<Rightarrow> order_event \<Rightarrow> order_event" where
  "stop_order sim st =
     (let o1 = (if oe_order_type st = OT_Stop
                then mk_order_event sim (oe_symbol st) OT_Market (oe_side st) (oe_quantity st) (oe_stop_price st) TIF_IOC 0
                else mk_order_event sim (oe_symbol st) OT_Limit (oe_side st) (oe_quantity st) (oe_price st) (oe_tif st) 0)
      in o1\<lparr>oe_order_id := oe_order_id st, oe_strategy_name := oe_strategy_name st, oe_opener_order_id := oe_opener_order_id st,
            recv_ns := recv_ns st, oe_earliest_eligible_ts := sim\<rparr>)"

definition fire_stop :: "double \<Rightarrow> time_point \<Rightarrow> double \<Rightarrow> order_event \<Rightarrow> 's engine \<Rightarrow> 's eresult_ok" where
  "fire_stop opn sim bar_mid st e =
     (let ref = stop_ref opn st; e1 = e\<lparr>e_mid := ref\<rparr> in
      ebind (if \<not> feq ref bar_mid then recenter (oe_symbol st) ref False sim e1 else Inr e1) (\<lambda>e2.
      ebind (process_order (stop_order sim st) (note_day_order (stop_order sim st) e2)) (\<lambda>(ok, e3). Inr (ok, e3\<lparr>e_mid := bar_mid\<rparr>))))"

text \<open>The loop of \<open>check_pending_stops\<close>: the stops that stay, and the engine. Nothing in the loop touches the list itself.\<close>

fun stops_loop :: "double \<Rightarrow> double \<Rightarrow> double \<Rightarrow> time_point \<Rightarrow> double \<Rightarrow> order_event list \<Rightarrow> 's engine \<Rightarrow> engine_error + order_event list \<times> 's engine" where
  "stops_loop opn high low sim bar_mid [] e = Inr ([], e)"
| "stops_loop opn high low sim bar_mid (st # sts) e =
     (if e_halt e then Inr (st # sts, e)
      else if stop_hit high low st then
        ebind (fire_stop opn sim bar_mid st e) (\<lambda>(ok, e1). if ok then stops_loop opn high low sim bar_mid sts e1 else Inr (st # sts, e1))
      else ebind (stops_loop opn high low sim bar_mid sts e) (\<lambda>(kept, e1). Inr (st # kept, e1)))"

definition check_pending_stops :: "double \<Rightarrow> double \<Rightarrow> double \<Rightarrow> time_point \<Rightarrow> 's engine \<Rightarrow> 's eresult" where
  "check_pending_stops opn high low sim e =
     ebind (stops_loop opn high low sim (e_mid e) (e_stops e) e) (\<lambda>(kept, e1). Inr (e1\<lparr>e_stops := kept\<rparr>))"

text \<open>The deferred orders that are due (all of them without a limit) are processed in order of eligibility.\<close>

fun drain_loop :: "time_point option \<Rightarrow> (order_event \<times> u64) list \<Rightarrow> 's engine \<Rightarrow> engine_error + (order_event \<times> u64) list \<times> 's engine" where
  "drain_loop until [] e = Inr ([], e)"
| "drain_loop until (p # ps) e =
     (if e_halt e \<or> (case until of None \<Rightarrow> False | Some ts \<Rightarrow> \<not> oe_earliest_eligible_ts (fst p) \<le> ts) then Inr (p # ps, e)
      else ebind (process_order (fst p) (note_day_order (fst p) e)) (\<lambda>(ok, e1). if ok then drain_loop until ps e1 else Inr (ps, e1)))"

definition drain_pending :: "time_point option \<Rightarrow> 's engine \<Rightarrow> 's eresult" where
  "drain_pending until e = ebind (drain_loop until (e_pending e) e) (\<lambda>(ps, e1). Inr (e1\<lparr>e_pending := ps\<rparr>))"

definition sweep_resting_limits :: "symbol \<Rightarrow> double \<Rightarrow> double \<Rightarrow> time_point \<Rightarrow> 's engine \<Rightarrow> 's eresult" where
  "sweep_resting_limits sy low high ts e = (case map_of (e_adapters e) sy of None \<Rightarrow> Inr e
     | Some a \<Rightarrow> (let (any, ah) = adapter_sweep sy low high ts a (e_heap e); e1 = put_adapter sy ah e
         in if any then ebind (process_adapter_fills sy e1) (\<lambda>(ok, e2). Inr e2) else Inr e1))"

definition clear_pending_state :: "'s engine \<Rightarrow> 's engine" where
  "clear_pending_state e = e\<lparr>e_stops := [], e_pending := [], e_seq := 0, e_day_ids := []\<rparr>"

definition cancel_day_orders :: "'s engine \<Rightarrow> 's engine" where
  "cancel_day_orders e = fold (\<lambda>(sy, i) e. case rg_get sy (e_registry e) of None \<Rightarrow> e
     | Some r \<Rightarrow> e\<lparr>e_heap := set_book r (cancel_order i (bh_book (e_heap e) r)) (e_heap e)\<rparr>) (e_day_ids e) e"

end
