(* ===== verification/Bar_Aggregator.thy ===== *)
theory Bar_Aggregator
  imports Event_Types
begin

text \<open>
  The aggregation of ticks into bars, \<open>src/analytics/bar_aggregator.h\<close>. The callback that receives a bar is the output of the operation. The
  reference \<open>chunks\<close> cuts a sequence of ticks where the interval has elapsed since the first tick of the current bar. Volumes are integers without
  bound; in the code their sum is an \<open>int64_t\<close>, undefined beyond its range.
\<close>

record bar_aggregator =
  ba_interval :: int
  ba_open :: bool
  ba_start :: time_point
  ba_symbol :: symbol
  ba_o :: double
  ba_h :: double
  ba_l :: double
  ba_c :: double
  ba_volume :: int

definition mk_bar_aggregator :: "int \<Rightarrow> bar_aggregator" where
  "mk_bar_aggregator interval_ms = \<lparr>ba_interval = interval_ms, ba_open = False, ba_start = 0, ba_symbol = [], ba_o = 0, ba_h = 0, ba_l = 0,
     ba_c = 0, ba_volume = 0\<rparr>"

definition emit_bar :: "bar_aggregator \<Rightarrow> market_event" where
  "emit_bar a = mk_market_event (ba_start a) (ba_symbol a) (ba_o a) (ba_h a) (ba_l a) (ba_c a) (ba_volume a)"

definition start_bar :: "symbol \<Rightarrow> double \<Rightarrow> int \<Rightarrow> time_point \<Rightarrow> bar_aggregator \<Rightarrow> bar_aggregator" where
  "start_bar sy px vol ts a = a\<lparr>ba_start := ts, ba_o := px, ba_h := px, ba_l := px, ba_c := px, ba_volume := vol, ba_symbol := sy, ba_open := True\<rparr>"

text \<open>\<open>duration_cast<milliseconds>\<close> truncates towards zero.\<close>

definition elapsed_ms :: "time_point \<Rightarrow> time_point \<Rightarrow> int" where
  "elapsed_ms t0 t = (if t \<ge> t0 then (t - t0) div 1000000 else - ((t0 - t) div 1000000))"

definition agg_on_tick :: "symbol \<Rightarrow> double \<Rightarrow> int \<Rightarrow> time_point \<Rightarrow> bar_aggregator \<Rightarrow> market_event option \<times> bar_aggregator" where
  "agg_on_tick sy px vol ts a =
     (if \<not> ba_open a then (None, start_bar sy px vol ts a)
      else if elapsed_ms (ba_start a) ts \<ge> ba_interval a then (Some (emit_bar a), start_bar sy px vol ts a)
      else (None, a\<lparr>ba_h := std_max (ba_h a) px, ba_l := std_min (ba_l a) px, ba_c := px, ba_volume := ba_volume a + vol\<rparr>))"

text \<open>\<open>flush\<close> emits the open bar and leaves it open.\<close>

definition agg_flush :: "bar_aggregator \<Rightarrow> market_event option" where
  "agg_flush a = (if ba_open a then Some (emit_bar a) else None)"

definition agg_reset :: "bar_aggregator \<Rightarrow> bar_aggregator" where
  "agg_reset a = mk_bar_aggregator (ba_interval a)"

type_synonym raw_tick = "symbol \<times> double \<times> int \<times> time_point"

text \<open>A run over a sequence of ticks with the final flush: the bars handed to the callback.\<close>

fun agg_run :: "raw_tick list \<Rightarrow> bar_aggregator \<Rightarrow> market_event list" where
  "agg_run [] a = (case agg_flush a of None \<Rightarrow> [] | Some b \<Rightarrow> [b])"
| "agg_run ((sy, px, vol, ts) # xs) a =
     (case agg_on_tick sy px vol ts a of (None, a') \<Rightarrow> agg_run xs a' | (Some b, a') \<Rightarrow> b # agg_run xs a')"

subsection \<open>Bars are the aggregates of consecutive chunks\<close>

abbreviation t_symbol :: "raw_tick \<Rightarrow> symbol" where "t_symbol t \<equiv> fst t"
abbreviation t_price :: "raw_tick \<Rightarrow> double" where "t_price t \<equiv> fst (snd t)"
abbreviation t_volume :: "raw_tick \<Rightarrow> int" where "t_volume t \<equiv> fst (snd (snd t))"
abbreviation t_time :: "raw_tick \<Rightarrow> time_point" where "t_time t \<equiv> snd (snd (snd t))"

definition same_bar :: "int \<Rightarrow> raw_tick \<Rightarrow> raw_tick \<Rightarrow> bool" where
  "same_bar iv t u \<longleftrightarrow> elapsed_ms (t_time t) (t_time u) < iv"

function chunks :: "int \<Rightarrow> raw_tick list \<Rightarrow> raw_tick list list" where
  "chunks iv [] = []"
| "chunks iv (t # ts) = (t # takeWhile (same_bar iv t) ts) # chunks iv (dropWhile (same_bar iv t) ts)"
  by pat_completeness auto
termination by (relation "measure (length \<circ> snd)") (auto simp: le_imp_less_Suc length_dropWhile_le)

definition chunk_bar :: "raw_tick list \<Rightarrow> market_event" where
  "chunk_bar c = mk_market_event (t_time (hd c)) (t_symbol (hd c)) (t_price (hd c)) (foldl std_max (t_price (hd c)) (map t_price (tl c)))
     (foldl std_min (t_price (hd c)) (map t_price (tl c))) (t_price (last c)) (sum_list (map t_volume c))"

definition state_of :: "int \<Rightarrow> raw_tick list \<Rightarrow> bar_aggregator" where
  "state_of iv c = \<lparr>ba_interval = iv, ba_open = True, ba_start = t_time (hd c), ba_symbol = t_symbol (hd c), ba_o = t_price (hd c),
     ba_h = foldl std_max (t_price (hd c)) (map t_price (tl c)), ba_l = foldl std_min (t_price (hd c)) (map t_price (tl c)),
     ba_c = t_price (last c), ba_volume = sum_list (map t_volume c)\<rparr>"

lemma emit_state [simp]: "emit_bar (state_of iv c) = chunk_bar c"
  by (simp add: emit_bar_def state_of_def chunk_bar_def)

lemma start_state: "ba_interval a = iv \<Longrightarrow> start_bar sy px vol ts a = state_of iv [(sy, px, vol, ts)]"
  by (cases a) (simp add: start_bar_def state_of_def)

lemma tick_state:
  assumes "c \<noteq> []"
  shows "agg_on_tick sy px vol ts (state_of iv c) =
    (if same_bar iv (hd c) (sy, px, vol, ts) then (None, state_of iv (c @ [(sy, px, vol, ts)])) else (Some (chunk_bar c), state_of iv [(sy, px, vol, ts)]))"
proof -
  have "start_bar sy px vol ts (state_of iv c) = state_of iv [(sy, px, vol, ts)]" by (rule start_state) (simp add: state_of_def)
  then show ?thesis using assms by (simp add: agg_on_tick_def same_bar_def) (simp add: state_of_def not_le)
qed

lemma run_from:
  assumes "c \<noteq> []"
  shows "agg_run ts (state_of iv c) =
    chunk_bar (c @ takeWhile (same_bar iv (hd c)) ts) # map chunk_bar (chunks iv (dropWhile (same_bar iv (hd c)) ts))"
  using assms
proof (induction ts arbitrary: c)
  case Nil
  then show ?case by (simp add: agg_flush_def) (simp add: state_of_def)
next
  case (Cons t ts)
  obtain sy px vol tm where t: "t = (sy, px, vol, tm)" by (metis prod_cases4)
  show ?case using Cons.prems Cons.IH [of "c @ [t]"] Cons.IH [of "[t]"] by (simp add: t tick_state)
qed

text \<open>C19: The bars of a tick sequence are the aggregates of its consecutive chunks: every tick goes into exactly one bar, a bar starts at
  the first tick the interval has elapsed for, and has the first price as open, the last as close, the extremes as high and low and the
  volumes summed. The bar carries the symbol of its first tick, whatever the symbols of the others.\<close>

theorem bars_are_chunks: "agg_run ts (mk_bar_aggregator iv) = map chunk_bar (chunks iv ts) \<and> concat (chunks iv ts) = ts"
proof
  show "agg_run ts (mk_bar_aggregator iv) = map chunk_bar (chunks iv ts)"
  proof (cases ts)
    case Nil
    then show ?thesis by (simp add: agg_flush_def mk_bar_aggregator_def)
  next
    case (Cons t us)
    obtain sy px vol tm where t: "t = (sy, px, vol, tm)" by (metis prod_cases4)
    have "agg_on_tick sy px vol tm (mk_bar_aggregator iv) = (None, state_of iv [t])"
      using start_state [of "mk_bar_aggregator iv" iv sy px vol tm] by (simp add: agg_on_tick_def t) (simp add: mk_bar_aggregator_def)
    then show ?thesis using run_from [of "[t]" us iv] by (simp add: Cons t)
  qed
  show "concat (chunks iv ts) = ts" by (induction iv ts rule: chunks.induct) simp_all
qed

end
