(* ===== verification/Engine_Loops.thy ===== *)
theory Engine_Loops
  imports Engine Bar_Aggregator
begin

text \<open>
  What the engine does with one market event, \<open>src/engine/engine.cpp\<close>: bracket exits, the strategies' turn, the live handlers
  \<open>process_single_bar\<close>, \<open>process_single_tick\<close>, \<open>apply_l2_snapshot\<close> and \<open>apply_l2_update\<close>, the batch loops \<open>run\<close> and \<open>run_tick_data\<close>, the
  event dispatch of \<open>run_replay\<close>, and \<open>reset_for_next_trial\<close>. Progress reports, checkpoints and worker threads are left out. The dates that
  \<open>run\<close> parses are given as parsed.
\<close>

datatype data_event = De_Bar market_event | De_Tick tick_event | De_Update l2_update_event

definition de_recv :: "data_event \<Rightarrow> int" where
  "de_recv ev = (case ev of De_Bar m \<Rightarrow> recv_ns m | De_Tick t \<Rightarrow> recv_ns t | De_Update u \<Rightarrow> recv_ns u)"

subsection \<open>Strategies by position\<close>

text \<open>\<open>None\<close> is the primary strategy, \<open>Some i\<close> the additional strategy number \<open>i\<close>.\<close>

definition strat_at :: "nat option \<Rightarrow> 's engine \<Rightarrow> 's strat option" where
  "strat_at w e = (case w of None \<Rightarrow> e_strategy e | Some i \<Rightarrow> if i < length (e_extras e) then Some (snd (e_extras e ! i)) else None)"

definition put_strat :: "nat option \<Rightarrow> 's strat \<Rightarrow> 's engine \<Rightarrow> 's engine" where
  "put_strat w s e = (case w of None \<Rightarrow> e\<lparr>e_strategy := Some s\<rparr> | Some i \<Rightarrow> e\<lparr>e_extras := (e_extras e)[i := (fst (e_extras e ! i), s)]\<rparr>)"

definition strat_name :: "nat option \<Rightarrow> 's engine \<Rightarrow> string" where
  "strat_name w e = (case w of None \<Rightarrow> e_primary e | Some i \<Rightarrow> fst (e_extras e ! i))"

definition call_strategy :: "nat option \<Rightarrow> data_event \<Rightarrow> 's engine \<Rightarrow> order_event option \<times> 's engine" where
  "call_strategy w ev e = (case strat_at w e of None \<Rightarrow> (None, e)
     | Some s \<Rightarrow> (let (r, st) = (case ev of De_Bar m \<Rightarrow> so_on_market (sg_ops s) m (sg_state s) | De_Tick t \<Rightarrow> so_on_tick (sg_ops s) t (sg_state s)
           | De_Update u \<Rightarrow> so_on_l2_update (sg_ops s) u (sg_state s))
         in (r, put_strat w (s\<lparr>sg_state := st\<rparr>) e)))"

definition take_intents :: "nat option \<Rightarrow> 's engine \<Rightarrow> exit_intent list \<times> 's engine" where
  "take_intents w e = (case strat_at w e of None \<Rightarrow> ([], e)
     | Some s \<Rightarrow> (let (eis, st) = so_take_pending_exit_intents (sg_ops s) (sg_state s) in (eis, put_strat w (s\<lparr>sg_state := st\<rparr>) e)))"

definition register_strategy_exit_intent :: "nat option \<Rightarrow> string \<Rightarrow> order_event \<Rightarrow> 's engine \<Rightarrow> 's engine" where
  "register_strategy_exit_intent w name o1 e =
     (let (eis, e1) = take_intents w e in
      if oe_order_id o1 = 0 then e1
      else let net = (case map_of (positions (e_portfolio e1)) (oe_symbol o1) of None \<Rightarrow> 0 | Some p \<Rightarrow> qty p);
               plan = apply_default_exit_policy (cfg_exit_defaults (e_cfg e1)) o1 net eis
           in e1\<lparr>e_exits := fold (\<lambda>ei. register_pending (ei\<lparr>ei_opener := oe_order_id o1, ei_strategy := name\<rparr>)) plan (e_exits e1)\<rparr>)"

definition finalize_strategy_route :: "nat option \<Rightarrow> string \<Rightarrow> order_event \<Rightarrow> bool \<Rightarrow> 's engine \<Rightarrow> 's engine" where
  "finalize_strategy_route w name o1 halted e =
     (if halted then snd (take_intents w e)
      else if oe_order_id o1 = 0 \<or> get_order_status (oe_order_id o1) (e_tracker e) = Rejected
      then (let e1 = snd (take_intents w e) in notify_position_change_all (oe_symbol o1) (position_open (oe_symbol o1) (e_portfolio e1)) e1)
      else register_strategy_exit_intent w name o1 e)"

text \<open>The turn of one strategy: its answer to the event, routed and followed up. An additional strategy's name, and a non-empty
  primary name, is put on the order; \<open>force\<close> marks the handler that always puts it.\<close>

definition strategy_turn :: "nat option \<Rightarrow> bool \<Rightarrow> data_event \<Rightarrow> int \<Rightarrow> time_point \<Rightarrow> 's engine \<Rightarrow> 's eresult" where
  "strategy_turn w force ev rn ts e =
     (case call_strategy w ev e of (None, e1) \<Rightarrow> Inr e1
      | (Some o0, e1) \<Rightarrow>
         (let name = strat_name w e1; o1 = o0\<lparr>recv_ns := rn\<rparr>;
              o2 = (if w \<noteq> None \<or> force \<or> name \<noteq> [] then o1\<lparr>oe_strategy_name := name\<rparr> else o1)
          in ebind (route_order o2 ts False e1) (\<lambda>(ok, o3, e2). Inr (finalize_strategy_route w name o3 (\<not> ok) e2))))"

subsection \<open>Exits\<close>

text \<open>Bracket closes are routed one after the other; the flag tells that the engine halted.\<close>

fun route_closes :: "order_event list \<Rightarrow> time_point \<Rightarrow> int \<Rightarrow> 's engine \<Rightarrow> 's eresult_ok" where
  "route_closes [] ts rn e = Inr (False, e)"
| "route_closes (c # cs) ts rn e =
     ebind (route_order (c\<lparr>recv_ns := rn\<rparr>) ts True e) (\<lambda>(ok, o1, e1). if ok then route_closes cs ts rn e1 else Inr (True, e1))"

definition evaluate_exits :: "symbol \<Rightarrow> double \<Rightarrow> time_point \<Rightarrow> int \<Rightarrow> 's engine \<Rightarrow> 's eresult_ok" where
  "evaluate_exits sy px ts rn e = (case exit_on_price sy px ts (e_exits e) of (cs, m) \<Rightarrow> route_closes cs ts rn (e\<lparr>e_exits := m\<rparr>))"

definition evaluate_exits_bar :: "market_event \<Rightarrow> time_point \<Rightarrow> int \<Rightarrow> 's engine \<Rightarrow> 's eresult_ok" where
  "evaluate_exits_bar mk ts rn e = (case exit_on_bar (me_symbol mk) (me_open mk) (me_low mk) (me_high mk) (me_close mk) ts (e_exits e) of
     (cs, m) \<Rightarrow> route_closes cs ts rn (e\<lparr>e_exits := m\<rparr>))"

definition exits_for :: "data_event \<Rightarrow> time_point \<Rightarrow> 's engine \<Rightarrow> 's eresult_ok" where
  "exits_for ev ts e = (case ev of De_Bar m \<Rightarrow> evaluate_exits_bar m ts (recv_ns m) e | De_Tick t \<Rightarrow> evaluate_exits (te_symbol t) (te_price t) ts (recv_ns t) e
     | De_Update u \<Rightarrow> Inr (False, e))"

text \<open>\<open>dispatch_extras_on_market\<close> and \<open>dispatch_extras_on_tick\<close>, and the loop of \<open>apply_l2_update\<close>, which evaluates no exits.\<close>

fun dispatch_extras :: "data_event \<Rightarrow> time_point \<Rightarrow> nat list \<Rightarrow> 's engine \<Rightarrow> 's eresult" where
  "dispatch_extras ev ts [] e = Inr e"
| "dispatch_extras ev ts (i # is) e =
     (if e_halt e then Inr e
      else ebind (exits_for ev ts e) (\<lambda>(halted, e1). if halted then Inr e1
        else ebind (strategy_turn (Some i) True ev (de_recv ev) ts e1) (\<lambda>e2. if e_halt e2 then Inr e2 else dispatch_extras ev ts is e2)))"

definition all_extras :: "data_event \<Rightarrow> time_point \<Rightarrow> 's engine \<Rightarrow> 's eresult" where
  "all_extras ev ts e = dispatch_extras ev ts [0..<length (e_extras e)] e"

text \<open>The end of every handler: exits, then the primary strategy, then the others. The flag tells whether the strategies were reached.\<close>

definition decide :: "data_event \<Rightarrow> time_point \<Rightarrow> 's engine \<Rightarrow> 's eresult_ok" where
  "decide ev ts e = ebind (exits_for ev ts e) (\<lambda>(halted, e1).
     if halted \<or> e_strategy e1 = None \<or> e_halt e1 then Inr (False, e1)
     else ebind (strategy_turn None False ev (de_recv ev) ts e1) (\<lambda>e2.
       ebind (if e_halt e2 then Inr e2 else all_extras ev ts e2) (\<lambda>e3. Inr (True, e3))))"

definition note_market :: "market_event \<Rightarrow> 's engine \<Rightarrow> 's engine" where
  "note_market m e = feed_analytics (AE_Market m) (publish_event (AE_Market m) (eng_log (AE_Market m) e))"

definition note_tick :: "tick_event \<Rightarrow> 's engine \<Rightarrow> 's engine" where
  "note_tick t e = feed_analytics (AE_Tick t) (publish_event (AE_Tick t) (eng_log (AE_Tick t) e))"

definition drain_at_open :: "symbol \<Rightarrow> time_point \<Rightarrow> 's engine \<Rightarrow> 's eresult" where
  "drain_at_open sy ts e =
     ebind (if e_pending e \<noteq> [] \<and> oe_earliest_eligible_ts (fst (hd (e_pending e))) \<le> ts then recenter sy (e_mid e) False ts e else Inr e)
       (drain_pending (Some ts))"

definition take_flatten :: "'s engine \<Rightarrow> 's eresult" where
  "take_flatten e = (if e_flatten e then unwind_positions (e\<lparr>e_flatten := False\<rparr>) else Inr e)"

subsection \<open>Live handlers\<close>

definition process_single_bar :: "symbol \<Rightarrow> double \<Rightarrow> double \<Rightarrow> double \<Rightarrow> double \<Rightarrow> int \<Rightarrow> time_point \<Rightarrow> 's engine \<Rightarrow> 's eresult" where
  "process_single_bar sy opn high low cl vol ts e =
     (if e_halt e then Inr e
      else ebind (take_flatten e) (\<lambda>e1.
        let (rn, e2) = steady_now (advance_all ts e1); m = (mk_market_event ts sy opn high low cl vol)\<lparr>recv_ns := rn\<rparr>
        in ebind (drain_at_open sy ts (e2\<lparr>e_mid := opn, e_mark_symbol := sy\<rparr>)) (\<lambda>e3.
        if e_halt e3 then Inr e3
        else ebind (check_pending_stops opn high low ts (e3\<lparr>e_mid := cl, e_mark_symbol := sy\<rparr>)) (\<lambda>e4.
        ebind (sweep_resting_limits sy low high ts e4) (\<lambda>e5.
        if e_halt e5 then Inr e5
        else ebind (recenter sy (e_mid e5) True ts e5) (\<lambda>e6.
        ebind (check_pending_stops opn high low ts e6) (\<lambda>e7.
        if e_halt e7 then Inr e7
        else ebind (decide (De_Bar m) ts (note_market m e7)) (\<lambda>(_, e8). Inr e8))))))))"

definition process_single_tick :: "symbol \<Rightarrow> double \<Rightarrow> int \<Rightarrow> tick_side \<Rightarrow> time_point \<Rightarrow> 's engine \<Rightarrow> 's eresult" where
  "process_single_tick sy px vol sd ts e =
     (if e_halt e then Inr e
      else ebind (take_flatten e) (\<lambda>e1.
        let (rn, e2) = steady_now (advance_all ts e1); t = (mk_tick_event ts sy px vol sd)\<lparr>recv_ns := rn\<rparr>
        in ebind (recenter sy px True ts (e2\<lparr>e_mid := px, e_mark_symbol := sy\<rparr>)) (\<lambda>e3.
        ebind (drain_pending (Some ts) e3) (\<lambda>e4.
        if e_halt e4 then Inr e4
        else ebind (check_pending_stops px px px ts e4) (\<lambda>e5.
        if e_halt e5 then Inr e5
        else ebind (decide (De_Tick t) ts (note_tick t e5)) (\<lambda>(_, e6). Inr e6))))))"

fun convert_levels :: "l2_level list \<Rightarrow> (price \<times> quantity) list option" where
  "convert_levels [] = Some []"
| "convert_levels (l # ls) = (case price_from_double (l2_price l) of None \<Rightarrow> None
     | Some p \<Rightarrow> map_option ((#) (p, of_int (l2_quantity l))) (convert_levels ls))"

fun update_adapters :: "(adapter \<Rightarrow> adapter option) \<Rightarrow> (symbol, adapter) umap \<Rightarrow> (symbol, adapter) umap option" where
  "update_adapters f [] = Some []"
| "update_adapters f ((sy, a) # as) = (case f a of None \<Rightarrow> None | Some a' \<Rightarrow> map_option ((#) (sy, a')) (update_adapters f as))"

definition forward_l2 :: "(adapter \<Rightarrow> adapter option) \<Rightarrow> 's engine \<Rightarrow> 's eresult" where
  "forward_l2 f e = (case update_adapters f (e_adapters e) of None \<Rightarrow> Inl (Adapter_Failure Undefined_Conversion) | Some as \<Rightarrow> Inr (e\<lparr>e_adapters := as\<rparr>))"

definition depth_pairs :: "l2_level list \<Rightarrow> (double \<times> double) list" where
  "depth_pairs ls = map (\<lambda>l. (l2_price l, double_of_i64 (l2_quantity l))) ls"

definition eng_apply_l2_snapshot :: "symbol \<Rightarrow> l2_level list \<Rightarrow> l2_level list \<Rightarrow> 's engine \<Rightarrow> 's eresult" where
  "eng_apply_l2_snapshot sy bids0 asks0 e =
     (let bids = take kL2SnapshotMaxLevels bids0; asks = take kL2SnapshotMaxLevels asks0 in
      ebind (engine_book sy (e\<lparr>e_seeded := List.insert sy (e_seeded e)\<rparr>)) (\<lambda>(r, e1).
      case (convert_levels bids, convert_levels asks) of
        (Some bs, Some as) \<Rightarrow>
          (let (b, c) = apply_l2_snapshot bs as (bh_book (e_heap e1) r, e_ids e1)
           in ebind (forward_l2 (adapter_l2_snapshot sy (depth_pairs bids) (depth_pairs asks)) (e1\<lparr>e_heap := set_book r b (e_heap e1), e_ids := c\<rparr>)) (\<lambda>e2.
              let (now, e3) = wall_now e2; ev = AE_Snapshot (mk_l2_snapshot_event now sy bids asks) in Inr (publish_event ev (eng_log ev e3))))
      | _ \<Rightarrow> Inl (Adapter_Failure Undefined_Conversion)))"

definition l2_turn :: "l2_update_event \<Rightarrow> 's engine \<Rightarrow> 's eresult" where
  "l2_turn u e =
     (let ts = timestamp u; rn = recv_ns u in
      if e_pause e \<or> e_halt e then Inr e
      else ebind (drain_pending (Some ts) (advance_all ts e)) (\<lambda>e1.
        if e_halt e1 then Inr e1
        else ebind (evaluate_exits (lu_symbol u) (if e_mid e1 > 0 then e_mid e1 else lu_price u) ts rn e1) (\<lambda>(halted, e2).
          if halted then Inr e2
          else ebind (strategy_turn None True (De_Update u) rn ts e2) (\<lambda>e3. if e_halt e3 then Inr e3 else all_extras (De_Update u) ts e3))))"

definition eng_apply_l2_update :: "symbol \<Rightarrow> tick_side \<Rightarrow> double \<Rightarrow> int \<Rightarrow> 's engine \<Rightarrow> 's eresult" where
  "eng_apply_l2_update sy sd px q e = ebind (engine_book sy e) (\<lambda>(r, e1).
     case price_from_double px of None \<Rightarrow> Inl (Adapter_Failure Undefined_Conversion)
     | Some p \<Rightarrow>
        (let (b, c) = apply_l2_update (if sd = Tick_Bid then Side_Buy else Side_Sell) p (of_int q) (bh_book (e_heap e1) r, e_ids e1)
         in ebind (forward_l2 (adapter_l2_update sy (if sd = Tick_Bid then Buy else Sell) px (double_of_i64 q))
                (e1\<lparr>e_heap := set_book r b (e_heap e1), e_ids := c\<rparr>)) (\<lambda>e2.
            let (ts, e3) = wall_now e2; (rn, e4) = steady_now e3; u = (mk_l2_update_event ts sy sd px q)\<lparr>recv_ns := rn\<rparr>
            in l2_turn u (publish_event (AE_Update u) (eng_log (AE_Update u) e4)))))"

subsection \<open>The batch loop over bars\<close>

text \<open>The time of a bar: the stored time, else the parsed date, when it is later than the previous bar's; else one millisecond later.\<close>

definition resolve_bar_ts :: "time_point \<Rightarrow> nat \<Rightarrow> time_point \<Rightarrow> time_point \<Rightarrow> time_point option \<Rightarrow> time_point" where
  "resolve_bar_ts base i prev stored parsed =
     (if stored \<noteq> 0 \<and> (i = 0 \<or> stored > prev) then stored
      else case parsed of Some p \<Rightarrow> if i = 0 \<or> p > prev then p else if i = 0 then base else prev + 1000000
      | None \<Rightarrow> if i = 0 then base else prev + 1000000)"

definition run_bar :: "market_event \<Rightarrow> 's engine \<Rightarrow> 's eresult_ok" where
  "run_bar m0 e0 =
     (let (rn, e) = steady_now e0; m = m0\<lparr>recv_ns := rn\<rparr>; ts = timestamp m; sy = me_symbol m in
      ebind (drain_at_open sy ts (e\<lparr>e_mid := me_open m\<rparr>)) (\<lambda>e1.
      if e_halt e1 then Inr (False, e1)
      else ebind (check_pending_stops (me_open m) (me_high m) (me_low m) ts (e1\<lparr>e_mid := me_close m\<rparr>)) (\<lambda>e2.
      ebind (sweep_resting_limits sy (me_low m) (me_high m) ts e2) (\<lambda>e3.
      if e_halt e3 then Inr (False, e3)
      else ebind (recenter sy (e_mid e3) True ts e3) (\<lambda>e4. decide (De_Bar m) ts (note_market m e4))))))"

fun run_bars :: "time_point \<Rightarrow> nat \<Rightarrow> time_point \<Rightarrow> (market_event \<times> time_point option) list \<Rightarrow> 's engine \<Rightarrow> 's eresult" where
  "run_bars base i prev [] e = Inr e"
| "run_bars base i prev ((m, parsed) # bars) e =
     (if e_halt e then Inr e
      else let ts = resolve_bar_ts base i prev (timestamp m) parsed
           in ebind (run_bar (m\<lparr>timestamp := ts\<rparr>) e) (\<lambda>(more, e1). if more then run_bars base (i + 1) ts bars e1 else Inr e1))"

definition run :: "time_point \<Rightarrow> (market_event \<times> time_point option) list \<Rightarrow> 's engine \<Rightarrow> 's eresult" where
  "run base bars e = ebind (run_bars base 0 0 bars (clear_pending_state (e\<lparr>e_halt := False\<rparr>))) (\<lambda>e1.
     ebind (drain_pending None e1) (\<lambda>e2. Inr (cancel_day_orders e2)))"

subsection \<open>The batch loop over ticks\<close>

text \<open>A bar that the aggregator emits: it is not logged, and the strategies see it without a receive time.\<close>

definition on_agg_bar :: "market_event \<Rightarrow> 's engine \<Rightarrow> 's eresult" where
  "on_agg_bar m e0 =
     (let (rn, e) = steady_now e0; ev = AE_Market (m\<lparr>recv_ns := rn\<rparr>); ts = timestamp m in
      ebind (evaluate_exits_bar m ts rn (feed_analytics ev (publish_event ev e))) (\<lambda>(halted, e1).
      if halted \<or> e_strategy e1 = None \<or> e_halt e1 then Inr e1
      else ebind (strategy_turn None False (De_Bar m) rn ts e1) (\<lambda>e2. if e_halt e2 then Inr e2 else all_extras (De_Bar m) ts e2)))"

definition aggregate_tick :: "tick_event \<Rightarrow> bar_aggregator \<Rightarrow> 's engine \<Rightarrow> engine_error + bool \<times> bar_aggregator \<times> 's engine" where
  "aggregate_tick t ag e = (case agg_on_tick (te_symbol t) (te_price t) (te_quantity t) (timestamp t) ag of (None, ag') \<Rightarrow> Inr (True, ag', e)
     | (Some b, ag') \<Rightarrow> ebind (on_agg_bar b e) (\<lambda>e1. Inr (True, ag', e1)))"

definition tick_turn :: "tick_event \<Rightarrow> bar_aggregator \<Rightarrow> 's engine \<Rightarrow> engine_error + bool \<times> bar_aggregator \<times> 's engine" where
  "tick_turn t ag e = (let ts = timestamp t; rn = recv_ns t in
     ebind (evaluate_exits (te_symbol t) (te_price t) ts rn e) (\<lambda>(halted, e1).
     if halted then Inr (False, ag, e1)
     else if e_strategy e1 = None then Inl Null_Strategy
     else ebind (strategy_turn None False (De_Tick t) rn ts e1) (\<lambda>e2.
     if e_halt e2 then Inr (False, ag, e2)
     else ebind (all_extras (De_Tick t) ts e2) (aggregate_tick t ag))))"

definition run_tick :: "symbol \<Rightarrow> double \<Rightarrow> int \<Rightarrow> tick_side \<Rightarrow> time_point \<Rightarrow> bar_aggregator \<Rightarrow> 's engine \<Rightarrow> engine_error + bool \<times> bar_aggregator \<times> 's engine" where
  "run_tick sy px vol sd ts ag e =
     ebind (recenter sy px True ts (e\<lparr>e_mid := px\<rparr>)) (\<lambda>e1.
     ebind (drain_pending (Some ts) e1) (\<lambda>e2.
     if e_halt e2 then Inr (False, ag, e2)
     else ebind (check_pending_stops px px px ts e2) (\<lambda>e3.
     if e_halt e3 then Inr (False, ag, e3)
     else let (rn, e4) = steady_now e3; t = (mk_tick_event ts sy px vol sd)\<lparr>recv_ns := rn\<rparr> in tick_turn t ag (note_tick t e4))))"

fun run_ticks :: "(raw_tick \<times> tick_side) list \<Rightarrow> bar_aggregator \<Rightarrow> 's engine \<Rightarrow> engine_error + bar_aggregator \<times> 's engine" where
  "run_ticks [] ag e = Inr (ag, e)"
| "run_ticks (((sy, px, vol, ts), sd) # xs) ag e =
     (if e_halt e then Inr (ag, e)
      else ebind (run_tick sy px vol sd ts ag e) (\<lambda>(more, ag', e'). if more then run_ticks xs ag' e' else Inr (ag', e')))"

definition run_tick_data :: "(raw_tick \<times> tick_side) list \<Rightarrow> 's engine \<Rightarrow> 's eresult" where
  "run_tick_data ticks e = ebind (run_ticks ticks (mk_bar_aggregator 1000) ((clear_pending_state e)\<lparr>e_halt := False\<rparr>)) (\<lambda>(ag, e1).
     ebind (case agg_flush ag of None \<Rightarrow> Inr e1 | Some b \<Rightarrow> on_agg_bar b e1) (drain_pending None))"

subsection \<open>Replay\<close>

definition refeed :: "any_event \<Rightarrow> 's engine \<Rightarrow> 's eresult" where
  "refeed ev e = (let e1 = publish_event ev e in
     case an_on_event (cfg_ln (e_cfg e1)) ev (e_analytics e1) of None \<Rightarrow> Inl Undefined_Event | Some a \<Rightarrow> Inr (e1\<lparr>e_analytics := a\<rparr>))"

definition replay_event :: "any_event \<Rightarrow> 's engine \<Rightarrow> 's eresult" where
  "replay_event ev e = (case ev of
     AE_Market m \<Rightarrow>
       (let ts = timestamp m; sy = me_symbol m in
        ebind (drain_at_open sy ts (e\<lparr>e_mid := me_open m\<rparr>)) (\<lambda>e1.
        if e_halt e1 then Inr e1
        else ebind (check_pending_stops (me_open m) (me_high m) (me_low m) ts (e1\<lparr>e_mid := me_close m\<rparr>)) (\<lambda>e2.
        if e_halt e2 then Inr e2
        else ebind (sweep_resting_limits sy (me_low m) (me_high m) ts e2) (\<lambda>e3.
        if e_halt e3 then Inr e3
        else ebind (recenter sy (e_mid e3) True ts e3) (\<lambda>e4. ebind (refeed ev e4) (\<lambda>e5. ebind (decide (De_Bar m) ts e5) (\<lambda>(_, e6). Inr e6)))))))
   | AE_Tick t \<Rightarrow>
       (let ts = timestamp t; px = te_price t in
        ebind (drain_pending (Some ts) (e\<lparr>e_mid := px\<rparr>)) (\<lambda>e1.
        if e_halt e1 then Inr e1
        else ebind (check_pending_stops px px px ts e1) (\<lambda>e2.
        if e_halt e2 then Inr e2
        else ebind (refeed ev e2) (\<lambda>e3. ebind (decide (De_Tick t) ts e3) (\<lambda>(_, e4). Inr e4)))))
   | _ \<Rightarrow> refeed ev e)"

fun replay_events :: "any_event list \<Rightarrow> 's engine \<Rightarrow> 's eresult" where
  "replay_events [] e = Inr e"
| "replay_events (ev # evs) e = (if e_halt e then Inr e else ebind (replay_event ev e) (replay_events evs))"

definition run_replay :: "any_event list \<Rightarrow> 's engine \<Rightarrow> 's eresult" where
  "run_replay evs e = ebind (replay_events evs (clear_pending_state (e\<lparr>e_halt := False\<rparr>))) (\<lambda>e1.
     ebind (drain_pending None e1) (\<lambda>e2. Inr (cancel_day_orders e2)))"

subsection \<open>Set-up and reuse\<close>

definition set_strategy :: "'s strat \<Rightarrow> 's engine \<Rightarrow> 's engine" where
  "set_strategy s e = e\<lparr>e_strategy := Some (fold (\<lambda>(sy, p). with_state (so_set_position_open (sg_ops s) sy (\<bar>qty p\<bar> > eps12))) (positions (e_portfolio e)) s)\<rparr>"

definition add_strategy :: "'s strat \<Rightarrow> string \<Rightarrow> 's engine \<Rightarrow> 's engine" where
  "add_strategy s name e = e\<lparr>e_extras := e_extras e @ [(name, s)]\<rparr>"

definition reset_for_next_trial :: "'s engine \<Rightarrow> 's engine" where
  "reset_for_next_trial e =
     (let balance = cfg_initial_balance (e_cfg e); initial = (if balance > 0 then balance else Fin 10000); (rg, h) = rg_clear (e_registry e, e_heap e)
      in e\<lparr>e_portfolio := portfolio_reset (e_portfolio e), e_analytics := analytics_reset initial (e_analytics e), e_exits := exit_reset (e_exits e),
           e_tracker := tracker_reset (e_tracker e), e_risk := risk_reset (e_risk e), e_mid := 0, e_mark_symbol := [], e_registry := rg, e_heap := h,
           e_mm := mm_reset (e_mm e), e_adverse := as_reset (e_adverse e), e_specs := [], e_seeded := [], e_meta := []\<rparr>)"

end
