(* ===== verification/Engine_Audit.thy ===== *)
theory Engine_Audit
  imports Engine_Loops
begin

text \<open>
  What every engine operation keeps. \<open>engine_frame\<close>, \<open>engine_notes\<close> and \<open>engine_relation\<close> are the interfaces of relations between engine states that
  the elementary steps respect: silent steps; logging the events that trade nothing; logging and feeding of any event other than a fill,
  booking a fill, and the halt. Their lemmas carry such a relation through every operation of \<open>Engine\<close> and \<open>Engine_Loops\<close>; theory
  \<open>Engine_Trail\<close> interprets them for the audit trail and for the halt.
\<close>

definition view :: "'s engine \<Rightarrow> portfolio \<times> analytics \<times> any_event list \<times> bool" where
  "view e = (e_portfolio e, e_analytics e, e_logged e, e_halt e)"

definition follows :: "('s engine \<Rightarrow> 's engine \<Rightarrow> bool) \<Rightarrow> ('a \<Rightarrow> 's engine) \<Rightarrow> 's engine \<Rightarrow> engine_error + 'a \<Rightarrow> bool" where
  "follows R p e m \<longleftrightarrow> (\<forall>x. m = Inr x \<longrightarrow> R e (p x))"

definition quiet :: "any_event \<Rightarrow> bool" where
  "quiet ev \<longleftrightarrow> type_of_event ev \<noteq> Ev_Fill \<and> type_of_event ev \<noteq> Ev_Funding"

definition harmless :: "any_event \<Rightarrow> bool" where
  "harmless ev \<longleftrightarrow> type_of_event ev \<in> {Ev_L2_Snapshot, Ev_L2_Update, Ev_Cancel, Ev_Amend}"

lemma ebind_simps [simp]: "ebind (Inr x) f = f x" "ebind (Inl y) f = Inl y"
  by (simp_all add: ebind_def)

lemma ebind_Inr: "ebind m f = Inr y \<longleftrightarrow> (\<exists>x. m = Inr x \<and> f x = Inr y)"
  by (cases m) simp_all

lemma follows_simps [simp]: "follows R p e (Inl y)" "follows R p e (Inr x) \<longleftrightarrow> R e (p x)"
  by (simp_all add: follows_def)

lemma followsD: "follows R p e m \<Longrightarrow> m = Inr x \<Longrightarrow> R e (p x)"
  by (simp add: follows_def)

lemma quiet_simps [simp]:
  "quiet (AE_Market m)" "quiet (AE_Tick t)" "quiet (AE_Order o1)" "quiet (AE_Cancel c)" "quiet (AE_Amend m')" "quiet (AE_Rejection r)"
  "quiet (AE_Snapshot s)" "quiet (AE_Update u)" "quiet (AE_Signal g)" "\<not> quiet (AE_Fill f)" "\<not> quiet (AE_Funding fe)"
  by (simp_all add: quiet_def type_of_event_def)

lemma harmless_simps [simp]: "harmless (AE_Snapshot s)" "harmless (AE_Update u)" "harmless (AE_Cancel c)" "harmless (AE_Amend m)"
  by (simp_all add: harmless_def type_of_event_def)

lemma harmless_quiet: "harmless ev \<Longrightarrow> quiet ev"
  by (auto simp: harmless_def quiet_def)

lemma publish_quiet [simp]: "quiet ev \<Longrightarrow> publish_event ev e = e" "publish_event (AE_Fill f) e = e"
  by (cases ev; simp add: publish_event_def) (simp add: publish_event_def)

subsection \<open>Silent steps\<close>

lemma view_updates [simp]:
  "view (e\<lparr>e_registry := a\<rparr>) = view e" "view (e\<lparr>e_heap := b\<rparr>) = view e" "view (e\<lparr>e_adapters := c\<rparr>) = view e" "view (e\<lparr>e_ids := d\<rparr>) = view e"
  "view (e\<lparr>e_reads := f\<rparr>) = view e" "view (e\<lparr>e_latency := g\<rparr>) = view e" "view (e\<lparr>e_strategy := h\<rparr>) = view e" "view (e\<lparr>e_extras := i\<rparr>) = view e"
  "view (e\<lparr>e_tracker := j\<rparr>) = view e" "view (e\<lparr>e_adverse := k\<rparr>) = view e" "view (e\<lparr>e_risk := l\<rparr>) = view e" "view (e\<lparr>e_mm := m\<rparr>) = view e"
  "view (e\<lparr>e_mid := n\<rparr>) = view e" "view (e\<lparr>e_mark_symbol := p\<rparr>) = view e" "view (e\<lparr>e_specs := q\<rparr>) = view e" "view (e\<lparr>e_seeded := r\<rparr>) = view e"
  "view (e\<lparr>e_exits := s\<rparr>) = view e" "view (e\<lparr>e_stops := t\<rparr>) = view e" "view (e\<lparr>e_pending := u\<rparr>) = view e" "view (e\<lparr>e_seq := v\<rparr>) = view e"
  "view (e\<lparr>e_day_ids := w\<rparr>) = view e" "view (e\<lparr>e_meta := x\<rparr>) = view e" "view (e\<lparr>e_pause := y\<rparr>) = view e" "view (e\<lparr>e_flatten := z\<rparr>) = view e"
  by (simp_all add: view_def)

lemma view_silent [simp]:
  "view (snd (wall_now e)) = view e" "view (snd (steady_now e)) = view e" "view (track i st e) = view e" "view (snd (next_id e)) = view e"
  "view (put_adapter sy ah e) = view e" "view (register_order_meta o1 e) = view e" "view (snd (resolve_instrument_spec sy e)) = view e"
  "view (defer_order o1 e) = view e" "view (note_day_order o1 e) = view e" "view (snd (take_fills sy e)) = view e"
  "view (notify_position_change_all sy b e) = view e" "view (dispatch_fill_to_strategy f e) = view e" "view (put_strat w s e) = view e"
  by (auto simp: wall_now_def steady_now_def track_def next_id_def order_id_next_def put_adapter_def register_order_meta_def resolve_instrument_spec_def
      defer_order_def note_day_order_def take_fills_def notify_position_change_all_def dispatch_fill_to_strategy_def put_strat_def Let_def
      split: option.split prod.split)

lemma view_strategy [simp]: "view (snd (call_strategy w ev e)) = view e" "view (snd (take_intents w e)) = view e"
  by (auto simp: call_strategy_def take_intents_def split: option.split prod.split)

lemma view_finalize [simp]: "view (register_strategy_exit_intent w name o1 e) = view e" "view (finalize_strategy_route w name o1 halted e) = view e"
proof -
  obtain eis e1 where t: "take_intents w e = (eis, e1)" by fastforce
  have v: "view e1 = view e" using view_strategy(2) [of w e] by (simp add: t)
  show a: "view (register_strategy_exit_intent w name o1 e) = view e" by (simp add: register_strategy_exit_intent_def t Let_def v)
  show "view (finalize_strategy_route w name o1 halted e) = view e" by (simp add: finalize_strategy_route_def a t v Let_def)
qed

lemma view_pairs:
  "wall_now e = (t, e') \<Longrightarrow> view e' = view e" "steady_now e = (n, e') \<Longrightarrow> view e' = view e" "next_id e = (i, e') \<Longrightarrow> view e' = view e"
  "take_fills sy e = (fs, e') \<Longrightarrow> view e' = view e" "resolve_instrument_spec sy e = (sp, e') \<Longrightarrow> view e' = view e"
  "call_strategy w ev e = (r, e') \<Longrightarrow> view e' = view e"
  by (metis snd_conv view_silent view_strategy)+

lemma view_fold: "(\<And>x e. view (g x e) = view e) \<Longrightarrow> view (fold g xs e) = view e"
  by (induction xs arbitrary: e) simp_all

lemma view_advance [simp]: "view (advance_all ts e) = view e" "view (cancel_day_orders e) = view e"
  unfolding advance_all_def cancel_day_orders_def by (rule view_fold; auto split: option.split)+

lemma view_admit [simp]: "view (snd (snd (admit_order o0 e))) = view e"
proof -
  obtain i e1 where n: "next_id e = (i, e1)" by fastforce
  obtain sp e3 where s: "resolve_instrument_spec (oe_symbol o0) (register_order_meta (o0\<lparr>oe_order_id := i\<rparr>) (track i Pending e1)) = (sp, e3)" by fastforce
  have "view e3 = view e" using view_pairs(5) [OF s] view_pairs(3) [OF n] by simp
  then show ?thesis by (simp add: admit_order_def n s Let_def split: option.split prod.split)
qed

lemma view_book: "engine_book sy e = Inr (r, e') \<Longrightarrow> view e' = view e"
  by (auto simp: engine_book_def split: sum.splits)

lemma view_adapter: "resolve_adapter sy e = Inr (a, e') \<Longrightarrow> view e' = view e"
  by (auto simp: resolve_adapter_def ebind_Inr Let_def dest!: view_book split: option.splits)

lemma view_submit: "submit_to_adapter o1 e = Inr e' \<Longrightarrow> view e' = view e"
  using view_silent(2) by (auto simp: submit_to_adapter_def ebind_Inr Let_def steady_now_def dest!: view_adapter split: prod.splits)

lemma view_latency: "cancel_latency i a e = Inr (lat, e') \<Longrightarrow> view e' = view e"
  by (auto simp: cancel_latency_def split: if_splits option.splits)

lemma view_forward: "forward_l2 f e = Inr e' \<Longrightarrow> view e' = view e"
  by (auto simp: forward_l2_def split: option.splits)

subsection \<open>Relations that every operation respects\<close>

text \<open>The frame: a transitive relation that ignores silent changes.\<close>

locale engine_frame =
  fixes R :: "'s engine \<Rightarrow> 's engine \<Rightarrow> bool"
  assumes R_trans: "R a b \<Longrightarrow> R b c \<Longrightarrow> R a c"
    and R_view: "view b = view a \<Longrightarrow> R a b"
begin

lemma R_refl: "R e e"
  by (rule R_view) simp

text \<open>Silent changes before and after a step do not matter.\<close>

lemma R_after: "R a b \<Longrightarrow> view c = view b \<Longrightarrow> R a c"
  using R_trans R_view by blast

lemma R_before: "R b c \<Longrightarrow> view b = view a \<Longrightarrow> R a c"
  using R_trans R_view by blast

lemma follows_bind:
  assumes "follows R p e m" "\<And>x. m = Inr x \<Longrightarrow> follows R q (p x) (f x)"
  shows "follows R q e (ebind m f)"
  using assms R_trans unfolding follows_def ebind_Inr by blast

lemma follows_silent:
  assumes "\<And>x. m = Inr x \<Longrightarrow> view (p x) = view e" "\<And>x. m = Inr x \<Longrightarrow> follows R q (p x) (f x)"
  shows "follows R q e (ebind m f)"
  using assms R_before unfolding follows_def ebind_Inr by metis

lemma follows_from: "follows R p b m \<Longrightarrow> view b = view a \<Longrightarrow> follows R p a m"
  using R_before unfolding follows_def by blast

lemma follows_after: "R a b \<Longrightarrow> follows R p b m \<Longrightarrow> follows R p a m"
  using R_trans unfolding follows_def by blast

lemma step_then: "follows R p e m \<Longrightarrow> (\<And>x. view (q (f x)) = view (p x)) \<Longrightarrow> follows R q e (ebind m (\<lambda>x. Inr (f x)))"
  unfolding follows_def ebind_Inr by (metis R_after sum.inject(2))

lemma drop_flag: "follows R snd e m \<Longrightarrow> follows R id e (ebind m (\<lambda>(ok, e1). Inr e1))"
  by (auto simp: follows_def ebind_Inr)

lemma then_guard: "follows R id e m \<Longrightarrow> (\<And>e1. follows R id e1 (f e1)) \<Longrightarrow> follows R id e (ebind m (\<lambda>e1. if e_halt e1 then Inr e1 else f e1))"
  by (rule follows_bind [where p = id]) (auto simp: R_refl)

lemma then_step: "follows R id e m \<Longrightarrow> (\<And>e1. follows R q e1 (f e1)) \<Longrightarrow> follows R q e (ebind m f)"
  by (rule follows_bind [where p = id]) auto

end

text \<open>Relations that also allow the events of depth, cancels and amendments, none of which trades.\<close>

locale engine_notes = engine_frame R for R :: "'s engine \<Rightarrow> 's engine \<Rightarrow> bool" +
  assumes R_note: "harmless ev \<Longrightarrow> R e (eng_log ev e)"
    and R_note_feed: "harmless ev \<Longrightarrow> R e (feed_analytics ev e)"
begin

lemma note_harmless: "harmless ev \<Longrightarrow> view b = view e \<Longrightarrow> R e (feed_analytics ev (eng_log ev b))"
  using R_before [OF R_trans [OF R_note R_note_feed]] by blast

lemma note_cancel: "R e (note_cancel sy i t e)" "R e (note_amend sy i px q e)"
  by (auto simp: note_cancel_def note_amend_def Let_def split: prod.split intro!: note_harmless dest: view_pairs(1))

lemma cancel: "follows R snd e (eng_cancel_order sy i t e)"
proof -
  have d: "view (snd (drop_stop i e)) = view e" for e :: "'s engine" by (simp add: drop_stop_def Let_def)
  have n: "R e (if c then note_cancel sy i t e4 else e4)" if "view e4 = view e" for c e e4
    using R_before [OF note_cancel(1) that] R_view [OF that] by simp
  have l: "follows R snd e1 (ebind (cancel_latency i a e1) (\<lambda>(lat, e2).
     let (found, ah) = adapter_cancel i lat a (e_heap e2); e3 = put_adapter sy ah e2; (cancelled, e4) = (if found then (True, e3) else drop_stop i e3)
     in Inr (cancelled, if cancelled then note_cancel sy i t e4 else e4)))" for a e1
  proof (rule follows_silent [where p = snd])
    show "view (snd x) = view e1" if "cancel_latency i a e1 = Inr x" for x using that view_latency by (cases x) fastforce
    fix x :: "int option \<times> 's engine"
    obtain lat e2 where x: "x = (lat, e2)" by (cases x)
    obtain found ah where f: "adapter_cancel i lat a (e_heap e2) = (found, ah)" by (cases "adapter_cancel i lat a (e_heap e2)")
    obtain c e4 where c: "(if found then (True, put_adapter sy ah e2) else drop_stop i (put_adapter sy ah e2)) = (c, e4)" by (metis surj_pair)
    have "view e4 = view e2" using c d [of "put_adapter sy ah e2"] by (cases found) auto
    from n [OF this, of c] show "follows R snd (snd x) (case x of (lat, e2) \<Rightarrow>
     let (found, ah) = adapter_cancel i lat a (e_heap e2); e3 = put_adapter sy ah e2; (cancelled, e4) = (if found then (True, e3) else drop_stop i e3)
     in Inr (cancelled, if cancelled then note_cancel sy i t e4 else e4))"
      unfolding x prod.case f Let_def c follows_simps snd_conv .
  qed
  show ?thesis unfolding eng_cancel_order_def 
    by (rule follows_silent [where p = snd], metis prod.collapse view_adapter, unfold case_prod_unfold, rule l [unfolded case_prod_unfold])
qed

lemma modify: "follows R snd e (eng_modify_order sy i px q e)"
proof (cases "e_halt e \<or> e_pause e")
  case False
  have n: "R e1 (if ok then note_amend sy i px q (put_adapter sy ah e1) else put_adapter sy ah e1)" for ok ah e1
    using R_before [OF note_cancel(2), of "put_adapter sy ah e1" e1] R_view [of "put_adapter sy ah e1" e1] by simp
  have "follows R snd e1 (ebind m (\<lambda>(ok, ah). let e2 = put_adapter sy ah e1 in Inr (ok, if ok then note_amend sy i px q e2 else e2)))" for e1 m
    by (cases m) (auto simp: Let_def n split: prod.split simp del: if_split)
  then have "follows R snd e (ebind (resolve_adapter sy e) (\<lambda>(a, e1). ebind (adapter_modify i px q a (e_heap e1)) (\<lambda>(ok, ah).
      let e2 = put_adapter sy ah e1 in Inr (ok, if ok then note_amend sy i px q e2 else e2))))"
    by (intro follows_silent [where p = snd]) (auto split: prod.split dest: view_adapter)
  then show ?thesis using False by (simp add: eng_modify_order_def)
qed (simp add: eng_modify_order_def R_refl)

lemma l2_snapshot: "follows R id e (eng_apply_l2_snapshot sy bids asks e)"
proof -
  have n: "R e2 (eng_log (AE_Snapshot s) e3)" if "view e3 = view e2" for s e2 e3 by (rule R_before [OF R_note that]) simp
  have b: "follows R id e1 (ebind (forward_l2 f (e1\<lparr>e_heap := h, e_ids := c\<rparr>)) (\<lambda>e2.
      case wall_now e2 of (now, e3) \<Rightarrow> Inr (eng_log (AE_Snapshot (mk_l2_snapshot_event now sy bs as)) e3)))" for e1 f h c bs as
    by (rule follows_silent [where p = id]) (auto simp: wall_now_def intro!: n dest: view_forward)
  show ?thesis unfolding eng_apply_l2_snapshot_def Let_def
    by (rule follows_silent [where p = snd]) (auto simp: b split: prod.split option.split dest: view_book)
qed

lemma l2_update:
  assumes "\<And>u e. follows R id e (l2_turn u e)"
  shows "follows R id e (eng_apply_l2_update sy sd px q e)"
proof -
  have l: "follows R id e2 (l2_turn u (eng_log (AE_Update u) e4))" if "view e4 = view e2" for u e2 e4
    by (rule follows_after [OF R_before [OF R_note that] assms]) simp
  have b: "follows R id e1 (ebind (forward_l2 f (e1\<lparr>e_heap := h, e_ids := c\<rparr>)) (\<lambda>e2. case wall_now e2 of (ts, e3) \<Rightarrow> (case steady_now e3 of (rn, e4) \<Rightarrow>
      l2_turn ((mk_l2_update_event ts sy sd' px q)\<lparr>recv_ns := rn\<rparr>) (eng_log (AE_Update ((mk_l2_update_event ts sy sd' px q)\<lparr>recv_ns := rn\<rparr>)) e4))))" for e1 f h c sd'
    by (rule follows_silent [where p = id]) (auto simp: wall_now_def steady_now_def intro!: l dest: view_forward)
  show ?thesis unfolding eng_apply_l2_update_def
    by (rule follows_silent [where p = snd]) (auto simp: b Let_def split: prod.split option.split dest: view_book)
qed

end

text \<open>Relations that every operation respects.\<close>

locale engine_relation = engine_frame R for R :: "'s engine \<Rightarrow> 's engine \<Rightarrow> bool" +
  assumes R_log: "quiet ev \<Longrightarrow> R e (eng_log ev e)"
    and R_feed: "quiet ev \<Longrightarrow> R e (feed_analytics ev e)"
    and R_fill: "R e (snd (book_fill f e))"
    and R_halt: "R e (trigger_halt e)"

sublocale engine_relation \<subseteq> engine_notes R
  by unfold_locales (simp_all add: R_log R_feed harmless_quiet)

context engine_relation
begin

lemma note_event: "quiet ev \<Longrightarrow> view b = view e \<Longrightarrow> R e (feed_analytics ev (eng_log ev b))"
  using R_before [OF R_trans [OF R_log R_feed]] by blast

lemma note_order: "R e (note_order o1 e)"
  by (simp add: note_order_def note_event)

lemma reject: "R e (reject_order o1 t e)"
  unfolding reject_order_def Let_def by (rule R_after [OF R_log]) simp_all

lemma fills: "R e (fold (\<lambda>f e. snd (book_fill f e)) fs e)"
  by (induction fs arbitrary: e) (auto intro: R_refl R_trans [OF R_fill])

lemma unwind_one: "follows R id e (unwind_one x e)"
proof (cases x)
  case (Pair sy q)
  obtain now e1 where w: "wall_now e = (now, e1)" by fastforce
  obtain i e2 where n: "next_id e1 = (i, e2)" by fastforce
  have v: "view e2 = view e" using view_silent(1) [of e] view_silent(4) [of e1] by (simp add: w n)
  show ?thesis unfolding Pair unwind_one_def prod.case w n Let_def
  proof (rule follows_from [OF _ v], rule follows_bind [where p = id])
    show "follows R id e2 (submit_to_adapter o1 (note_order o1 e2))" for o1
      unfolding follows_def id_apply by (blast intro: R_after [OF note_order] view_submit)
    show "follows R id (id e3) (case take_fills sy e3 of (fs, e4) \<Rightarrow> Inr (fold (\<lambda>f e. snd (book_fill f e)) fs e4))" for e3
      by (auto split: prod.split intro: R_before [OF fills] view_pairs)
  qed
qed

lemma unwind_all: "follows R id e (unwind_all xs e)"
  by (induction xs arbitrary: e) (auto intro: R_refl follows_bind [OF unwind_one])

lemma unwind: "follows R id e (unwind_positions e)"
  unfolding unwind_positions_def by (rule unwind_all)

lemma risk_halt: "follows R id e (risk_halt e)"
  unfolding risk_halt_def by (rule follows_bind [where p = id]) (auto intro: unwind R_refl R_halt)

lemma handle_fill: "follows R snd e (handle_engine_fill f e)"
proof -
  obtain g e1 where b: "book_fill f e = (g, e1)" by fastforce
  obtain act rm where c: "check_post_fill g (risk_view (e_analytics e1)) (e_risk e1) = (act, rm)" by fastforce
  have r: "R e (e1\<lparr>e_risk := rm\<rparr>)" by (rule R_after [OF R_fill [of e f]]) (simp add: b)
  have "follows R snd (e1\<lparr>e_risk := rm\<rparr>) (ebind (risk_halt (e1\<lparr>e_risk := rm\<rparr>)) (\<lambda>e3. Inr (False, e3)))"
    by (rule follows_bind [OF risk_halt]) (simp add: R_refl)
  then show ?thesis using r R_trans unfolding handle_engine_fill_def b prod.case c Let_def follows_def by auto
qed

lemma handle_fills: "follows R snd e (handle_fills fs e)"
  by (induction fs arbitrary: e) (auto intro!: R_refl follows_bind [OF handle_fill] split: prod.split)

lemma process_fills: "follows R snd e (process_adapter_fills sy e)"
  unfolding process_adapter_fills_def by (auto split: prod.split intro: follows_from [OF handle_fills] view_pairs)

lemma deliver: "follows R id e (deliver_mm_book_trades sy trs ts e)"
  unfolding deliver_mm_book_trades_def
  by (auto simp: R_refl split: option.split intro!: drop_flag follows_from [OF process_fills])

lemma recenter: "follows R id e (recenter sy px h ts e)"
  unfolding recenter_def
  by (rule follows_silent [where p = snd])
    (auto simp: R_refl dest: view_book split: sum.split prod.split intro!: follows_from [OF deliver])

lemma process_order: "follows R snd e (process_order o1 e)"
proof -
  obtain act rm where c: "check_order o1 (e_portfolio e) (risk_view (e_analytics e)) (e_risk e) = (act, rm)" by fastforce
  have pass: "follows R snd (e\<lparr>e_risk := rm\<rparr>) (ebind (resolve_adapter (oe_symbol o1) (e\<lparr>e_risk := rm\<rparr>)) (\<lambda>(a, e2).
      ebind (submit_to_adapter o1 (note_order o1 e2)) (process_adapter_fills (oe_symbol o1))))"
  proof (rule follows_silent [where p = snd])
    show "view (snd x) = view (e\<lparr>e_risk := rm\<rparr>)" if "resolve_adapter (oe_symbol o1) (e\<lparr>e_risk := rm\<rparr>) = Inr x" for x
      using that view_adapter by (cases x) fastforce
    have "follows R id e2 (submit_to_adapter o1 (note_order o1 e2))" for e2
      unfolding follows_def id_apply by (blast intro: R_after [OF note_order] view_submit)
    then have "follows R snd e2 (ebind (submit_to_adapter o1 (note_order o1 e2)) (process_adapter_fills sy))" for e2 sy
      by (rule follows_bind) (simp add: process_fills)
    then show "follows R snd (snd x) (case x of (a, e2) \<Rightarrow> ebind (submit_to_adapter o1 (note_order o1 e2)) (process_adapter_fills (oe_symbol o1)))" for x
      by (cases x) simp
  qed
  have halt: "follows R snd e (ebind (risk_halt (reject_order o1 t (e\<lparr>e_risk := rm\<rparr>))) (\<lambda>e2. Inr (False, e2)))" for t
  proof (rule follows_bind [where p = id])
    have r: "R e (reject_order o1 t (e\<lparr>e_risk := rm\<rparr>))" by (rule R_before [OF reject]) simp
    show "follows R id e (risk_halt (reject_order o1 t (e\<lparr>e_risk := rm\<rparr>)))"
      unfolding follows_def by (blast intro: R_trans [OF r] followsD [OF risk_halt])
  qed (simp add: R_refl)
  have "follows R snd e (ebind (resolve_adapter (oe_symbol o1) (e\<lparr>e_risk := rm\<rparr>)) (\<lambda>(a, e2).
      ebind (submit_to_adapter o1 (note_order o1 e2)) (process_adapter_fills (oe_symbol o1))))" by (rule follows_from [OF pass]) simp
  then show ?thesis using halt R_before [OF reject, of "e\<lparr>e_risk := rm\<rparr>" e] reject
    by (simp add: process_order_def c R_refl Let_def)
qed

lemma drained_order: "follows R snd e (process_order o1 (note_day_order o1 e))"
  by (rule follows_from [OF process_order]) simp

lemma anchored: "follows R snd e (route_anchored o1 sim e)"
proof -
  have a: "follows R id e (if ref > 0 \<and> \<not> feq ref m then ebind (recenter sy ref False sim e) (\<lambda>e1. Inr (e1\<lparr>e_mid := ref\<rparr>)) else Inr e)" for ref m sy
    by (auto simp: R_refl intro!: step_then [OF recenter])
  have b: "follows R snd e2 (ebind (process_order o1 (note_day_order o1 e2)) (\<lambda>(ok, e3). Inr (ok, e3\<lparr>e_mid := m\<rparr>)))" for e2 m
    using step_then [OF drained_order, where f = "\<lambda>(ok, e3). (ok, e3\<lparr>e_mid := m\<rparr>)" and q = snd] by (simp add: case_prod_unfold)
  show ?thesis unfolding route_anchored_def Let_def by (rule follows_bind [OF a]) (simp add: b)
qed

lemma place: "follows R (snd \<circ> snd) e (place_order o1 sim anchor e)"
proof -
  have p: "follows R (snd \<circ> snd) e (ebind m (\<lambda>(ok, e4). Inr (ok, o3, e4)))" if "follows R snd e m" for m o3
    using step_then [OF that, where f = "\<lambda>(ok, e4). (ok, o3, e4)" and q = "snd \<circ> snd"] by (simp add: case_prod_unfold)
  show ?thesis using p [OF anchored] p [OF drained_order] R_view
    by (auto simp: place_order_def Let_def split: option.split)
qed

lemma route: "follows R (snd \<circ> snd) e (route_order o0 sim anchor e)"
proof -
  obtain fits o1 e1 where a: "admit_order o0 e = (fits, o1, e1)" by (metis prod_cases3)
  have v: "view e1 = view e" using view_admit [of o0 e] by (simp add: a)
  show ?thesis using R_before [OF reject v] follows_from [OF place v] by (simp add: route_order_def a R_refl)
qed

lemma fire: "follows R snd e (fire_stop opn sim m st e)"
proof -
  have b: "follows R snd e2 (ebind (process_order o1 (note_day_order o1 e2)) (\<lambda>(ok, e3). Inr (ok, e3\<lparr>e_mid := m\<rparr>)))" for e2 o1
    using step_then [OF drained_order, where f = "\<lambda>(ok, e3). (ok, e3\<lparr>e_mid := m\<rparr>)" and q = snd] by (simp add: case_prod_unfold)
  have "follows R id e (if c then recenter sy px False sim (e\<lparr>e_mid := px\<rparr>) else Inr (e\<lparr>e_mid := px\<rparr>))" for c sy px
    using follows_from [OF recenter] R_view by simp
  from follows_bind [OF this b] show ?thesis unfolding fire_stop_def Let_def by simp
qed

lemma stops: "follows R snd e (stops_loop opn high low sim m sts e)"
proof (induction sts arbitrary: e)
  case (Cons st sts)
  have "follows R snd e (ebind (fire_stop opn sim m st e) (\<lambda>(ok, e1). if ok then stops_loop opn high low sim m sts e1 else Inr (st # sts, e1)))"
    by (rule follows_bind [OF fire]) (auto simp: R_refl Cons.IH split: prod.split)
  moreover have "follows R snd e (ebind (stops_loop opn high low sim m sts e) (\<lambda>(kept, e1). Inr (st # kept, e1)))"
    using step_then [OF Cons.IH, where f = "\<lambda>(kept, e1). (st # kept, e1)" and q = snd] by (simp add: case_prod_unfold)
  ultimately show ?case by (simp add: R_refl)
qed (simp add: R_refl)

lemma check_stops: "follows R id e (check_pending_stops opn high low sim e)"
  using step_then [OF stops, where f = "\<lambda>(kept, e1). e1\<lparr>e_stops := kept\<rparr>" and q = id] unfolding check_pending_stops_def by (simp add: case_prod_unfold)

lemma drain: "follows R snd e (drain_loop until ps e)"
proof (induction ps arbitrary: e)
  case (Cons p ps)
  have "follows R snd e (ebind (process_order (fst p) (note_day_order (fst p) e)) (\<lambda>(ok, e1). if ok then drain_loop until ps e1 else Inr (ps, e1)))"
    by (rule follows_bind [OF drained_order]) (auto simp: R_refl Cons.IH split: prod.split)
  then show ?case by (simp add: R_refl)
qed (simp add: R_refl)

lemma drain_pending: "follows R id e (drain_pending until e)"
  using step_then [OF drain, where f = "\<lambda>(ps, e1). e1\<lparr>e_pending := ps\<rparr>" and q = id] unfolding drain_pending_def by (simp add: case_prod_unfold)

lemma sweep: "follows R id e (sweep_resting_limits sy low high ts e)"
  unfolding sweep_resting_limits_def
  by (auto simp: R_refl Let_def split: option.split prod.split intro!: drop_flag follows_from [OF process_fills] R_view)

lemma turn: "follows R id e (strategy_turn w force ev rn ts e)"
proof -
  obtain r e1 where c: "call_strategy w ev e = (r, e1)" by fastforce
  have "follows R id e1 (ebind (route_order o2 ts False e1) (\<lambda>(ok, o3, e2). Inr (finalize_strategy_route w name o3 (\<not> ok) e2)))" for o2 name
    using step_then [OF route, where f = "\<lambda>(ok, o3, e2). finalize_strategy_route w name o3 (\<not> ok) e2" and q = id] by (simp add: case_prod_unfold)
  from follows_from [OF this view_pairs(6) [OF c]] show ?thesis
    using R_view [OF view_pairs(6) [OF c]] by (cases r) (simp_all add: strategy_turn_def c Let_def)
qed

lemma closes: "follows R snd e (route_closes cs ts rn e)"
proof (induction cs arbitrary: e)
  case (Cons c cs)
  show ?case unfolding route_closes.simps by (rule follows_bind [OF route]) (auto simp: R_refl Cons.IH split: prod.split)
qed (simp add: R_refl)

lemma exits: "follows R snd e (evaluate_exits sy px ts rn e)" "follows R snd e (evaluate_exits_bar m ts rn e)"
  by (auto simp: evaluate_exits_def evaluate_exits_bar_def split: prod.split intro!: follows_from [OF closes])

lemma exits_for: "follows R snd e (exits_for ev ts e)"
  by (cases ev) (simp_all add: exits_for_def exits R_refl)

lemma extras: "follows R id e (dispatch_extras ev ts is e)"
proof (induction "is" arbitrary: e)
  case (Cons i "is")
  have "follows R id e1 (ebind (strategy_turn (Some i) True ev (de_recv ev) ts e1) (\<lambda>e2. if e_halt e2 then Inr e2 else dispatch_extras ev ts is e2))" for e1
    by (rule follows_bind [OF turn]) (simp add: R_refl Cons.IH)
  then have "follows R id e (ebind (exits_for ev ts e) (\<lambda>(halted, e1). if halted then Inr e1
      else ebind (strategy_turn (Some i) True ev (de_recv ev) ts e1) (\<lambda>e2. if e_halt e2 then Inr e2 else dispatch_extras ev ts is e2)))"
    by (intro follows_bind [OF exits_for]) (auto simp: R_refl split: prod.split)
  then show ?case by (simp add: R_refl id_def)
qed (simp add: R_refl)

lemma all_extras: "follows R id e (all_extras ev ts e)"
  unfolding all_extras_def by (rule extras)

lemma turns: "follows R id e (ebind (strategy_turn None force ev rn ts e) (\<lambda>e2. if e_halt e2 then Inr e2 else all_extras ev ts e2))"
  by (rule follows_bind [OF turn]) (simp add: R_refl all_extras)

lemma decide: "follows R snd e (decide ev ts e)"
proof -
  have a: "follows R snd e2 (ebind (if e_halt e2 then Inr e2 else all_extras ev ts e2) (\<lambda>e3. Inr (True, e3)))" for e2
    by (rule follows_bind [where p = id]) (auto simp: R_refl all_extras)
  have "follows R snd e1 (ebind (strategy_turn None False ev (de_recv ev) ts e1) (\<lambda>e2.
      ebind (if e_halt e2 then Inr e2 else all_extras ev ts e2) (\<lambda>e3. Inr (True, e3))))" for e1
    by (rule follows_bind [OF turn]) (simp add: a)
  then show ?thesis unfolding decide_def by (intro follows_bind [OF exits_for]) (auto simp: R_refl split: prod.split)
qed

lemma at_open: "follows R id e (drain_at_open sy ts e)"
  unfolding drain_at_open_def by (rule follows_bind [where p = id]) (auto simp: R_refl recenter drain_pending)

lemma flatten: "follows R id e (take_flatten e)"
  unfolding take_flatten_def by (auto simp: R_refl intro: follows_from [OF unwind])

lemma note_data: "R e (note_market m e)" "R e (note_tick t e)"
  by (simp_all add: note_market_def note_tick_def note_event)

lemma decided: "R e e1 \<Longrightarrow> follows R id e (ebind (decide ev ts e1) (\<lambda>(b, e2). Inr e2))"
  using R_trans unfolding follows_def by (blast dest: followsD [OF drop_flag [OF decide]])

lemma single_bar: "follows R id e (process_single_bar sy opn high low cl vol ts e)"
proof -
  have t4: "follows R id e (ebind (check_pending_stops opn high low ts e) (\<lambda>e7. if e_halt e7 then Inr e7
      else ebind (decide (De_Bar m) ts (note_market m e7)) (\<lambda>(_, e8). Inr e8)))" for m e
    by (rule then_guard [OF check_stops]) (rule decided, rule note_data)
  have t3: "follows R id e (ebind (sweep_resting_limits sy low high ts e) (\<lambda>e5. if e_halt e5 then Inr e5
      else ebind (recenter sy (e_mid e5) True ts e5) (\<lambda>e6. ebind (check_pending_stops opn high low ts e6) (\<lambda>e7. if e_halt e7 then Inr e7
      else ebind (decide (De_Bar m) ts (note_market m e7)) (\<lambda>(_, e8). Inr e8)))))" for m e
    by (rule then_guard [OF sweep]) (rule then_step [OF recenter t4])
  have t2: "follows R id e (ebind (check_pending_stops opn high low ts (e\<lparr>e_mid := cl, e_mark_symbol := sy\<rparr>)) (\<lambda>e4.
      ebind (sweep_resting_limits sy low high ts e4) (\<lambda>e5. if e_halt e5 then Inr e5
      else ebind (recenter sy (e_mid e5) True ts e5) (\<lambda>e6. ebind (check_pending_stops opn high low ts e6) (\<lambda>e7. if e_halt e7 then Inr e7
      else ebind (decide (De_Bar m) ts (note_market m e7)) (\<lambda>(_, e8). Inr e8))))))" for m e
    by (rule then_step [OF follows_from [OF check_stops] t3]) simp
  have t1: "follows R id e1 (let (rn, e2) = steady_now (advance_all ts e1); m = (mk_market_event ts sy opn high low cl vol)\<lparr>recv_ns := rn\<rparr>
        in ebind (drain_at_open sy ts (e2\<lparr>e_mid := opn, e_mark_symbol := sy\<rparr>)) (\<lambda>e3. if e_halt e3 then Inr e3
        else ebind (check_pending_stops opn high low ts (e3\<lparr>e_mid := cl, e_mark_symbol := sy\<rparr>)) (\<lambda>e4.
        ebind (sweep_resting_limits sy low high ts e4) (\<lambda>e5. if e_halt e5 then Inr e5
        else ebind (recenter sy (e_mid e5) True ts e5) (\<lambda>e6. ebind (check_pending_stops opn high low ts e6) (\<lambda>e7. if e_halt e7 then Inr e7
        else ebind (decide (De_Bar m) ts (note_market m e7)) (\<lambda>(_, e8). Inr e8)))))))" for e1
    unfolding steady_now_def Let_def prod.case by (rule then_guard [OF follows_from [OF at_open] t2]) simp
  show ?thesis using then_step [OF flatten t1, of e] by (simp add: process_single_bar_def R_refl)
qed

lemma single_tick: "follows R id e (process_single_tick sy px vol sd ts e)"
proof -
  have t3: "follows R id e (ebind (check_pending_stops px px px ts e) (\<lambda>e5. if e_halt e5 then Inr e5
      else ebind (decide (De_Tick t) ts (note_tick t e5)) (\<lambda>(_, e6). Inr e6)))" for t e
    by (rule then_guard [OF check_stops]) (rule decided, rule note_data)
  have t2: "follows R id e (ebind (drain_pending (Some ts) e) (\<lambda>e4. if e_halt e4 then Inr e4 else ebind (check_pending_stops px px px ts e4) (\<lambda>e5.
      if e_halt e5 then Inr e5 else ebind (decide (De_Tick t) ts (note_tick t e5)) (\<lambda>(_, e6). Inr e6))))" for t e
    by (rule then_guard [OF drain_pending t3])
  have t1: "follows R id e1 (let (rn, e2) = steady_now (advance_all ts e1); t = (mk_tick_event ts sy px vol sd)\<lparr>recv_ns := rn\<rparr>
        in ebind (recenter sy px True ts (e2\<lparr>e_mid := px, e_mark_symbol := sy\<rparr>)) (\<lambda>e3. ebind (drain_pending (Some ts) e3) (\<lambda>e4.
        if e_halt e4 then Inr e4 else ebind (check_pending_stops px px px ts e4) (\<lambda>e5. if e_halt e5 then Inr e5
        else ebind (decide (De_Tick t) ts (note_tick t e5)) (\<lambda>(_, e6). Inr e6)))))" for e1
    unfolding steady_now_def Let_def prod.case by (rule then_step [OF follows_from [OF recenter] t2]) simp
  show ?thesis using then_step [OF flatten t1, of e] by (simp add: process_single_tick_def R_refl)
qed

lemma l2_turn: "follows R id e (l2_turn u e)"
proof -
  have x: "follows R id e1 (ebind (evaluate_exits sy p ts rn e1) (\<lambda>(halted, e2).
      if halted then Inr e2 else ebind (strategy_turn None True ev rn ts e2) (\<lambda>e3. if e_halt e3 then Inr e3 else all_extras ev ts e3)))"
    for e1 sy p ts rn ev by (rule follows_bind [OF exits(1)]) (auto simp: R_refl turns split: prod.split)
  show ?thesis using then_guard [OF follows_from [OF drain_pending], of "advance_all (timestamp u) e" e, OF _ x] by (simp add: l2_turn_def R_refl Let_def)
qed

lemma run_bar: "follows R snd e (run_bar m e)"
proof -
  have d: "follows R snd e (decide (De_Bar m) ts (note_market m e))" for m ts e
    using R_trans [OF note_data(1)] followsD [OF decide] unfolding follows_def by metis
  have t2: "follows R snd e (ebind (sweep_resting_limits sy low high ts e) (\<lambda>e3. if e_halt e3 then Inr (False, e3)
      else ebind (recenter sy (e_mid e3) True ts e3) (\<lambda>e4. decide (De_Bar m) ts (note_market m e4))))" for sy low high ts m e
    by (rule then_step [OF sweep]) (auto simp: R_refl intro!: then_step [OF recenter d])
  have t1: "follows R snd e1 (if e_halt e1 then Inr (False, e1) else ebind (check_pending_stops opn high low ts (e1\<lparr>e_mid := cl\<rparr>)) (\<lambda>e2.
      ebind (sweep_resting_limits sy low high ts e2) (\<lambda>e3. if e_halt e3 then Inr (False, e3)
      else ebind (recenter sy (e_mid e3) True ts e3) (\<lambda>e4. decide (De_Bar m) ts (note_market m e4)))))" for e1 opn cl sy low high ts m
    using then_step [OF follows_from [OF check_stops] t2] by (auto simp: R_refl)
  show ?thesis unfolding run_bar_def steady_now_def Let_def prod.case by (rule then_step [OF follows_from [OF at_open] t1]) simp
qed

lemma run_bars: "follows R id e (run_bars base i prev bars e)"
proof (induction bars arbitrary: i prev e)
  case (Cons b bars)
  obtain m parsed where b: "b = (m, parsed)" by (cases b)
  have "follows R id e (ebind (run_bar m' e) (\<lambda>(more, e1). if more then run_bars base (i + 1) ts bars e1 else Inr e1))" for m' ts
    by (rule follows_bind [OF run_bar]) (simp add: R_refl Cons.IH split: prod.split)
  then show ?case by (simp add: b Let_def R_refl id_def)
qed (simp add: R_refl)

lemma run_all: "follows R id (clear_pending_state (e\<lparr>e_halt := False\<rparr>)) (run base bars e)"
  unfolding run_def by (rule follows_bind [OF run_bars], rule follows_bind [where p = id]) (auto intro: drain_pending R_view)

lemma agg_bar: "follows R id e (on_agg_bar m e)"
proof -
  have f: "R e (feed_analytics (AE_Market m') (e\<lparr>e_reads := n\<rparr>))" for m' n by (rule R_before [OF R_feed]) simp_all
  have t: "follows R id e1 (if c then Inr e1 else ebind (strategy_turn None False (De_Bar m) rn ts e1) (\<lambda>e2. if e_halt e2 then Inr e2 else all_extras (De_Bar m) ts e2))"
    for e1 rn ts c by (auto simp: R_refl turns)
  have x: "follows R id e1 (ebind (evaluate_exits_bar m ts rn e1) (\<lambda>(halted, e1). if halted \<or> e_strategy e1 = None \<or> e_halt e1 then Inr e1
      else ebind (strategy_turn None False (De_Bar m) rn ts e1) (\<lambda>e2. if e_halt e2 then Inr e2 else all_extras (De_Bar m) ts e2)))" for e1 ts rn
    by (rule follows_bind [OF exits(2)]) (simp only: case_prod_unfold t)
  show ?thesis using follows_after [OF f x] by (simp add: on_agg_bar_def steady_now_def Let_def)
qed

lemma tick_turn: "follows R (snd \<circ> snd) e (tick_turn t ag e)"
proof -
  have c: "follows R (snd \<circ> snd) e (aggregate_tick t ag e)" for ag t e
    by (auto simp: aggregate_tick_def R_refl split: prod.split option.split intro!: follows_bind [OF agg_bar])
  have x: "follows R (snd \<circ> snd) e2 (if e_halt e2 then Inr (False, ag, e2) else ebind (all_extras ev ts e2) (aggregate_tick t ag))" for e2 ev ts
    using then_step [OF all_extras c] by (simp add: R_refl)
  show ?thesis unfolding tick_turn_def Let_def
    by (rule follows_bind [OF exits(1)]) (simp add: R_refl then_step [OF turn x] split: prod.split)
qed

lemma run_tick: "follows R (snd \<circ> snd) e (run_tick sy px vol sd ts ag e)"
proof -
  have t: "follows R (snd \<circ> snd) e3 (if e_halt e3 then Inr (False, ag, e3)
     else let (rn, e4) = steady_now e3; t = (mk_tick_event ts sy px vol sd)\<lparr>recv_ns := rn\<rparr> in tick_turn t ag (note_tick t e4))" for e3
    using follows_from [OF follows_after [OF note_data(2) tick_turn]] by (simp add: R_refl steady_now_def Let_def)
  have s: "follows R (snd \<circ> snd) e2 (if e_halt e2 then Inr (False, ag, e2) else ebind (check_pending_stops px px px ts e2) (\<lambda>e3. if e_halt e3 then Inr (False, ag, e3)
     else let (rn, e4) = steady_now e3; t = (mk_tick_event ts sy px vol sd)\<lparr>recv_ns := rn\<rparr> in tick_turn t ag (note_tick t e4)))" for e2
    using then_step [OF check_stops t] by (simp add: R_refl)
  show ?thesis unfolding run_tick_def by (rule then_step [OF follows_from [OF recenter] then_step [OF drain_pending s]]) simp
qed

lemma run_ticks: "follows R snd e (run_ticks xs ag e)"
proof (induction xs arbitrary: ag e)
  case (Cons x xs)
  obtain sy px vol ts sd where x: "x = ((sy, px, vol, ts), sd)" by (cases x) auto
  have "follows R snd e (ebind (run_tick sy px vol sd ts ag e) (\<lambda>(more, ag', e'). if more then run_ticks xs ag' e' else Inr (ag', e')))"
    by (rule follows_bind [OF run_tick]) (simp add: R_refl Cons.IH split: prod.split)
  then show ?case by (simp add: x R_refl)
qed (simp add: R_refl)

lemma run_tick_data: "follows R id ((clear_pending_state e)\<lparr>e_halt := False\<rparr>) (run_tick_data xs e)"
proof -
  have f: "follows R id e1 (ebind (case agg_flush ag of None \<Rightarrow> Inr e1 | Some b \<Rightarrow> on_agg_bar b e1) (drain_pending None))" for ag e1
    by (rule then_step [OF _ drain_pending]) (simp add: R_refl agg_bar split: option.split)
  show ?thesis unfolding run_tick_data_def by (rule follows_bind [OF run_ticks]) (simp add: f split: prod.split)
qed

end

end
