(* ===== verification/Engine_Trail.thy ===== *)
theory Engine_Trail
  imports Engine_Audit
begin

text \<open>
  Whole sessions of the engine: sequences of calls of its public operations, and what they keep. The books of the engine (portfolio and
  statistics) are those of the fills it has logged; a halt stays and stops trading.
\<close>

subsection \<open>Sessions\<close>

datatype command =
    C_Bar symbol double double double double int time_point
  | C_Tick symbol double int tick_side time_point
  | C_Snapshot symbol "l2_level list" "l2_level list"
  | C_Update symbol tick_side double int
  | C_Cancel symbol order_id string
  | C_Modify symbol order_id double double
  | C_Pause bool
  | C_Flatten
  | C_Halt
  | C_Run time_point "(market_event \<times> time_point option) list"
  | C_Run_Ticks "(raw_tick \<times> tick_side) list"

fun exec :: "command \<Rightarrow> 's engine \<Rightarrow> 's eresult" where
  "exec (C_Bar sy opn high low cl vol ts) e = process_single_bar sy opn high low cl vol ts e"
| "exec (C_Tick sy px vol sd ts) e = process_single_tick sy px vol sd ts e"
| "exec (C_Snapshot sy bids asks) e = eng_apply_l2_snapshot sy bids asks e"
| "exec (C_Update sy sd px n) e = eng_apply_l2_update sy sd px n e"
| "exec (C_Cancel sy i t) e = map_sum id snd (eng_cancel_order sy i t e)"
| "exec (C_Modify sy i px n) e = map_sum id snd (eng_modify_order sy i px n e)"
| "exec (C_Pause b) e = Inr (set_pause_all b e)"
| "exec C_Flatten e = Inr (request_flatten e)"
| "exec C_Halt e = Inr (trigger_halt e)"
| "exec (C_Run base bars) e = run base bars e"
| "exec (C_Run_Ticks ticks) e = run_tick_data ticks e"

fun exec_all :: "command list \<Rightarrow> 's engine \<Rightarrow> 's eresult" where
  "exec_all [] e = Inr e"
| "exec_all (c # cs) e = ebind (exec c e) (exec_all cs)"

subsection \<open>The account in the statistics\<close>

text \<open>Cash and positions, the marks apart.\<close>

definition account :: "analytics \<Rightarrow> double \<times> (symbol \<Rightarrow> open_position)" where
  "account a = (an_cash a, \<lambda>sy. (an_pos sy a)\<lparr>op_last_price := 0\<rparr>)"

lemma account_risk: "risk_state a = risk_state b \<Longrightarrow> account a = account b"
  using risk_stateD [of a b] by (simp add: account_def)

lemma account_marked: "account (marked sy px a) = account a"
  by (auto simp: account_def marked_def set_an_pos_def an_pos_def update_conv' split: option.split)

lemma account_drawdown: "account (track_drawdown x a) = account a"
  by (simp add: account_def track_drawdown_def Let_def an_pos_def)

lemma account_quiet: "quiet ev \<Longrightarrow> account (feed_inline lg ev a) = account a"
proof (cases ev)
  case (AE_Market m)
  then show ?thesis using account_risk [OF conjunct1 [OF on_market_risk [of lg m a]]] by (simp add: feed_inline_def an_on_event_def account_drawdown account_marked)
next
  case (AE_Tick t)
  have "risk_state (an_on_tick lg t a) = risk_state (marked (te_symbol t) (te_price t) (a\<lparr>an_last_close := te_price t\<rparr>))"
    by (simp add: an_on_tick_def Let_def marked_def) (simp add: an_pos_def)
  from account_risk [OF this] have "account (an_on_tick lg t a) = account (a\<lparr>an_last_close := te_price t\<rparr>)" by (simp only: account_marked)
  also have "\<dots> = account a" by (rule account_risk) simp
  finally show ?thesis by (simp add: AE_Tick feed_inline_def an_on_event_def)
next
  case (AE_Snapshot s)
  then show ?thesis by (simp add: feed_inline_def an_on_event_def an_on_l2_snapshot_def account_def an_pos_def Let_def split: list.split)
qed (simp_all add: feed_inline_def an_on_event_def an_on_order_def account_def an_pos_def)

lemma fill_account_mark: "fill_account f c (p\<lparr>op_last_price := x\<rparr>) = fill_account f c p"
  by (simp add: fill_account_def)

lemma account_fill: "account (an_on_fill f a) =
    (let r = fill_account f (fst (account a)) (snd (account a) (fe_symbol f))
     in (fst r, (snd (account a))(fe_symbol f := (fst (snd r))\<lparr>op_last_price := 0\<rparr>)))"
  by (auto simp: account_def an_on_fill_account fill_account_mark Let_def)

lemma account_fills: "account a = account b \<Longrightarrow> account (fold an_on_fill fs a) = account (fold an_on_fill fs b)"
  by (induction fs arbitrary: a b) (simp_all add: account_fill)

subsection \<open>The audit trail\<close>

fun fills_of :: "any_event list \<Rightarrow> fill_event list" where
  "fills_of [] = []"
| "fills_of (AE_Fill f # es) = f # fills_of es"
| "fills_of (_ # es) = fills_of es"

definition book_fills :: "fill_event list \<Rightarrow> portfolio \<Rightarrow> portfolio" where
  "book_fills = fold (\<lambda>f. portfolio_on_fill f (fe_opener_order_id f) (fe_strategy_name f))"

definition audited :: "'s engine \<Rightarrow> 's engine \<Rightarrow> bool" where
  "audited e e' \<longleftrightarrow> (\<exists>es. e_logged e' = e_logged e @ es \<and> e_portfolio e' = book_fills (fills_of es) (e_portfolio e) \<and>
     account (e_analytics e') = account (fold an_on_fill (fills_of es) (e_analytics e)))"

lemma fills_of_append [simp]: "fills_of (es @ fs) = fills_of es @ fills_of fs"
  by (induction es rule: fills_of.induct) simp_all

lemma fills_of_quiet: "quiet ev \<Longrightarrow> fills_of [ev] = []"
  by (cases ev) simp_all

lemma audited_trans: "audited a b \<Longrightarrow> audited b c \<Longrightarrow> audited a c"
proof -
  assume "audited a b" "audited b c"
  then obtain es fs where
    "e_logged b = e_logged a @ es" "e_portfolio b = book_fills (fills_of es) (e_portfolio a)"
      "account (e_analytics b) = account (fold an_on_fill (fills_of es) (e_analytics a))"
    "e_logged c = e_logged b @ fs" "e_portfolio c = book_fills (fills_of fs) (e_portfolio b)"
      "account (e_analytics c) = account (fold an_on_fill (fills_of fs) (e_analytics b))" unfolding audited_def by blast
  then have "e_logged c = e_logged a @ (es @ fs) \<and> e_portfolio c = book_fills (fills_of (es @ fs)) (e_portfolio a) \<and>
      account (e_analytics c) = account (fold an_on_fill (fills_of (es @ fs)) (e_analytics a))"
    using account_fills [of "e_analytics b" "fold an_on_fill (fills_of es) (e_analytics a)" "fills_of fs"] by (simp add: book_fills_def)
  then show ?thesis unfolding audited_def by blast
qed

lemma audited_silent: "e_logged b = e_logged a \<Longrightarrow> e_portfolio b = e_portfolio a \<Longrightarrow> account (e_analytics b) = account (e_analytics a) \<Longrightarrow> audited a b"
  unfolding audited_def by (rule exI [of _ "[]"]) (simp add: book_fills_def)

lemma dispatch_frame: "e_portfolio (dispatch_fill_to_strategy f e) = e_portfolio e" "e_analytics (dispatch_fill_to_strategy f e) = e_analytics e"
    "e_logged (dispatch_fill_to_strategy f e) = e_logged e" "e_portfolio (notify_position_change_all sy b e) = e_portfolio e"
    "e_analytics (notify_position_change_all sy b e) = e_analytics e" "e_logged (notify_position_change_all sy b e) = e_logged e"
  using view_silent(11) [of sy b e] view_silent(12) [of f e] by (simp_all add: view_def)

lemma audited_fill: "audited e (snd (book_fill f e))"
proof -
  define g where "g = stamp_fill_attribution f e"
  have "e_logged (snd (book_fill f e)) = e_logged e @ [AE_Fill g]"
    "e_portfolio (snd (book_fill f e)) = portfolio_on_fill g (fe_opener_order_id g) (fe_strategy_name g) (e_portfolio e)"
    "e_analytics (snd (book_fill f e)) = an_on_fill g (e_analytics e)"
    by (simp_all add: book_fill_def g_def [symmetric] Let_def feed_analytics_def feed_inline_def an_on_event_def dispatch_frame track_def eng_log_def)
  then show ?thesis unfolding audited_def by (intro exI [of _ "[AE_Fill g]"]) (simp add: book_fills_def)
qed

interpretation trail: engine_relation audited
proof
  fix a b c :: "'s engine" and ev f
  show "audited a b \<Longrightarrow> audited b c \<Longrightarrow> audited a c" by (rule audited_trans)
  show "view b = view a \<Longrightarrow> audited a b" by (rule audited_silent) (simp_all add: view_def)
  show "quiet ev \<Longrightarrow> audited a (eng_log ev a)" unfolding audited_def by (rule exI [of _ "[ev]"]) (simp add: eng_log_def fills_of_quiet book_fills_def)
  show "quiet ev \<Longrightarrow> audited a (feed_analytics ev a)" by (rule audited_silent) (simp_all add: feed_analytics_def account_quiet)
  show "audited a (snd (book_fill f a))" by (rule audited_fill)
  show "audited a (trigger_halt a)" by (rule audited_silent) (simp_all add: trigger_halt_def)
qed

lemma map_sum_follows: "follows R snd e m \<Longrightarrow> follows R id e (map_sum id snd m)"
  by (cases m) simp_all

lemma audited_restart: "audited e (clear_pending_state (e\<lparr>e_halt := False\<rparr>))" "audited e ((clear_pending_state e)\<lparr>e_halt := False\<rparr>)"
  by (rule audited_silent; simp add: clear_pending_state_def)+

lemma audited_exec: "follows audited id e (exec c e)"
proof (cases c)
  case (C_Run base bars)
  then show ?thesis using trail.follows_after [OF audited_restart(1) trail.run_all] by simp
next
  case (C_Run_Ticks ticks)
  then show ?thesis using trail.follows_after [OF audited_restart(2) trail.run_tick_data] by simp
qed (auto simp: trail.single_bar trail.single_tick trail.l2_snapshot trail.l2_update [OF trail.l2_turn] trail.R_halt set_pause_all_def request_flatten_def
    intro!: map_sum_follows trail.cancel trail.modify trail.R_view)

lemma audited_exec_all: "follows audited id e (exec_all cs e)"
  by (induction cs arbitrary: e) (auto simp: trail.R_refl intro!: trail.follows_bind [OF audited_exec])

text \<open>C2: The engine's books are those of its log. Whatever is done to an engine (bars, ticks, depth, cancels, amendments, pauses, flattening, halts,
  whole batch runs, in any order), the log only grows, and the portfolio and the cash and positions of the statistics are exactly what the fills
  of the new log entries, taken in order, make of the ones before. No fill is booked without being logged, none is logged without being booked,
  and none is booked twice.\<close>

theorem engine_books_are_logged_fills:
  assumes "exec_all cs e = Inr e'"
  shows "\<exists>es. e_logged e' = e_logged e @ es \<and> e_portfolio e' = book_fills (fills_of es) (e_portfolio e) \<and>
    account (e_analytics e') = account (fold an_on_fill (fills_of es) (e_analytics e))"
  using followsD [OF audited_exec_all assms] by (simp add: audited_def)


subsection \<open>The halt\<close>

text \<open>What a halted engine may still do: change depth, cancel, and log that.\<close>

definition idle :: "'s engine \<Rightarrow> 's engine \<Rightarrow> bool" where
  "idle e e' \<longleftrightarrow> (e_halt e \<longrightarrow> e_halt e' \<and> e_portfolio e' = e_portfolio e \<and> (\<exists>es. e_logged e' = e_logged e @ es \<and> list_all harmless es))"

definition live_command :: "command \<Rightarrow> bool" where
  "live_command c = (case c of C_Run base bars \<Rightarrow> False | C_Run_Ticks ticks \<Rightarrow> False | _ \<Rightarrow> True)"

lemma idle_trans: "idle a b \<Longrightarrow> idle b c \<Longrightarrow> idle a c"
  unfolding idle_def by (metis append.assoc list_all_append)

lemma idle_active: "\<not> e_halt e \<Longrightarrow> follows idle p e m"
  by (simp add: follows_def idle_def)

interpretation rest: engine_notes idle
proof
  fix a b c :: "'s engine" and ev
  show "idle a b \<Longrightarrow> idle b c \<Longrightarrow> idle a c" by (rule idle_trans)
  show "view b = view a \<Longrightarrow> idle a b" by (simp add: view_def idle_def)
  show "harmless ev \<Longrightarrow> idle a (eng_log ev a)" by (simp add: idle_def eng_log_def)
  show "harmless ev \<Longrightarrow> idle a (feed_analytics ev a)" by (simp add: idle_def feed_analytics_def)
qed

lemma idle_turn: "follows idle id e (l2_turn u e)"
  by (cases "e_halt e") (simp_all add: l2_turn_def Let_def rest.R_refl idle_active)

lemma idle_exec: "live_command c \<Longrightarrow> follows idle id e (exec c e)"
  by (cases "e_halt e"; cases c)
    (auto simp: live_command_def idle_active process_single_bar_def process_single_tick_def rest.R_refl rest.l2_snapshot rest.l2_update [OF idle_turn]
      set_pause_all_def request_flatten_def trigger_halt_def idle_def intro!: map_sum_follows rest.cancel rest.modify rest.R_view)

lemma idle_exec_all: "list_all live_command cs \<Longrightarrow> follows idle id e (exec_all cs e)"
  by (induction cs arbitrary: e) (auto simp: rest.R_refl intro!: rest.follows_bind [OF idle_exec])

text \<open>C4: A halt is terminal. Whatever a halted engine is then fed (bars, ticks, depth, cancels, amendments, pauses, flatten requests), it stays
  halted, its portfolio does not change, and all it logs is depth, cancels and amendments: no order, no fill.\<close>

theorem halted_engine_stays_out:
  assumes "e_halt e" "list_all live_command cs" "exec_all cs e = Inr e'"
  shows "e_halt e' \<and> e_portfolio e' = e_portfolio e \<and> (\<exists>es. e_logged e' = e_logged e @ es \<and> list_all harmless es)"
  using followsD [OF idle_exec_all [OF assms(2)] assms(3)] assms(1) by (simp add: idle_def)

subsection \<open>A session\<close>

definition demo_config :: engine_config where
  "demo_config = \<lparr>cfg_fee = None, cfg_fill = None, cfg_impact = None, cfg_walked = False, cfg_aggression = 1, cfg_qty_scale = 1, cfg_maker_queue = None,
     cfg_risk_unwind = False, cfg_bar_delay = 0, cfg_exit_defaults = \<lparr>ep_mode = Strategy_Only, sl_pct = 0, tp_pct = 0, trail_pct = 0\<rparr>,
     cfg_overrides = [], cfg_initial_balance = dint 1000, cfg_ln = (\<lambda>x. x), cfg_draw = (\<lambda>n. 0), cfg_wall = int, cfg_steady = int\<rparr>"

definition demo_calibration :: mm_calibration where
  "demo_calibration = \<lparr>mc_levels_per_side = 1, mc_base_depth = 1, mc_base_spread_pct = 0, mc_vol_spread_mult = 0, mc_max_half_spread_pct = 1\<rparr>"

definition demo_engine :: "unit engine" where
  "demo_engine = mk_engine demo_config (252, 0, 252, 100) limits_demo demo_calibration None None None 0"

definition demo_session :: "command list" where
  "demo_session = [C_Snapshot ''BTC'' [] [], C_Pause True, C_Halt, C_Tick ''BTC'' (dint 10) 1 Tick_Bid 7]"

lemma first_book: "e_registry e = mk_registry \<Longrightarrow> \<exists>r e1. engine_book sy e = Inr (r, e1) \<and> e_adapters e1 = e_adapters e \<and> e_logged e1 = e_logged e"
  by (simp add: engine_book_def get_or_create_def mk_registry_def intern_id_def mk_symbol_table_def kMaxSymbols_def new_book_def ensure_slot_def Let_def)

lemma first_snapshot:
  assumes "e_registry e = mk_registry" "e_adapters e = []"
  shows "\<exists>e1. eng_apply_l2_snapshot sy [] [] e = Inr e1"
proof -
  obtain r e1 where "engine_book sy (e\<lparr>e_seeded := List.insert sy (e_seeded e)\<rparr>) = Inr (r, e1)" "e_adapters e1 = []"
    using first_book [of "e\<lparr>e_seeded := List.insert sy (e_seeded e)\<rparr>" sy] assms by auto
  then show ?thesis by (simp add: eng_apply_l2_snapshot_def Let_def forward_l2_def wall_now_def eng_log_def split: prod.split)
qed

lemma demo_runs: "\<exists>e'. exec_all demo_session (trigger_halt demo_engine) = Inr e'"
proof -
  have "e_registry (trigger_halt demo_engine) = mk_registry" "e_adapters (trigger_halt demo_engine) = []"
    by (simp_all add: demo_engine_def mk_engine_def trigger_halt_def)
  from first_snapshot [OF this, of "''BTC''"] show ?thesis
    by (auto simp: demo_session_def process_single_tick_def trigger_halt_def set_pause_all_def)
qed

lemma halted_engine_stays_out_witness:
  "\<exists>e'. exec_all demo_session (trigger_halt demo_engine) = Inr e' \<and> e_halt e' \<and> e_portfolio e' = e_portfolio (trigger_halt demo_engine)"
proof -
  obtain e' where e: "exec_all demo_session (trigger_halt demo_engine) = Inr e'" using demo_runs by blast
  have "list_all live_command demo_session" by (simp add: demo_session_def live_command_def)
  from halted_engine_stays_out [OF _ this e] e show ?thesis by (auto simp: trigger_halt_def)
qed

end
