(* ===== verification/Engine_Orders.thy ===== *)
theory Engine_Orders
  imports Engine_Trail
begin

text \<open>
  What happens to orders inside the engine: the flag of the submitting functions tells of a halt, every submitted order is answered, waiting stops
  are taken when they are reached, deferred orders when they are due, and nothing reaches an adapter or a book unchecked.
\<close>

subsection \<open>The flag tells of a halt\<close>

lemma halt_silent: "view e' = view e \<Longrightarrow> e_halt e' = e_halt e"
  by (simp add: view_def)

lemma halt_notes [simp]: "e_halt (eng_log ev e) = e_halt e" "e_halt (feed_analytics ev e) = e_halt e" "e_halt (note_order o1 e) = e_halt e"
  "e_halt (reject_order o1 t e) = e_halt e" "e_halt (note_day_order o1 e) = e_halt e"
  by (simp_all add: eng_log_def feed_analytics_def note_order_def reject_order_def track_def note_day_order_def Let_def)

lemma halt_dispatch [simp]: "e_halt (dispatch_fill_to_strategy f e) = e_halt e" "e_halt (notify_position_change_all sy b e) = e_halt e"
  by (rule halt_silent, simp)+

lemma halt_fill: "e_halt (snd (book_fill f e)) = e_halt e"
  by (simp add: book_fill_def Let_def track_def)

lemma handle_fill_flag: "handle_engine_fill f e = Inr (ok, e') \<Longrightarrow> \<not> e_halt e \<Longrightarrow> ok \<longleftrightarrow> \<not> e_halt e'"
  using halt_fill [of f e]
  by (auto simp: handle_engine_fill_def risk_halt_def trigger_halt_def Let_def ebind_Inr split: prod.splits if_splits)

lemma handle_fills_flag: "handle_fills fs e = Inr (ok, e') \<Longrightarrow> \<not> e_halt e \<Longrightarrow> ok \<longleftrightarrow> \<not> e_halt e'"
proof (induction fs arbitrary: e)
  case (Cons f fs)
  then obtain k e1 where h: "handle_engine_fill f e = Inr (k, e1)" and r: "(if k then handle_fills fs e1 else Inr (False, e1)) = Inr (ok, e')"
    by (auto simp: ebind_Inr)
  from handle_fill_flag [OF h Cons.prems(2)] Cons.IH [of e1] r show ?case by (cases k) auto
qed simp

lemma adapter_fills_flag: "process_adapter_fills sy e = Inr (ok, e') \<Longrightarrow> \<not> e_halt e \<Longrightarrow> ok \<longleftrightarrow> \<not> e_halt e'"
proof -
  obtain fs e1 where t: "take_fills sy e = (fs, e1)" by fastforce
  assume "process_adapter_fills sy e = Inr (ok, e')" "\<not> e_halt e"
  then show ?thesis using handle_fills_flag [of fs e1 ok e'] halt_silent [OF view_pairs(4) [OF t]] by (simp add: process_adapter_fills_def t)
qed

lemma process_order_flag: "process_order o1 e = Inr (ok, e') \<Longrightarrow> ok \<longleftrightarrow> \<not> e_halt e'"
proof (cases "e_halt e")
  case False
  assume p: "process_order o1 e = Inr (ok, e')"
  obtain act rm where c: "check_order o1 (e_portfolio e) (risk_view (e_analytics e)) (e_risk e) = (act, rm)" by fastforce
  have halted: "ok \<longleftrightarrow> \<not> e_halt e'" if "ebind (risk_halt x) (\<lambda>e2. Inr (False, e2)) = Inr (ok, e')" for x
    using that by (auto simp: ebind_Inr risk_halt_def trigger_halt_def)
  have passed: "ok \<longleftrightarrow> \<not> e_halt e'" if s: "ebind (resolve_adapter (oe_symbol o1) (e\<lparr>e_risk := rm\<rparr>)) (\<lambda>(a, e2).
      ebind (submit_to_adapter o1 (note_order o1 e2)) (process_adapter_fills (oe_symbol o1))) = Inr (ok, e')"
  proof -
    from s obtain a e2 e3 where r: "resolve_adapter (oe_symbol o1) (e\<lparr>e_risk := rm\<rparr>) = Inr (a, e2)"
      "submit_to_adapter o1 (note_order o1 e2) = Inr e3" "process_adapter_fills (oe_symbol o1) e3 = Inr (ok, e')" by (auto simp: ebind_Inr)
    have "e_halt e3 = e_halt e" using halt_silent [OF view_submit [OF r(2)]] halt_silent [OF view_adapter [OF r(1)]] by simp
    with adapter_fills_flag [OF r(3)] False show ?thesis by simp
  qed
  have refused: "ok \<longleftrightarrow> \<not> e_halt e'" if "Inr (True, reject_order o1 t e0) = (Inr (ok, e') :: engine_error + bool \<times> 'a engine)" "\<not> e_halt e0" for t e0
    using that by auto
  show ?thesis using p [unfolded process_order_def c Let_def prod.case] False
    by (simp only: if_False split: if_splits) (erule refused, simp | erule halted | erule passed)+
qed (simp add: process_order_def)

text \<open>The same for \<open>route_order\<close>, whose flag its callers use.\<close>

lemma anchored_flag: "route_anchored o1 sim e = Inr (ok, e') \<Longrightarrow> ok \<longleftrightarrow> \<not> e_halt e'"
  unfolding route_anchored_def Let_def by (auto simp: ebind_Inr dest!: process_order_flag)

lemma route_order_flag: "route_order o0 sim anchor e = Inr (ok, o1, e') \<Longrightarrow> ok \<longleftrightarrow> \<not> e_halt e'"
proof -
  assume r: "route_order o0 sim anchor e = Inr (ok, o1, e')"
  obtain fits o2 e1 where a: "admit_order o0 e = (fits, o2, e1)" by (metis prod_cases3)
  have v: "e_halt e1 = e_halt e" using halt_silent [OF view_admit [of o0 e]] by (simp add: a)
  have "ok \<longleftrightarrow> \<not> e_halt e'" if "place_order o2 sim anchor e1 = Inr (ok, o1, e')" "\<not> e_halt e"
    using that v by (auto simp: place_order_def Let_def ebind_Inr defer_order_def split: if_splits option.splits dest!: anchored_flag process_order_flag)
  then show ?thesis using r v by (auto simp: route_order_def a split: if_splits)
qed

subsection \<open>Every submitted order is answered\<close>

text \<open>The log entries answer an order: it was accepted and is logged as an order, or it was rejected.\<close>

definition answered :: "order_id \<Rightarrow> any_event list \<Rightarrow> bool" where
  "answered i es \<longleftrightarrow> (\<exists>ev \<in> set es. (\<exists>o1. ev = AE_Order o1 \<and> oe_order_id o1 = i) \<or> (\<exists>r. ev = AE_Rejection r \<and> re_order_id r = i))"

lemma answered_more: "answered i es \<Longrightarrow> answered i (es @ fs)" "answered i fs \<Longrightarrow> answered i (es @ fs)"
  by (auto simp: answered_def)

lemma audited_log: "audited e e' \<Longrightarrow> \<exists>es. e_logged e' = e_logged e @ es"
  by (auto simp: audited_def)

lemma answered_then: "e_logged e1 = e_logged e @ [ev] \<Longrightarrow> answered i [ev] \<Longrightarrow> audited e1 e' \<Longrightarrow> \<exists>es. e_logged e' = e_logged e @ es \<and> answered i es"
  using audited_log answered_more(1) [of i "[ev]"] by fastforce

lemma logged_silent: "view e' = view e \<Longrightarrow> e_logged e' = e_logged e"
  by (simp add: view_def)

lemma logged_notes:
  "e_logged (reject_order o1 t e) = e_logged e @ [AE_Rejection (mk_rejection_event (timestamp o1) (oe_symbol o1) (oe_order_id o1) t)]"
  "e_logged (note_order o1 e) = e_logged e @ [AE_Order o1]"
  by (simp_all add: reject_order_def note_order_def track_def eng_log_def feed_analytics_def Let_def)

lemma process_order_answers:
  assumes p: "process_order o1 e = Inr (ok, e')" and h: "\<not> e_halt e"
  shows "\<exists>es. e_logged e' = e_logged e @ es \<and> answered (oe_order_id o1) es"
proof -
  obtain act rm where c: "check_order o1 (e_portfolio e) (risk_view (e_analytics e)) (e_risk e) = (act, rm)" by fastforce
  have rej: "answered (oe_order_id o1) [AE_Rejection (mk_rejection_event (timestamp o1) (oe_symbol o1) (oe_order_id o1) t)]" for t
    by (simp add: answered_def mk_rejection_event_def)
  have refused: ?thesis if "Inr (True, reject_order o1 t e0) = (Inr (ok, e') :: engine_error + bool \<times> 'a engine)" "e_logged e0 = e_logged e" for t e0
    using that rej [of t] by (auto simp: logged_notes)
  have halted: ?thesis if "ebind (risk_halt (reject_order o1 t e0)) (\<lambda>e2. Inr (False, e2)) = Inr (ok, e')" "e_logged e0 = e_logged e" for t e0
  proof -
    from that(1) have "risk_halt (reject_order o1 t e0) = Inr e'" by (auto simp: ebind_Inr)
    from followsD [OF trail.risk_halt this] show ?thesis using answered_then [of "reject_order o1 t e0" e, OF _ rej] by (simp add: logged_notes that(2))
  qed
  have passed: ?thesis if s: "ebind (resolve_adapter (oe_symbol o1) (e\<lparr>e_risk := rm\<rparr>)) (\<lambda>(a, e2).
      ebind (submit_to_adapter o1 (note_order o1 e2)) (process_adapter_fills (oe_symbol o1))) = Inr (ok, e')"
  proof -
    from s obtain a e2 e3 where r: "resolve_adapter (oe_symbol o1) (e\<lparr>e_risk := rm\<rparr>) = Inr (a, e2)"
      "submit_to_adapter o1 (note_order o1 e2) = Inr e3" "process_adapter_fills (oe_symbol o1) e3 = Inr (ok, e')" by (auto simp: ebind_Inr)
    have "e_logged e3 = e_logged e @ [AE_Order o1]"
      using logged_silent [OF view_submit [OF r(2)]] logged_silent [OF view_adapter [OF r(1)]] by (simp add: logged_notes)
    from answered_then [OF this _ followsD [OF trail.process_fills r(3), unfolded snd_conv]] show ?thesis by (simp add: answered_def)
  qed
  show ?thesis using p [unfolded process_order_def c Let_def prod.case] h
    by (simp only: if_False split: if_splits) (erule refused, simp | erule halted, simp | erule passed)+
qed

subsection \<open>Waiting stops\<close>

lemma fire_stop_answers:
  assumes f: "fire_stop opn sim mid st e = Inr (True, e')"
  shows "\<exists>es. e_logged e' = e_logged e @ es \<and> answered (oe_order_id st) es" "\<not> e_halt e'"
proof -
  let ?o = "stop_order sim st"
  obtain e2 e3 where r: "(if \<not> feq (stop_ref opn st) mid then recenter (oe_symbol st) (stop_ref opn st) False sim (e\<lparr>e_mid := stop_ref opn st\<rparr>)
      else Inr (e\<lparr>e_mid := stop_ref opn st\<rparr>)) = Inr e2" and p: "process_order ?o (note_day_order ?o e2) = Inr (True, e3)" and e': "e' = e3\<lparr>e_mid := mid\<rparr>"
    using f by (auto simp: fire_stop_def Let_def ebind_Inr)
  have "follows audited id e (if c then recenter sy px False sim (e\<lparr>e_mid := px\<rparr>) else Inr (e\<lparr>e_mid := px\<rparr>))" for c sy px
    using trail.follows_from [OF trail.recenter, of "e\<lparr>e_mid := px\<rparr>" e] trail.R_view [of "e\<lparr>e_mid := px\<rparr>" e] by simp
  from followsD [OF this r] have "audited e e2" by simp
  then obtain es where es: "e_logged e2 = e_logged e @ es" using audited_log by blast
  have h: "\<not> e_halt (note_day_order ?o e2)" using p by (auto simp: process_order_def split: if_splits)
  have i: "oe_order_id ?o = oe_order_id st" by (simp add: stop_order_def Let_def)
  have l: "e_logged (note_day_order ?o e2) = e_logged e2" by (simp add: note_day_order_def)
  obtain fs where "e_logged e3 = e_logged e2 @ fs" "answered (oe_order_id st) fs"
    using process_order_answers [OF p h] unfolding i l by blast
  then show "\<exists>es. e_logged e' = e_logged e @ es \<and> answered (oe_order_id st) es" using es answered_more(2) by (auto simp: e')
  show "\<not> e_halt e'" using process_order_flag [OF p] by (simp add: e')
qed

lemma fire_stop_halts: "fire_stop opn sim mid st e = Inr (False, e') \<Longrightarrow> e_halt e'"
  by (auto simp: fire_stop_def Let_def ebind_Inr dest!: process_order_flag)

lemma stops_loop_exact:
  assumes "stops_loop opn high low sim mid sts e = Inr (kept, e')" "\<not> e_halt e'"
  shows "kept = filter (\<lambda>st. \<not> stop_hit high low st) sts \<and> (\<exists>ess. e_logged e' = e_logged e @ concat ess \<and>
    list_all2 (\<lambda>st es. answered (oe_order_id st) es) (filter (stop_hit high low) sts) ess)"
  using assms
proof (induction sts arbitrary: e kept)
  case (Cons st sts)
  have h: "\<not> e_halt e" using Cons.prems by auto
  show ?case
  proof (cases "stop_hit high low st")
    case True
    then obtain k e1 where f: "fire_stop opn sim mid st e = Inr (k, e1)"
      and r: "(if k then stops_loop opn high low sim mid sts e1 else Inr (st # sts, e1)) = Inr (kept, e')"
      using Cons.prems(1) h by (auto simp: ebind_Inr)
    have k: "k" using r fire_stop_halts [of opn sim mid st e e1] f Cons.prems(2) by (cases k) auto
    obtain es where es: "e_logged e1 = e_logged e @ es" "answered (oe_order_id st) es" using fire_stop_answers(1) [of opn sim mid st e e1] f k by auto
    from Cons.IH [OF _ Cons.prems(2)] r k obtain ess where "kept = filter (\<lambda>st. \<not> stop_hit high low st) sts" "e_logged e' = e_logged e1 @ concat ess"
      "list_all2 (\<lambda>st es. answered (oe_order_id st) es) (filter (stop_hit high low) sts) ess" by force
    then show ?thesis using True es by (intro conjI exI [of _ "es # ess"]) auto
  next
    case False
    then obtain kept' where r: "stops_loop opn high low sim mid sts e = Inr (kept', e')" "kept = st # kept'"
      using Cons.prems(1) h by (auto simp: ebind_Inr)
    with Cons.IH [OF r(1) Cons.prems(2)] False show ?thesis by simp
  qed
qed auto

lemma stops_loop_keeps:
  "stops_loop opn high low sim mid sts e = Inr (kept, e') \<Longrightarrow> filter (\<lambda>st. \<not> stop_hit high low st) kept = filter (\<lambda>st. \<not> stop_hit high low st) sts"
proof (induction sts arbitrary: e kept)
  case (Cons st sts)
  then show ?case by (cases "e_halt e"; cases "stop_hit high low st") (auto simp: ebind_Inr split: if_splits)
qed simp

text \<open>C10: Waiting stops. A price move takes exactly the stops that it reaches off the list and keeps the others in order; each stop taken is answered,
  as an accepted order or as a rejection, in the order of the list. If the engine halts on the way, the remaining stops stay, and no stop that
  was not reached is ever lost. Which symbol moved plays no part: a stop
  on one symbol is taken on the prices of another.\<close>

theorem reached_stops_are_taken:
  assumes "check_pending_stops opn high low sim e = Inr e'"
  shows "filter (\<lambda>st. \<not> stop_hit high low st) (e_stops e') = filter (\<lambda>st. \<not> stop_hit high low st) (e_stops e) \<and>
    (\<not> e_halt e' \<longrightarrow> e_stops e' = filter (\<lambda>st. \<not> stop_hit high low st) (e_stops e) \<and>
      (\<exists>ess. e_logged e' = e_logged e @ concat ess \<and>
        list_all2 (\<lambda>st es. answered (oe_order_id st) es) (filter (stop_hit high low) (e_stops e)) ess))"
proof -
  from assms obtain kept e1 where r: "stops_loop opn high low sim (e_mid e) (e_stops e) e = Inr (kept, e1)" "e' = e1\<lparr>e_stops := kept\<rparr>"
    by (auto simp: check_pending_stops_def ebind_Inr)
  show ?thesis using stops_loop_keeps [OF r(1)] stops_loop_exact [OF r(1)] by (simp add: r(2))
qed

text \<open>An engine whose risk manager rejects every order.\<close>

definition strict_risk :: risk_manager where
  "strict_risk = mk_risk_manager (limits_demo\<lparr>max_open_orders := 0\<rparr>)"

definition stop_demo :: "order_id \<Rightarrow> int \<Rightarrow> order_event" where
  "stop_demo i k = (mk_order_event 1 ''BTC'' OT_Stop Buy (dint 1) 0 TIF_GTC (dint k))\<lparr>oe_order_id := i\<rparr>"

definition stop_engine :: "unit engine" where
  "stop_engine = demo_engine\<lparr>e_risk := strict_risk, e_mid := dint 30, e_stops := [stop_demo 1 20, stop_demo 2 40]\<rparr>"

lemma strict_rejects: "check_order o1 p (risk_view (mk_analytics c w r pp m)) strict_risk = (Risk_Reject, strict_risk)"
proof -
  have "(0::double) / Fin 100 = 0" "(0::double) * Fin 100 = 0" "\<not> Fin (1 / 2) \<le> 0" by (simp_all add: zero_double_def dops_Fin)
  then show ?thesis
    by (simp add: check_order_def static_gates_def strict_risk_def mk_risk_manager_def limits_demo_def risk_view_def mk_analytics_def int_of_u64_def)
qed

lemma strict_process:
  assumes "e_risk e = strict_risk" "e_analytics e = mk_analytics c w r pp m" "e_check e = None" "\<not> e_halt e"
  shows "process_order o1 e = Inr (True, reject_order o1 ''order rejected by risk manager'' e)"
proof -
  have u: "e\<lparr>e_risk := strict_risk\<rparr> = e" using assms(1) by (metis engine.surjective engine.update_convs(16))
  show ?thesis using assms by (simp add: process_order_def venue_refuses_def strict_rejects Let_def) (simp only: u)
qed

lemma stop_engine_fields: "e_risk stop_engine = strict_risk" "e_check stop_engine = None" "\<not> e_halt stop_engine" "e_mid stop_engine = dint 30"
    "e_stops stop_engine = [stop_demo 1 20, stop_demo 2 40]" "e_analytics stop_engine = mk_analytics (dint 1000) 252 0 252 100" "e_logged stop_engine = []"
  by (simp_all add: stop_engine_def demo_engine_def mk_engine_def demo_config_def)

lemma stop_engine_checks: "\<exists>e'. check_pending_stops (dint 30) (dint 30) (dint 30) 5 stop_engine = Inr e' \<and> \<not> e_halt e'"
proof -
  let ?o = "stop_order 5 (stop_demo 1 20)" and ?e = "stop_engine\<lparr>e_mid := dint 30\<rparr>"
  have h: "stop_hit (dint 30) (dint 30) (stop_demo 1 20)" "\<not> stop_hit (dint 30) (dint 30) (stop_demo 2 40)" "stop_ref (dint 30) (stop_demo 1 20) = dint 30"
    by (simp_all add: stop_hit_def stop_ref_def stop_demo_def mk_order_event_def dint_ops)
  have d: "note_day_order ?o ?e = ?e" by (simp add: note_day_order_def stop_order_def stop_demo_def mk_order_event_def Let_def)
  have "process_order ?o ?e = Inr (True, reject_order ?o ''order rejected by risk manager'' ?e)"
    by (rule strict_process) (simp_all add: stop_engine_fields)
  then have "fire_stop (dint 30) 5 (dint 30) (stop_demo 1 20) stop_engine = Inr (True, (reject_order ?o ''order rejected by risk manager'' ?e)\<lparr>e_mid := dint 30\<rparr>)"
    by (simp add: fire_stop_def Let_def h d feq_def)
  then show ?thesis by (simp add: check_pending_stops_def stop_engine_fields h)
qed

lemma reached_stops_are_taken_witness:
  "\<exists>e'. check_pending_stops (dint 30) (dint 30) (dint 30) 5 stop_engine = Inr e' \<and> e_stops e' = [stop_demo 2 40] \<and> answered 1 (e_logged e')"
proof -
  obtain e' where e: "check_pending_stops (dint 30) (dint 30) (dint 30) 5 stop_engine = Inr e'" "\<not> e_halt e'" using stop_engine_checks by blast
  have h: "stop_hit (dint 30) (dint 30) (stop_demo 1 20)" "\<not> stop_hit (dint 30) (dint 30) (stop_demo 2 40)" "oe_order_id (stop_demo 1 20) = 1"
    by (simp_all add: stop_hit_def stop_demo_def mk_order_event_def dint_ops)
  from reached_stops_are_taken [OF e(1)] e(2) obtain ess where s: "e_stops e' = [stop_demo 2 40]" "e_logged e' = concat ess"
    "list_all2 (\<lambda>st es. answered (oe_order_id st) es) [stop_demo 1 20] ess" by (auto simp: stop_engine_fields h)
  from s(3) obtain es where "ess = [es]" "answered 1 es" by (auto simp: list_all2_Cons1 h)
  then show ?thesis using e(1) s by auto
qed

subsection \<open>Deferred orders\<close>

definition is_due :: "time_point option \<Rightarrow> order_event \<times> u64 \<Rightarrow> bool" where
  "is_due until p = (case until of None \<Rightarrow> True | Some ts \<Rightarrow> oe_earliest_eligible_ts (fst p) \<le> ts)"

definition pending_sorted :: "(order_event \<times> u64) list \<Rightarrow> bool" where
  "pending_sorted = sorted_wrt (\<lambda>p r. \<not> pending_before r p)"

lemma pending_before_trans: "\<not> pending_before b a \<Longrightarrow> \<not> pending_before c b \<Longrightarrow> \<not> pending_before c a"
  by (auto simp: pending_before_def)

lemma pending_before_asym: "pending_before a b \<Longrightarrow> \<not> pending_before b a"
  by (auto simp: pending_before_def)

lemma set_push_pending: "set (push_pending p ps) = insert p (set ps)"
  by (induction p ps rule: push_pending.induct) auto

lemma push_pending_sorted: "pending_sorted ps \<Longrightarrow> pending_sorted (push_pending p ps)"
  unfolding pending_sorted_def
proof (induction p ps rule: push_pending.induct)
  case (2 p r rs)
  show ?case
  proof (cases "pending_before p r")
    case True
    have "\<not> pending_before x p" if "x \<in> set rs" for x
      using 2(2) that pending_before_trans [OF pending_before_asym [OF True]] by simp
    then show ?thesis using True 2(2) pending_before_asym [OF True] by simp
  qed (use 2 in \<open>auto simp: set_push_pending\<close>)
qed simp

lemma drain_loop_exact:
  assumes "drain_loop until ps e = Inr (rest, e')" "\<not> e_halt e'" "pending_sorted ps"
  shows "rest = filter (\<lambda>p. \<not> is_due until p) ps \<and> (\<exists>ess. e_logged e' = e_logged e @ concat ess \<and>
    list_all2 (\<lambda>p es. answered (oe_order_id (fst p)) es) (filter (is_due until) ps) ess)"
  using assms
proof (induction ps arbitrary: e)
  case (Cons p ps)
  have h: "\<not> e_halt e" using Cons.prems by auto
  have s: "pending_sorted ps" "\<forall>x \<in> set ps. \<not> pending_before x p" using Cons.prems(3) by (simp_all add: pending_sorted_def)
  have d: "(case until of None \<Rightarrow> False | Some ts \<Rightarrow> \<not> oe_earliest_eligible_ts (fst p) \<le> ts) \<longleftrightarrow> \<not> is_due until p" by (simp add: is_due_def split: option.split)
  show ?case
  proof (cases "is_due until p")
    case True
    let ?e = "note_day_order (fst p) e"
    from Cons.prems(1) h True obtain k e1 where p: "process_order (fst p) ?e = Inr (k, e1)"
      and r: "(if k then drain_loop until ps e1 else Inr (ps, e1)) = Inr (rest, e')" by (auto simp: d ebind_Inr)
    have k: "k" using r process_order_flag [OF p] Cons.prems(2) by (cases k) auto
    have "e_logged ?e = e_logged e" "\<not> e_halt ?e" using h by (simp_all add: note_day_order_def)
    with process_order_answers [OF p] obtain es where es: "e_logged e1 = e_logged e @ es" "answered (oe_order_id (fst p)) es" by auto
    from Cons.IH [OF _ Cons.prems(2) s(1), of e1] r k obtain ess where "rest = filter (\<lambda>p. \<not> is_due until p) ps" "e_logged e' = e_logged e1 @ concat ess"
      "list_all2 (\<lambda>p es. answered (oe_order_id (fst p)) es) (filter (is_due until) ps) ess" by auto
    then show ?thesis using True es by (intro conjI exI [of _ "es # ess"]) auto
  next
    case False
    then have "\<not> is_due until x" if "x \<in> set ps" for x
      using s(2) that by (auto simp: is_due_def pending_before_def split: option.splits)
    then have "filter (is_due until) (p # ps) = []" "filter (\<lambda>p. \<not> is_due until p) (p # ps) = p # ps" using False by auto
    moreover have "rest = p # ps" "e' = e" using Cons.prems(1) False by (simp_all add: d)
    ultimately show ?thesis by (intro conjI exI [of _ "[]"]) auto
  qed
qed auto

text \<open>C17: Orders held back by latency wait in the order of the time they become eligible, equal times in the order they came. When the engine
  drains them and does not halt, exactly the orders that are due leave the queue, each answered as an accepted order or as a rejection, in that
  order; the others stay. Without a time limit, at the end of a run, none stays.\<close>

theorem due_orders_are_submitted:
  assumes "pending_sorted (e_pending e)"
  shows "pending_sorted (e_pending (defer_order o1 e)) \<and>
    (drain_pending until e = Inr e' \<longrightarrow> \<not> e_halt e' \<longrightarrow>
      pending_sorted (e_pending e') \<and> e_pending e' = filter (\<lambda>p. \<not> is_due until p) (e_pending e) \<and>
      (\<exists>ess. e_logged e' = e_logged e @ concat ess \<and>
        list_all2 (\<lambda>p es. answered (oe_order_id (fst p)) es) (filter (is_due until) (e_pending e)) ess))"
proof (intro conjI impI)
  show "pending_sorted (e_pending (defer_order o1 e))" using push_pending_sorted [OF assms] by (simp add: defer_order_def)
  assume "drain_pending until e = Inr e'" "\<not> e_halt e'"
  then obtain rest e1 where r: "drain_loop until (e_pending e) e = Inr (rest, e1)" "e' = e1\<lparr>e_pending := rest\<rparr>" "\<not> e_halt e1"
    by (auto simp: drain_pending_def ebind_Inr)
  note x = drain_loop_exact [OF r(1,3) assms]
  then show p: "e_pending e' = filter (\<lambda>p. \<not> is_due until p) (e_pending e)" by (simp add: r(2))
  show "pending_sorted (e_pending e')" unfolding p using assms by (simp add: pending_sorted_def sorted_wrt_filter)
  show "\<exists>ess. e_logged e' = e_logged e @ concat ess \<and> list_all2 (\<lambda>p es. answered (oe_order_id (fst p)) es) (filter (is_due until) (e_pending e)) ess"
    using x by (simp add: r(2))
qed

definition pending_engine :: "unit engine" where
  "pending_engine = demo_engine\<lparr>e_risk := strict_risk, e_pending := [((stop_demo 1 20)\<lparr>oe_earliest_eligible_ts := 3\<rparr>, 0), ((stop_demo 2 40)\<lparr>oe_earliest_eligible_ts := 9\<rparr>, 1)]\<rparr>"

lemma due_orders_are_submitted_witness:
  "\<exists>e'. drain_pending (Some 5) pending_engine = Inr e' \<and> e_pending e' = [((stop_demo 2 40)\<lparr>oe_earliest_eligible_ts := 9\<rparr>, 1)] \<and> answered 1 (e_logged e')"
proof -
  let ?o = "(stop_demo 1 20)\<lparr>oe_earliest_eligible_ts := 3\<rparr>" and ?p = "(stop_demo 2 40)\<lparr>oe_earliest_eligible_ts := 9\<rparr>"
  have f: "e_risk pending_engine = strict_risk" "e_check pending_engine = None" "\<not> e_halt pending_engine" "e_pending pending_engine = [(?o, 0), (?p, 1)]"
    "e_analytics pending_engine = mk_analytics (dint 1000) 252 0 252 100" "e_logged pending_engine = []"
    by (simp_all add: pending_engine_def demo_engine_def mk_engine_def demo_config_def)
  have s: "pending_sorted (e_pending pending_engine)" by (simp add: f pending_sorted_def pending_before_def)
  have "process_order ?o pending_engine = Inr (True, reject_order ?o ''order rejected by risk manager'' pending_engine)"
    by (rule strict_process) (simp_all add: f)
  moreover have "note_day_order ?o pending_engine = pending_engine" by (simp add: note_day_order_def stop_demo_def mk_order_event_def)
  ultimately obtain e' where e: "drain_pending (Some 5) pending_engine = Inr e'" "\<not> e_halt e'" by (auto simp: drain_pending_def f)
  from due_orders_are_submitted [OF s, of ?o "Some 5" e'] e obtain ess where x: "e_pending e' = [(?p, 1)]" "e_logged e' = concat ess"
    "list_all2 (\<lambda>p es. answered (oe_order_id (fst p)) es) [(?o, 0 :: u64)] ess" by (auto simp: f is_due_def)
  from x(3) obtain es where "ess = [es]" "answered 1 es" by (auto simp: list_all2_Cons1 stop_demo_def)
  then show ?thesis using e x by auto
qed

subsection \<open>What reaches the market\<close>

lemma reject_frame: "e_adapters (reject_order o1 t e) = e_adapters e" "e_heap (reject_order o1 t e) = e_heap e" "e_cfg (reject_order o1 t e) = e_cfg e"
  by (simp_all add: reject_order_def track_def eng_log_def Let_def)

lemma check_order_not_unwind: "fst (check_order o1 p w r) \<noteq> Risk_Unwind"
proof -
  have "static_gates l o1 p w \<noteq> Some Risk_Unwind" for l by (simp add: static_gates_def Let_def)
  then show ?thesis by (auto simp: check_order_def Let_def split: option.split prod.split bool.split)
qed

text \<open>C5: Nothing reaches the market unchecked. If processing an order changes an execution adapter or an order book at all, the engine was not
  halted, the venue's own check allowed the order, and the risk manager either passed it, in which case it reduces the position or leaves it
  within the position limit, or ordered a halt with the positions to be unwound.\<close>

theorem submitted_order_was_checked:
  assumes "process_order o1 e = Inr (ok, e')" "e_adapters e' \<noteq> e_adapters e \<or> e_heap e' \<noteq> e_heap e"
  defines "act \<equiv> fst (check_order o1 (e_portfolio e) (risk_view (e_analytics e)) (e_risk e))"
    and "pos \<equiv> map_of (positions (e_portfolio e)) (oe_symbol o1)"
  shows "\<not> e_halt e \<and> \<not> venue_refuses o1 e \<and>
    (act = Risk_Halt \<and> cfg_risk_unwind (e_cfg e) \<or>
     act = Risk_Pass \<and> (reduces_position_exposure o1 pos \<or> \<not> projected_position_notional o1 pos > max_position_value (limits (e_risk e))))"
proof -
  obtain a rm where c: "check_order o1 (e_portfolio e) (risk_view (e_analytics e)) (e_risk e) = (a, rm)" by fastforce
  have halt: "cfg_risk_unwind (e_cfg e)" if "ebind (risk_halt (reject_order o1 t (e\<lparr>e_risk := rm\<rparr>))) (\<lambda>e2. Inr (False, e2)) = Inr (ok, e')" for t
  proof (rule ccontr)
    assume "\<not> cfg_risk_unwind (e_cfg e)"
    then show False using that assms(2) by (simp add: risk_halt_def reject_frame trigger_halt_def) (auto simp: reject_frame)
  qed
  have "\<not> e_halt e \<and> \<not> venue_refuses o1 e \<and> (a = Risk_Halt \<and> cfg_risk_unwind (e_cfg e) \<or> a = Risk_Pass)"
  proof (cases a)
    case Risk_Halt
    then show ?thesis using assms(1,2) halt by (auto simp: process_order_def c Let_def reject_frame split: if_splits)
  next
    case Risk_Reject
    then show ?thesis using assms(1,2) by (auto simp: process_order_def c Let_def reject_frame split: if_splits)
  next
    case Risk_Pass
    then show ?thesis using assms(1,2) by (auto simp: process_order_def reject_frame split: if_splits)
  qed (use check_order_not_unwind [of o1 "e_portfolio e" "risk_view (e_analytics e)" "e_risk e"] in \<open>simp add: c\<close>)
  moreover have "act = a" by (simp add: act_def c)
  moreover have "\<not> projected_position_notional o1 pos > max_position_value (limits (e_risk e))" if "act = Risk_Pass" "\<not> reduces_position_exposure o1 pos"
    using static_gates_value [OF check_order_pass_gates] that unfolding act_def pos_def by blast
  ultimately show ?thesis by blast
qed

end
