(* ===== verification/Engine_Session.thy ===== *)
theory Engine_Session
  imports Engine_Trail
begin

text \<open>
  A session with a fill, on which the statements of \<open>Engine_Trail\<close> are exercised. A depth update offers 5 at 100; a strategy answers it with a market order to buy
  2; the order passes the risk manager, takes 2 from the book, and its fill is booked.
\<close>

subsection \<open>The order\<close>

definition pass_order :: order_event where
  "pass_order = mk_order_event 5 ''BTC'' OT_Market Buy (dint 2) (dint 100) TIF_GTC 0"

text \<open>The engine changes ids, names and times of the order on its way; what the risk manager and the adapter look at stays.\<close>

definition like_pass :: "order_event \<Rightarrow> bool" where
  "like_pass o1 \<longleftrightarrow> timestamp o1 = 5 \<and> oe_symbol o1 = ''BTC'' \<and> oe_order_type o1 = OT_Market \<and> oe_side o1 = Buy \<and> oe_quantity o1 = dint 2 \<and>
     oe_price o1 = dint 100 \<and> oe_tif o1 = TIF_IOC"

lemma like_pass_order: "like_pass pass_order"
  by (simp add: like_pass_def pass_order_def mk_order_event_def)

lemma fresh_view: "risk_view (mk_analytics (dint 1000) 252 0 252 100) = snd (snd (rate_demo t))"
proof -
  have "(0::double) * Fin 100 = 0" by (simp add: zero_double_def dops_Fin)
  then show ?thesis by (simp add: risk_view_def mk_analytics_def rate_demo_def)
qed

lemma check_pass:
  assumes "like_pass o1"
  shows "fst (check_order o1 (mk_portfolio (dint 1000)) (risk_view (mk_analytics (dint 1000) 252 0 252 100)) (mk_risk_manager limits_demo)) = Risk_Pass"
proof -
  have "(0::double) / Fin 100 = 0" "\<not> Fin (1 / 2) \<le> 0" by (simp_all add: zero_double_def dops_Fin)
  then have "static_gates limits_demo o1 (mk_portfolio (dint 1000)) (snd (snd (rate_demo 5))) = None"
    using assms by (simp add: like_pass_def static_gates_def rate_demo_def limits_demo_def mk_portfolio_def Let_def int_of_u64_def
      reduces_position_exposure_def projected_position_notional_def projected_total_exposure_def valuation_price_def
      signed_order_quantity_def dint_zero dint_ieee dint_ops)
  then show ?thesis unfolding fresh_view [of 5]
    by (simp add: check_order_def mk_risk_manager_def rate_gate_def limits_demo_def int_of_size_def)
qed

subsection \<open>The book\<close>

definition offered_book :: orderbook where
  "offered_book = fst (apply_l2_update Side_Sell 1000000 5 (empty_book, 1))"

lemma offered_trades:
  "case create_order (mk_order Immediate_Or_Cancel 2 Side_Buy 1000000 2) offered_book of (n, b) \<Rightarrow>
     map_sum (\<lambda>e. e) (\<lambda>(b', ts). ts) (add_order n b) =
     Inr [\<lparr>bid_trade = \<lparr>ti_order_id = 2, ti_price = 1000000, ti_quantity = 2\<rparr>, ask_trade = \<lparr>ti_order_id = 1, ti_price = 1000000, ti_quantity = 2\<rparr>\<rparr>]"
  by code_simp

lemma whole_numbers: "price_from_double (dint 100) = Some 1000000" "u64_of_double (fround (dint 2 * 1)) = Some 2" "dint 100 * 1 = dint 100"
  "double_of_u64 2 / 1 = dint 2"
proof -
  have r: "round_away 2 = 2" "round_away 1000000 = 1000000" using round_away_near [of 2 2] round_away_near [of 1000000 1000000] by simp_all
  show "dint 100 * 1 = dint 100" using dint_ieee [of 100] by (simp add: dmul_one)
  have "dint 2 * 1 = dint 2" using dint_ieee [of 2] by (simp add: dmul_one)
  then show "u64_of_double (fround (dint 2 * 1)) = Some 2" using r by (simp add: u64_of_double_def dint_def)
  have "double_of_i64 SCALE = dint 10000" by (simp add: double_of_i64_def SCALE_def dint_def)
  then have "dint 100 * double_of_i64 SCALE = dint 1000000" by (simp add: dint_ops)
  then show "price_from_double (dint 100) = Some 1000000" using r by (simp add: price_from_double_def llround_def dint_def)
  have "double_of_u64 2 = dint 2" by (simp add: double_of_u64_def dint_def)
  then show "double_of_u64 2 / 1 = dint 2" by (simp add: dint_def one_double_def dops_Fin)
qed

lemma offered_submit:
  assumes "like_pass o1" "oe_order_id o1 = 2"
    and la: "la_book a = offered_book" "la_fill_model a = None" "la_impact a = None" "la_aggression a = 1" "la_qty_scale a = 1" "la_mid a = 0"
      "\<not> la_walked a" "la_resting a = []" "la_fills a = []"
  shows "\<exists>a' f. la_submit_order o1 draw now a = Inr a' \<and> la_fills a' = [f] \<and> fe_filled_quantity f = dint 2"
proof -
  let ?t = "\<lparr>bid_trade = \<lparr>ti_order_id = 2, ti_price = 1000000, ti_quantity = 2\<rparr>, ask_trade = \<lparr>ti_order_id = 1, ti_price = 1000000, ti_quantity = 2\<rparr>\<rparr>"
  obtain n b where c: "create_order (mk_order Immediate_Or_Cancel 2 Side_Buy 1000000 2) offered_book = (n, b)" by fastforce
  obtain b' where r: "add_order n b = Inr (b', [?t])" using offered_trades c by (cases "add_order n b") auto
  have p: "submit_price o1 a = Some 1000000"
    using assms whole_numbers by (simp add: submit_price_def market_reference_def like_pass_def)
  have "la_submit_order o1 draw now a = Inr (submit_trade o1 n now 0 ?t (a\<lparr>la_book := b'\<rparr>))"
    using assms whole_numbers(2) c r p by (simp add: la_submit_order_def like_pass_def unlucky_def book_type_def book_side_def Let_def)
  moreover have "record_resting_fill ts ti (a\<lparr>la_book := b'\<rparr>) = a\<lparr>la_book := b'\<rparr>" for ts ti using la(8) by (simp add: record_resting_fill_def)
  then have "\<exists>f. la_fills (submit_trade o1 n now 0 ?t (a\<lparr>la_book := b'\<rparr>)) = [f] \<and> fe_filled_quantity f = dint 2"
    using assms(2) la(5,9) whole_numbers(4) by (simp add: submit_trade_def our_fill_def Let_def mk_fill_event_def scaled_def)
  ultimately show ?thesis by blast
qed

subsection \<open>The engine\<close>

lemma cfg_frame: "e_cfg (dispatch_fill_to_strategy f e) = e_cfg e" "e_cfg (notify_position_change_all sy b e) = e_cfg e"
  "e_extras e = [] \<Longrightarrow> e_extras (dispatch_fill_to_strategy f e) = []" "e_extras e = [] \<Longrightarrow> e_extras (notify_position_change_all sy b e) = []"
  by (simp_all add: dispatch_fill_to_strategy_def notify_position_change_all_def Let_def)

text \<open>A fill is logged once and nothing else is, whether or not the check after it halts the engine.\<close>

lemma one_fill_logged:
  assumes "\<not> cfg_risk_unwind (e_cfg e)" "e_extras e = []"
  shows "\<exists>ok e' g. handle_fills [f] e = Inr (ok, e') \<and> e_extras e' = [] \<and> e_logged e' = e_logged e @ [AE_Fill g] \<and> fe_filled_quantity g = fe_filled_quantity f"
proof -
  obtain g e1 where b: "book_fill f e = (g, e1)" by fastforce
  obtain act rm where c: "check_post_fill g (risk_view (e_analytics e1)) (e_risk e1) = (act, rm)" by fastforce
  have g: "g = stamp_fill_attribution f e" using b by (simp add: book_fill_def Let_def)
  have l: "e_logged e1 = e_logged e @ [AE_Fill g]" "e_cfg e1 = e_cfg e" "e_extras e1 = []"
    using b assms(2) by (auto simp: book_fill_def Let_def feed_analytics_def dispatch_frame cfg_frame track_def eng_log_def)
  have "fe_filled_quantity g = fe_filled_quantity f" by (simp add: g stamp_fill_attribution_def Let_def)
  then show ?thesis using l assms by (auto simp: handle_engine_fill_def b c risk_halt_def trigger_halt_def Let_def)
qed

definition trading_registry :: book_registry where
  "trading_registry = \<lparr>rg_symbols = \<lparr>st_symbols = [''BTC''], st_index = [(''BTC'', 0)]\<rparr>, rg_books = [Some 0]\<rparr>"

lemma trading_book: "get_or_create ''BTC'' (mk_registry, h) = Inr (bh_next h, \<lparr>rg_symbols = \<lparr>st_symbols = [''BTC''], st_index = [(''BTC'', 0)]\<rparr>, rg_books = [Some (bh_next h)]\<rparr>, snd (new_book h))"
  "get_or_create ''BTC'' (trading_registry, h) = Inr (0, trading_registry, h)"
  by (simp_all add: get_or_create_def mk_registry_def intern_id_def mk_symbol_table_def kMaxSymbols_def new_book_def ensure_slot_def trading_registry_def Let_def)

text \<open>An order of the kind above, processed with the offer in the book.\<close>

lemma offered_processed:
  assumes "like_pass o1" "oe_order_id o1 = 2"
    and e: "\<not> e_halt e" "e_check e = None" "e_portfolio e = mk_portfolio (dint 1000)" "e_analytics e = mk_analytics (dint 1000) 252 0 252 100"
      "e_risk e = mk_risk_manager limits_demo" "e_adapters e = []" "e_registry e = trading_registry" "bh_book (e_heap e) 0 = offered_book" "e_cfg e = demo_config" "e_mid e = 0" "e_extras e = []"
  shows "\<exists>ok e' g. process_order o1 e = Inr (ok, e') \<and> e_extras e' = [] \<and> e_logged e' = e_logged e @ [AE_Order o1, AE_Fill g] \<and> fe_filled_quantity g = dint 2"
proof -
  obtain rm where c: "check_order o1 (e_portfolio e) (risk_view (e_analytics e)) (e_risk e) = (Risk_Pass, rm)"
    using check_pass [OF assms(1)] e by (metis prod.collapse)
  have sy: "oe_symbol o1 = ''BTC''" using assms(1) by (simp add: like_pass_def)
  let ?la = "mk_local_adapter offered_book None None None 1 1 False" 
  define e2 where "e2 = put_adapter ''BTC'' (A_Local 0 ?la, e_heap e) (e\<lparr>e_risk := rm, e_registry := trading_registry\<rparr>)"
  have r: "resolve_adapter ''BTC'' (e\<lparr>e_risk := rm\<rparr>) = Inr (A_Local 0 ?la, e2)"
    using e by (simp add: resolve_adapter_def engine_book_def trading_book demo_config_def e2_def Let_def)
  define e3 where "e3 = note_order o1 e2"
  have f: "e_adapters e3 = [(''BTC'', A_Local 0 ?la)]" "e_heap e3 = e_heap e" "e_mid e3 = 0" "e_cfg e3 = demo_config" "e_logged e3 = e_logged e @ [AE_Order o1]" "e_extras e3 = []"
    using e by (simp_all add: e3_def e2_def note_order_def track_def eng_log_def feed_analytics_def put_adapter_def)
  define la where "la = load_book 0 (e_heap e) (la_set_l2_seeded (''BTC'' \<in> set (e_seeded e3)) (la_set_mid_price 0 ?la))"
  have "la_book la = offered_book" "la_fill_model la = None" "la_impact la = None" "la_aggression la = 1" "la_qty_scale la = 1" "la_mid la = 0"
      "\<not> la_walked la" "la_resting la = []" "la_fills la = []"
    using e by (simp_all add: la_def load_book_def la_set_l2_seeded_def la_set_mid_price_def mk_local_adapter_def)
  from offered_submit [OF assms(1,2) this] obtain la' g where s: "la_submit_order o1 (cfg_draw demo_config (e_reads e3)) (fst (steady_now e3)) la = Inr la'"
    "la_fills la' = [g]" "fe_filled_quantity g = dint 2" by blast
  obtain e4 where u: "submit_to_adapter o1 e3 = Inr e4" "map_of (e_adapters e4) ''BTC'' = Some (A_Local 0 la')" "e_logged e4 = e_logged e3" "e_cfg e4 = demo_config" "e_extras e4 = []"
    using s(1) f sy by (simp add: la_def submit_to_adapter_def resolve_adapter_def adapter_set_mid_def adapter_submit_def store_book_def steady_now_def put_adapter_def update_conv' Let_def)
  obtain e5 where t: "take_fills ''BTC'' e4 = ([g], e5)" "e_logged e5 = e_logged e4" "e_cfg e5 = demo_config" "e_extras e5 = []"
    using u s(2) by (simp add: take_fills_def adapter_poll_def la_poll_fills_def put_adapter_def)
  have "process_order o1 e = handle_fills [g] e5"
    using e c r u(1) t(1) sy by (simp add: process_order_def venue_refuses_def e3_def [symmetric] process_adapter_fills_def)
  moreover have "\<not> cfg_risk_unwind (e_cfg e5)" using t(3) by (simp add: demo_config_def)
  from one_fill_logged [OF this t(4), of g] obtain ok e' h where "handle_fills [g] e5 = Inr (ok, e')" "e_extras e' = []" "e_logged e' = e_logged e5 @ [AE_Fill h]"
    "fe_filled_quantity h = fe_filled_quantity g" by blast
  ultimately show ?thesis using t(2) u(3) f(5) s(3) by auto
qed

definition buyer :: "unit strat" where
  "buyer = \<lparr>sg_ops = \<lparr>so_on_market = \<lambda>m s. (None, s), so_on_tick = \<lambda>t s. (None, s), so_on_l2_update = \<lambda>u s. (Some pass_order, s),
     so_set_position_open = \<lambda>sy b s. s, so_on_fill = \<lambda>f i s. s, so_take_pending_exit_intents = \<lambda>s. ([], s)\<rparr>, sg_state = ()\<rparr>"

definition trading_engine :: "unit engine" where
  "trading_engine = mk_engine demo_config (252, 0, 252, 100) limits_demo demo_calibration None None (Some buyer) 1"

definition trading_session :: "command list" where
  "trading_session = [C_Update ''BTC'' Tick_Ask (dint 100) 5]"

lemma extras_finalized: "e_extras e = [] \<Longrightarrow> e_extras (finalize_strategy_route None name o1 halted e) = []"
  by (auto simp: finalize_strategy_route_def register_strategy_exit_intent_def take_intents_def put_strat_def cfg_frame Let_def split: option.split prod.split)

lemma buyer_turn:
  assumes e: "\<not> e_halt e" "\<not> e_pause e" "e_check e = None" "e_portfolio e = mk_portfolio (dint 1000)" "e_analytics e = mk_analytics (dint 1000) 252 0 252 100"
      "e_risk e = mk_risk_manager limits_demo" "e_adapters e = []" "e_registry e = trading_registry" "bh_book (e_heap e) 0 = offered_book" "e_cfg e = demo_config"
      "e_mid e = 0" "e_extras e = []" "e_strategy e = Some buyer" "e_ids e = 2" "e_specs e = []" "e_latency e = None"
  shows "\<exists>e' o1 g. strategy_turn None True (De_Update u) rn ts e = Inr e' \<and> e_extras e' = [] \<and> e_logged e' = e_logged e @ [AE_Order o1, AE_Fill g] \<and> fe_filled_quantity g = dint 2"
proof -
  let ?o = "pass_order\<lparr>recv_ns := rn, oe_strategy_name := e_primary e, oe_order_id := 2, oe_earliest_eligible_ts := ts\<rparr>"
  define e1 where "e1 = (register_order_meta (pass_order\<lparr>recv_ns := rn, oe_strategy_name := e_primary e, oe_order_id := 2\<rparr>)
    (track 2 Pending (e\<lparr>e_strategy := Some buyer, e_ids := 3\<rparr>)))\<lparr>e_specs := [(''BTC'', None)]\<rparr>"
  have p: "like_pass ?o" "oe_order_id ?o = 2" using like_pass_order by (simp_all add: like_pass_def)
  have "\<exists>ok e' g. process_order ?o e1 = Inr (ok, e') \<and> e_extras e' = [] \<and> e_logged e' = e_logged e1 @ [AE_Order ?o, AE_Fill g] \<and> fe_filled_quantity g = dint 2"
    by (rule offered_processed [OF p]) (simp_all add: e1_def register_order_meta_def track_def e)
  then obtain ok e' g where r: "process_order ?o e1 = Inr (ok, e')" "e_extras e' = []" "e_logged e' = e_logged e1 @ [AE_Order ?o, AE_Fill g]" "fe_filled_quantity g = dint 2"
    by blast
  have l: "e_logged e1 = e_logged e" by (simp add: e1_def register_order_meta_def track_def)
  have "route_order (pass_order\<lparr>recv_ns := rn, oe_strategy_name := e_primary e\<rparr>) ts False (e\<lparr>e_strategy := Some buyer\<rparr>) = Inr (ok, ?o, e')"
    using e r(1) by (simp add: route_order_def admit_order_def next_id_def order_id_next_def resolve_instrument_spec_def register_order_meta_def track_def demo_config_def
      place_order_def note_day_order_def pass_order_def mk_order_event_def e1_def Let_def)
  then have "strategy_turn None True (De_Update u) rn ts e = Inr (finalize_strategy_route None (e_primary e) ?o (\<not> ok) e')"
    using e by (simp add: strategy_turn_def call_strategy_def strat_at_def buyer_def put_strat_def strat_name_def Let_def)
  moreover have "e_logged (finalize_strategy_route None (e_primary e) ?o (\<not> ok) e') = e_logged e'"
    using view_finalize(2) [of None "e_primary e" ?o "\<not> ok" e'] by (simp add: view_def)
  ultimately show ?thesis using r l extras_finalized [OF r(2)] by auto
qed

lemma trading_runs:
  "\<exists>e' u o1 g. exec_all trading_session trading_engine = Inr e' \<and> e_logged e' = [AE_Update u, AE_Order o1, AE_Fill g] \<and> fe_filled_quantity g = dint 2"
proof -
  have b: "apply_l2_update Side_Sell 1000000 5 (empty_book, 1) = (offered_book, 2)"
  proof -
    have "snd (apply_l2_update Side_Sell 1000000 5 (empty_book, 1)) = 2" by code_simp
    then show ?thesis by (simp add: offered_book_def prod_eq_iff)
  qed
  let ?rg = "\<lambda>e. e\<lparr>e_registry := trading_registry, e_heap := set_book 0 offered_book (snd (new_book (e_heap trading_engine))), e_ids := 2\<rparr>"
  have f: "e_heap trading_engine = \<lparr>bh_book = \<lambda>r. empty_book, bh_next = 0\<rparr>" "e_registry trading_engine = mk_registry" "e_ids trading_engine = 1" "e_adapters trading_engine = []"
    "e_reads trading_engine = 0" "e_cfg trading_engine = demo_config" "e_pending trading_engine = []" "\<not> e_halt trading_engine" "\<not> e_pause trading_engine"
    "em_armed (e_exits trading_engine) = []" "e_logged trading_engine = []"
    by (simp_all add: trading_engine_def mk_engine_def demo_config_def mk_exit_manager_def)
  define u where "u = (mk_l2_update_event (int 0) ''BTC'' Tick_Ask (dint 100) 5)\<lparr>recv_ns := int 1\<rparr>"
  define e1 where "e1 = (?rg trading_engine)\<lparr>e_adapters := [], e_reads := Suc (Suc 0), e_logged := [AE_Update u]\<rparr>"
  have l: "exec_all trading_session trading_engine = l2_turn u e1"
    using b f by (cases "l2_turn u e1") (simp_all add: trading_session_def eng_apply_l2_update_def engine_book_def trading_book trading_registry_def [symmetric] whole_numbers
      new_book_def set_book_def forward_l2_def wall_now_def steady_now_def demo_config_def eng_log_def u_def e1_def Let_def)
  have "\<exists>e' o1 g. strategy_turn None True (De_Update u) (recv_ns u) (timestamp u) (e1\<lparr>e_pending := []\<rparr>) = Inr e' \<and> e_extras e' = [] \<and> e_logged e' = e_logged (e1\<lparr>e_pending := []\<rparr>) @ [AE_Order o1, AE_Fill g] \<and> fe_filled_quantity g = dint 2"
    by (rule buyer_turn) (simp_all add: e1_def f set_book_def, simp_all add: trading_engine_def mk_engine_def demo_config_def)
  then obtain e' o1 g where t: "strategy_turn None True (De_Update u) (recv_ns u) (timestamp u) (e1\<lparr>e_pending := []\<rparr>) = Inr e'" "e_extras e' = []" "e_logged e' = [AE_Update u, AE_Order o1, AE_Fill g]"
    "fe_filled_quantity g = dint 2" by (auto simp: e1_def)
  have "l2_turn u e1 = Inr e'"
    using t f by (simp add: l2_turn_def advance_all_def drain_pending_def evaluate_exits_def exit_on_price_def all_extras_def e1_def Let_def)
  then show ?thesis using l t by auto
qed

lemma engine_books_are_logged_fills_witness:
  "\<exists>e' g. exec_all trading_session trading_engine = Inr e' \<and> fills_of (e_logged e') = [g] \<and> fe_filled_quantity g = dint 2 \<and>
    e_portfolio e' = book_fills [g] (mk_portfolio (dint 1000)) \<and> account (e_analytics e') = account (an_on_fill g (e_analytics trading_engine))"
proof -
  obtain e' u o1 g where e: "exec_all trading_session trading_engine = Inr e'" "e_logged e' = [AE_Update u, AE_Order o1, AE_Fill g]" "fe_filled_quantity g = dint 2"
    using trading_runs by blast
  have "e_logged trading_engine = []" "e_portfolio trading_engine = mk_portfolio (dint 1000)" by (simp_all add: trading_engine_def mk_engine_def demo_config_def)
  then show ?thesis using engine_books_are_logged_fills [OF e(1)] e by auto
qed


end
