(* ===== verification/Engine_Gaps.thy ===== *)
theory Engine_Gaps
  imports Engine_Orders Engine_Session
begin

text \<open>
  Places where the engine's components do not fit together as their comments say: pauses and exits, cancels and waiting stops, the maker queue
  and market orders, reuse of an engine and its adapters, replay and fills, unwinding and lots.
\<close>

subsection \<open>Pauses and exits\<close>

lemma paused_route: "e_pause e \<Longrightarrow> \<not> e_halt e \<Longrightarrow> route_order o1 ts anchor e = Inr (True, o1, e)"
  by (simp add: route_order_def)

lemma paused_closes: "e_pause e \<Longrightarrow> \<not> e_halt e \<Longrightarrow> route_closes cs ts rn e = Inr (False, e)"
  by (induction cs) (simp_all add: paused_route)

text \<open>C36: While the engine is paused its exits are lost, not held. A price that triggers brackets leaves none of them armed, while nothing at all
  is submitted for them: the engine is unchanged but for the exit manager, which has given the positions up. When the pause ends, the
  positions are still open and no longer protected.\<close>

theorem paused_exits_are_lost:
  assumes "e_pause e" "\<not> e_halt e" "px > 0"
  shows "\<exists>m. evaluate_exits sy px ts rn e = Inr (False, e\<lparr>e_exits := m\<rparr>) \<and>
    list_all (\<lambda>(i, ai). ei_symbol (ai_intent ai) = sy \<longrightarrow> \<not> triggered px ts ai) (em_armed m)"
proof -
  obtain cs m where x: "exit_on_price sy px ts (e_exits e) = (cs, m)" by fastforce
  have "\<not> triggered px ts ai" if "(i, ai) \<in> set (em_armed m)" "ei_symbol (ai_intent ai) = sy" for i ai
    using exit_on_price_survivor [OF assms(3), of i ai sy ts "e_exits e"] that by (auto simp: x)
  then have "list_all (\<lambda>(i, ai). ei_symbol (ai_intent ai) = sy \<longrightarrow> \<not> triggered px ts ai) (em_armed m)" by (auto simp: list_all_iff)
  moreover have "evaluate_exits sy px ts rn e = Inr (False, e\<lparr>e_exits := m\<rparr>)" using assms by (simp add: evaluate_exits_def x paused_closes)
  ultimately show ?thesis by blast
qed

definition paused_engine :: "unit engine" where
  "paused_engine = demo_engine\<lparr>e_pause := True, e_exits := armed_demo\<rparr>"

lemma paused_exits_are_lost_witness:
  "\<exists>m. evaluate_exits ''BTC'' (dint 80) 1 0 paused_engine = Inr (False, paused_engine\<lparr>e_exits := m\<rparr>)"
proof -
  have "e_pause paused_engine" "\<not> e_halt paused_engine" "dint 80 > 0" by (simp_all add: paused_engine_def demo_engine_def mk_engine_def dint_zero)
  from paused_exits_are_lost [OF this] show ?thesis by blast
qed

subsection \<open>Cancels and waiting stops\<close>

text \<open>C37: Cancelling a waiting stop does not cancel it. With a local book adapter for the symbol the engine asks the adapter first, which answers yes
  to every cancel; so the engine reports success, tracks the stop as cancelled and logs the cancel, but the stop stays on the list of
  waiting stops, from which the next price that reaches it submits it.\<close>

theorem cancelled_stop_still_waits:
  assumes "map_of (e_adapters e) sy = Some (A_Local r la)" "e_latency e = None" "st \<in> set (e_stops e)"
  shows "\<exists>e'. eng_cancel_order sy (oe_order_id st) t e = Inr (True, e') \<and> get_order_status (oe_order_id st) (e_tracker e') = Cancelled \<and>
    st \<in> set (e_stops e')"
  using assms
  by (auto simp: eng_cancel_order_def resolve_adapter_def cancel_latency_def draws_latency_def adapter_cancel_def la_cancel_order_def Let_def
      note_cancel_def wall_now_def track_def eng_log_def feed_analytics_def put_adapter_def store_book_def get_order_status_def set_status_def update_conv')

definition booked_engine :: "unit engine" where
  "booked_engine = stop_engine\<lparr>e_adapters := [(''BTC'', A_Local 0 (mk_local_adapter empty_book None None None 1 1 False))]\<rparr>"

lemma cancelled_stop_still_waits_witness:
  "\<exists>e'. eng_cancel_order ''BTC'' 1 [] booked_engine = Inr (True, e') \<and> get_order_status 1 (e_tracker e') = Cancelled \<and> stop_demo 1 20 \<in> set (e_stops e')"
proof -
  let ?a = "mk_local_adapter empty_book None None None 1 1 False"
  have "map_of (e_adapters booked_engine) ''BTC'' = Some (A_Local 0 ?a)" "e_latency booked_engine = None" "stop_demo 1 20 \<in> set (e_stops booked_engine)"
    by (simp_all add: booked_engine_def stop_engine_def demo_engine_def mk_engine_def)
  moreover have "oe_order_id (stop_demo 1 20) = 1" by (simp add: stop_demo_def)
  ultimately show ?thesis using cancelled_stop_still_waits [of booked_engine "''BTC''" 0 ?a "stop_demo 1 20" "[]"] by simp
qed

subsection \<open>Reuse of an engine\<close>

lemma clear_slots_next: "bh_next (fold clear_slot bs h) = bh_next h"
proof (induction bs arbitrary: h)
  case (Cons b bs)
  then show ?case by (cases b) (simp_all add: clear_slot_def set_book_def)
qed simp

text \<open>C39: An engine reset for the next trial trades on books that nobody else uses. The reset empties the registry of books but keeps the execution
  adapters, so the adapter of a symbol still trades on the old book, while the market maker, depth updates and everything else that asks
  the registry for the symbol's book get a new, different one.\<close>

theorem reset_strands_adapters:
  assumes "map_of (e_adapters e) sy = Some (A_Local r la)" "r < bh_next (e_heap e)"
  shows "map_of (e_adapters (reset_for_next_trial e)) sy = Some (A_Local r la) \<and>
    (\<exists>r' e'. engine_book sy (reset_for_next_trial e) = Inr (r', e') \<and> r' \<noteq> r)"
proof -
  define e1 where "e1 = reset_for_next_trial e"
  have r: "e_registry e1 = mk_registry" "e_adapters e1 = e_adapters e" "bh_next (e_heap e1) = bh_next (e_heap e)"
    by (simp_all add: e1_def reset_for_next_trial_def rg_clear_def mk_registry_def st_clear_def Let_def clear_slots_next)
  have "\<exists>e'. engine_book sy e1 = Inr (bh_next (e_heap e1), e')"
    using r(1) by (simp add: engine_book_def get_or_create_def mk_registry_def intern_id_def mk_symbol_table_def kMaxSymbols_def new_book_def ensure_slot_def Let_def)
  then show ?thesis using r assms by (auto simp: e1_def [symmetric])
qed

lemma reset_strands_adapters_witness:
  "\<exists>r' e'. engine_book ''BTC'' (reset_for_next_trial (booked_engine\<lparr>e_heap := \<lparr>bh_book = \<lambda>r. empty_book, bh_next = 1\<rparr>\<rparr>)) = Inr (r', e') \<and> r' \<noteq> 0"
  using reset_strands_adapters [of "booked_engine\<lparr>e_heap := \<lparr>bh_book = \<lambda>r. empty_book, bh_next = 1\<rparr>\<rparr>" "''BTC''" 0]
  by (simp add: booked_engine_def)

subsection \<open>Replay and fills\<close>

text \<open>\<open>audited\<close> with recorded fills \<open>rs\<close> on top: the portfolio has the engine's own fills, the statistics an interleaving of those with the recorded ones.\<close>

definition retold :: "fill_event list \<Rightarrow> 's engine \<Rightarrow> 's engine \<Rightarrow> bool" where
  "retold rs e e' \<longleftrightarrow> (\<exists>es zs. e_logged e' = e_logged e @ es \<and> e_portfolio e' = book_fills (fills_of es) (e_portfolio e) \<and>
     zs \<in> shuffles (fills_of es) rs \<and> account (e_analytics e') = account (fold an_on_fill zs (e_analytics e)))"

lemma shuffles_append: "zs \<in> shuffles xs ys \<Longrightarrow> zs' \<in> shuffles xs' ys' \<Longrightarrow> zs @ zs' \<in> shuffles (xs @ xs') (ys @ ys')"
proof (induction zs arbitrary: xs ys)
  case (Cons z zs)
  then show ?case by (auto simp: Cons_in_shuffles_iff neq_Nil_conv)
qed simp

lemma audited_retold: "audited e e' \<Longrightarrow> retold [] e e'"
  by (auto simp: audited_def retold_def)

lemma retold_trans:
  assumes "retold rs a b" "retold ss b c"
  shows "retold (rs @ ss) a c"
proof -
  from assms obtain es zs fs ws where
    "e_logged b = e_logged a @ es" "e_portfolio b = book_fills (fills_of es) (e_portfolio a)" "zs \<in> shuffles (fills_of es) rs"
      "account (e_analytics b) = account (fold an_on_fill zs (e_analytics a))"
    "e_logged c = e_logged b @ fs" "e_portfolio c = book_fills (fills_of fs) (e_portfolio b)" "ws \<in> shuffles (fills_of fs) ss"
      "account (e_analytics c) = account (fold an_on_fill ws (e_analytics b))" unfolding retold_def by blast
  then show ?thesis unfolding retold_def
    using account_fills [of "e_analytics b" "fold an_on_fill zs (e_analytics a)" ws] shuffles_append [of zs _ _ ws]
    by (intro exI [of _ "es @ fs"] exI [of _ "zs @ ws"]) (simp add: book_fills_def)
qed

lemma refeed_quiet: "quiet ev \<Longrightarrow> follows audited id e (refeed ev e)"
  using account_quiet [of ev "cfg_ln (e_cfg e)" "e_analytics e"]
  by (auto simp: refeed_def feed_inline_def Let_def split: option.split intro: audited_silent)

lemma replay_quiet: "quiet ev \<Longrightarrow> follows audited id e (replay_event ev e)"
proof -
  assume q: "quiet ev"
  have d: "follows audited id e (ebind (refeed ev e) (\<lambda>e5. ebind (decide x ts e5) (\<lambda>(_, e6). Inr e6)))" for x ts and e :: "'a engine"
    by (rule trail.then_step [OF refeed_quiet [OF q] trail.decided [OF trail.R_refl]])
  have m3: "follows audited id e (ebind (sweep_resting_limits sy low high ts e) (\<lambda>e3. if e_halt e3 then Inr e3
      else ebind (recenter sy (e_mid e3) True ts e3) (\<lambda>e4. ebind (refeed ev e4) (\<lambda>e5. ebind (decide x ts e5) (\<lambda>(_, e6). Inr e6)))))" for x ts sy low high and e :: "'a engine"
    by (rule trail.then_guard [OF trail.sweep]) (rule trail.then_step [OF trail.recenter d])
  have m2: "follows audited id e (ebind (check_pending_stops opn high low ts (e\<lparr>e_mid := cl\<rparr>)) (\<lambda>e2. if e_halt e2 then Inr e2
      else ebind (sweep_resting_limits sy low high ts e2) (\<lambda>e3. if e_halt e3 then Inr e3
      else ebind (recenter sy (e_mid e3) True ts e3) (\<lambda>e4. ebind (refeed ev e4) (\<lambda>e5. ebind (decide x ts e5) (\<lambda>(_, e6). Inr e6))))))"
    for x ts sy opn low high cl and e :: "'a engine"
    by (rule trail.then_guard [OF trail.follows_from [OF trail.check_stops] m3]) simp
  have t2: "follows audited id e (ebind (check_pending_stops px px px ts e) (\<lambda>e2. if e_halt e2 then Inr e2
      else ebind (refeed ev e2) (\<lambda>e3. ebind (decide x ts e3) (\<lambda>(_, e4). Inr e4))))" for x ts px and e :: "'a engine"
    by (rule trail.then_guard [OF trail.check_stops d])
  show ?thesis
  proof (cases ev)
    case (AE_Market m)
    show ?thesis unfolding replay_event_def AE_Market any_event.case Let_def
      by (rule trail.then_guard [OF trail.follows_from [OF trail.at_open] m2 [unfolded AE_Market]]) simp
  next
    case (AE_Tick t)
    show ?thesis unfolding replay_event_def AE_Tick any_event.case Let_def
      by (rule trail.then_guard [OF trail.follows_from [OF trail.drain_pending] t2 [unfolded AE_Tick]]) simp
  qed (use q refeed_quiet [of ev e] in \<open>simp_all add: replay_event_def\<close>)
qed

lemma replay_retold:
  assumes "replay_event ev e = Inr e'" "type_of_event ev \<noteq> Ev_Funding"
  shows "retold (fills_of [ev]) e e'"
proof (cases ev)
  case (AE_Fill f)
  then have "e' = e\<lparr>e_analytics := an_on_fill f (e_analytics e)\<rparr>" using assms(1) by (simp add: replay_event_def refeed_def an_on_event_def Let_def)
  then show ?thesis by (auto simp: AE_Fill retold_def book_fills_def)
next
  case (AE_Funding fe)
  with assms(2) show ?thesis by (simp add: type_of_event_def)
qed (use followsD [OF replay_quiet assms(1)] audited_retold in auto)

lemma replay_events_retold:
  assumes "replay_events evs e = Inr e'" "list_all (\<lambda>ev. type_of_event ev \<noteq> Ev_Funding) evs"
  shows "\<exists>k. (e_halt e' \<or> k = length evs) \<and> retold (fills_of (take k evs)) e e'"
  using assms
proof (induction evs arbitrary: e)
  case Nil
  then show ?case using audited_retold [OF trail.R_refl] by simp
next
  case (Cons ev evs)
  show ?case
  proof (cases "e_halt e")
    case True
    then show ?thesis using Cons.prems(1) audited_retold [OF trail.R_refl] by (intro exI [of _ 0]) simp
  next
    case False
    then obtain e1 where e1: "replay_event ev e = Inr e1" "replay_events evs e1 = Inr e'" using Cons.prems(1) by (auto simp: ebind_Inr)
    from Cons.IH [OF e1(2)] Cons.prems(2) obtain k where k: "e_halt e' \<or> k = length evs" "retold (fills_of (take k evs)) e1 e'" by auto
    have "retold (fills_of [ev] @ fills_of (take k evs)) e e'" using retold_trans [OF replay_retold [OF e1(1)] k(2)] Cons.prems(2) by simp
    moreover have "fills_of (take (Suc k) (ev # evs)) = fills_of [ev] @ fills_of (take k evs)" by (simp flip: fills_of_append)
    ultimately show ?thesis using k(1) by (metis length_Cons)
  qed
qed

lemma drain_halted: "e_halt e \<Longrightarrow> drain_pending until e = Inr e' \<Longrightarrow> e_halt e'"
  by (cases "e_pending e") (auto simp: drain_pending_def)

text \<open>C40: Replaying a recorded log books its fills in the statistics only. Whatever log without funding payments is replayed, into whatever engine with whatever
  strategies: the portfolio gets exactly the fills that the replay itself makes and logs, while the statistics, and so the risk manager, get
  those and the recorded fills of all events up to the end, or up to a halt. So when the replayed strategies trade as they did, the
  statistics count every trade twice, and the accounts of portfolio and statistics drift apart.\<close>

theorem replayed_fills_reach_statistics_only:
  assumes "run_replay evs e = Inr e'" "list_all (\<lambda>ev. type_of_event ev \<noteq> Ev_Funding) evs"
  shows "\<exists>es k zs. (e_halt e' \<or> k = length evs) \<and> e_logged e' = e_logged e @ es \<and> e_portfolio e' = book_fills (fills_of es) (e_portfolio e) \<and>
    zs \<in> shuffles (fills_of es) (fills_of (take k evs)) \<and> account (e_analytics e') = account (fold an_on_fill zs (e_analytics e))"
proof -
  from assms(1) obtain e1 e2 where e: "replay_events evs (clear_pending_state (e\<lparr>e_halt := False\<rparr>)) = Inr e1" "drain_pending None e1 = Inr e2" "e' = cancel_day_orders e2"
    by (auto simp: run_replay_def ebind_Inr)
  from replay_events_retold [OF e(1) assms(2)] obtain k where k: "e_halt e1 \<or> k = length evs"
    "retold (fills_of (take k evs)) (clear_pending_state (e\<lparr>e_halt := False\<rparr>)) e1" by blast
  have v: "view e' = view e2" by (simp add: e(3))
  have "audited e1 e'" using followsD [OF trail.drain_pending e(2)] trail.R_after v by fastforce
  from retold_trans [OF audited_retold [OF audited_restart(1)] retold_trans [OF k(2) audited_retold [OF this]]]
  have "retold (fills_of (take k evs)) e e'" by simp
  moreover have "e_halt e' \<or> k = length evs" using k(1) drain_halted [OF _ e(2)] v by (auto simp: view_def)
  ultimately show ?thesis unfolding retold_def by blast
qed

text \<open>The log of a purchase of 10 at 100 is replayed into an engine without a strategy: the statistics have spent the 1000, the portfolio has not.\<close>

lemma replayed_fills_reach_statistics_only_witness:
  "\<exists>e'. run_replay [AE_Fill opener_demo] demo_engine = Inr e' \<and> cash (e_portfolio e') = dint 1000 \<and> an_cash (e_analytics e') = 0"
proof -
  let ?a = "mk_analytics (dint 1000) 252 0 252 100"
  have d: "e_portfolio demo_engine = mk_portfolio (dint 1000)" "e_analytics demo_engine = ?a" "e_logged demo_engine = []"
    by (simp_all add: demo_engine_def mk_engine_def demo_config_def)
  obtain e' where e: "run_replay [AE_Fill opener_demo] demo_engine = Inr e'" "e_logged e' = []" "\<not> e_halt e'"
    by (simp add: run_replay_def clear_pending_state_def demo_engine_def mk_engine_def replay_event_def refeed_def an_on_event_def drain_pending_def
      cancel_day_orders_def Let_def)
  have f: "list_all (\<lambda>ev. type_of_event ev \<noteq> Ev_Funding) [AE_Fill opener_demo]" by (simp add: type_of_event_def)
  from replayed_fills_reach_statistics_only [OF e(1) f] e(2,3) have "e_portfolio e' = mk_portfolio (dint 1000)"
    "account (e_analytics e') = account (an_on_fill opener_demo ?a)" by (auto simp: d book_fills_def)
  moreover have "\<not> eps12 < \<bar>0\<bar>" "side_sign Buy * dint 10 * dint 100 = dint 1000" "(0::double) * 1 = 0" "dint 1000 + 0 = dint 1000" "dint 1000 - dint 1000 = 0"
    using dint_ieee [of 10] dint_ieee [of 1000] by (simp_all add: side_sign_def dint_def zero_double_def one_double_def dops_Fin)
  then have "an_cash (an_on_fill opener_demo ?a) = 0"
    by (simp add: dint_div_self an_on_fill_account fill_account_def open_part_def opener_demo_def mk_fill_event_def mk_analytics_def an_pos_def Let_def dint_eps dint_ops)
  ultimately show ?thesis using e(1) by (simp add: account_def mk_portfolio_def)
qed

subsection \<open>The maker queue and market orders\<close>

definition queue_idle :: "'s engine \<Rightarrow> bool" where
  "queue_idle e \<longleftrightarrow> cfg_maker_queue (e_cfg e) \<noteq> None \<and> list_all (\<lambda>(sy, a). case a of A_Local r la \<Rightarrow> False | A_Queue qa \<Rightarrow> qa_fills qa = []) (e_adapters e)"

lemma queue_idle_lookup: "queue_idle e \<Longrightarrow> map_of (e_adapters e) sy = Some a \<Longrightarrow> \<exists>qa. a = A_Queue qa \<and> qa_fills qa = []"
  by (cases a) (auto simp: queue_idle_def list_all_iff dest!: map_of_SomeD)

lemma update_entries: "set (AList.update k v m) \<subseteq> insert (k, v) (set m)"
  by (induction m) auto

lemma queue_idle_put: "queue_idle e \<Longrightarrow> qa_fills qa = [] \<Longrightarrow> queue_idle (put_adapter sy (A_Queue qa, h) e)"
  using update_entries [of sy "A_Queue qa" "e_adapters e"] by (fastforce simp: queue_idle_def put_adapter_def list_all_iff)

lemma queue_idle_cong: "e_adapters e' = e_adapters e \<Longrightarrow> e_cfg e' = e_cfg e \<Longrightarrow> queue_idle e' \<longleftrightarrow> queue_idle e"
  by (simp add: queue_idle_def)

lemma note_order_frame: "e_adapters (note_order o1 e) = e_adapters e" "e_cfg (note_order o1 e) = e_cfg e" "e_portfolio (note_order o1 e) = e_portfolio e"
  by (simp_all add: note_order_def track_def eng_log_def feed_analytics_def)

lemma queue_resolve:
  assumes "resolve_adapter sy e = Inr (a, e')" "queue_idle e"
  shows "queue_idle e' \<and> (\<exists>qa. a = A_Queue qa \<and> qa_fills qa = []) \<and> map_of (e_adapters e') sy = Some a"
proof (cases "map_of (e_adapters e) sy")
  case None
  then obtain r e1 where b: "engine_book sy e = Inr (r, e1)" using assms(1) by (auto simp: resolve_adapter_def ebind_Inr)
  then have f: "e_adapters e1 = e_adapters e" "e_cfg e1 = e_cfg e" by (auto simp: engine_book_def split: sum.splits)
  obtain qm where q: "cfg_maker_queue (e_cfg e) = Some qm" using assms(2) by (auto simp: queue_idle_def)
  have a: "a = A_Queue (mk_queue_adapter (Some qm) (cfg_fee (e_cfg e)))" "e' = put_adapter sy (a, e_heap e1) e1"
    using assms(1) None by (auto simp: resolve_adapter_def b f q Let_def)
  have "queue_idle e1" using assms(2) queue_idle_cong [OF f] by simp
  then have "queue_idle e'" unfolding a by (rule queue_idle_put) (simp add: mk_queue_adapter_def)
  then show ?thesis using a by (simp add: mk_queue_adapter_def put_adapter_def update_conv')
qed (use assms queue_idle_lookup in \<open>auto simp: resolve_adapter_def\<close>)

lemma queue_submit:
  assumes "submit_to_adapter o1 e = Inr e'" "queue_idle e" "oe_order_type o1 \<noteq> OT_Limit"
  shows "queue_idle e'"
proof -
  obtain a e1 where r: "resolve_adapter (oe_symbol o1) e = Inr (a, e1)" using assms(1) by (auto simp: submit_to_adapter_def ebind_Inr)
  obtain qa where q: "queue_idle e1" "a = A_Queue qa" "qa_fills qa = []" using queue_resolve [OF r assms(2)] by blast
  have "e' = put_adapter (oe_symbol o1) (A_Queue (qa_set_mid_price (e_mid e1) qa), e_heap e1) (snd (steady_now e1))"
    using assms(1,3) by (simp add: submit_to_adapter_def r q(2) adapter_set_mid_def adapter_submit_def qa_submit_order_def steady_now_def)
  moreover have "queue_idle (snd (steady_now e1))" using q(1) queue_idle_cong [of "snd (steady_now e1)" e1] by (simp add: steady_now_def)
  ultimately show ?thesis using queue_idle_put [of "snd (steady_now e1)" "qa_set_mid_price (e_mid e1) qa"] q(3) by (simp add: qa_set_mid_price_def)
qed

lemma queue_take: "queue_idle e \<Longrightarrow> take_fills sy e = (fs, e') \<Longrightarrow> fs = [] \<and> queue_idle e'"
  using queue_idle_lookup [of e sy]
  by (auto simp: take_fills_def adapter_poll_def qa_poll_fills_def split: option.splits intro: queue_idle_put)

lemma queue_unwind_one: "unwind_one x e = Inr e' \<Longrightarrow> queue_idle e \<Longrightarrow> queue_idle e' \<and> e_portfolio e' = e_portfolio e"
proof -
  assume u: "unwind_one x e = Inr e'" and i: "queue_idle e"
  obtain sy n where x: "x = (sy, n)" by (cases x)
  obtain now e1 where w: "wall_now e = (now, e1)" by fastforce
  obtain k e2 where n: "next_id e1 = (k, e2)" by fastforce
  define o1 where "o1 = (mk_order_event now sy OT_Market (if n > 0 then Sell else Buy) \<bar>n\<bar> (e_mid e2) TIF_GTC 0)\<lparr>oe_order_id := k, oe_strategy_name := ''risk_unwind''\<rparr>"
  from u obtain e3 where s: "submit_to_adapter o1 (note_order o1 e2) = Inr e3"
    and t: "(let (fs, e4) = take_fills sy e3 in Inr (fold (\<lambda>f e. snd (book_fill f e)) fs e4)) = (Inr e' :: engine_error + 'a engine)"
    by (auto simp: unwind_one_def x w n o1_def [symmetric] Let_def ebind_Inr)
  have f: "e_adapters e2 = e_adapters e" "e_cfg e2 = e_cfg e" "e_portfolio e2 = e_portfolio e"
    using w n by (auto simp: wall_now_def next_id_def order_id_next_def split: prod.splits)
  have "queue_idle (note_order o1 e2)" using i queue_idle_cong f by (simp add: queue_idle_def note_order_frame)
  from queue_submit [OF s this] have i3: "queue_idle e3" by (simp add: o1_def mk_order_event_def)
  have p3: "e_portfolio e3 = e_portfolio e" using view_submit [OF s] by (simp add: view_def note_order_frame f)
  obtain fs e4 where k: "take_fills sy e3 = (fs, e4)" by fastforce
  have "e_portfolio e4 = e_portfolio e3" using view_pairs(4) [OF k] by (simp add: view_def)
  then show ?thesis using t queue_take [OF i3 k] p3 by (simp add: k)
qed

lemma queue_unwind: "unwind_positions e = Inr e' \<Longrightarrow> queue_idle e \<Longrightarrow> e_portfolio e' = e_portfolio e"
proof -
  have "unwind_all xs e = Inr e' \<Longrightarrow> queue_idle e \<Longrightarrow> e_portfolio e' = e_portfolio e" for xs
  proof (induction xs arbitrary: e)
    case (Cons x xs)
    from Cons.prems(1) obtain e1 where u: "unwind_one x e = Inr e1" "unwind_all xs e1 = Inr e'" by (auto simp: ebind_Inr)
    from queue_unwind_one [OF u(1) Cons.prems(2)] Cons.IH [OF u(2)] show ?case by simp
  qed simp
  then show "unwind_positions e = Inr e' \<Longrightarrow> queue_idle e \<Longrightarrow> ?thesis" unfolding unwind_positions_def by blast
qed

text \<open>C38: With a maker queue configured, a request to flatten flattens nothing. The engine then uses the queue-aware adapter for every order of a
  symbol, not only for the passive limits it is meant for, and that adapter takes no market order; so unwinding, which sends market
  orders, leaves the portfolio as it was, whatever the positions are.\<close>

theorem maker_queue_unwinds_nothing:
  assumes "unwind_positions e = Inr e'" "queue_idle e"
  shows "e_portfolio e' = e_portfolio e"
  using queue_unwind [OF assms] .

definition queue_engine :: "unit engine" where
  "queue_engine = demo_engine\<lparr>e_cfg := demo_config\<lparr>cfg_maker_queue := Some FrontCancelModel\<rparr>,
     e_adapters := [(''BTC'', A_Queue (mk_queue_adapter (Some FrontCancelModel) None))],
     e_portfolio := (mk_portfolio (dint 1000))\<lparr>positions := [(''BTC'', \<lparr>qty = dint 2, cost_basis = dint 20\<rparr>)]\<rparr>\<rparr>"

lemma queue_submits:
  assumes "map_of (e_adapters e) (oe_symbol o1) = Some (A_Queue qa)" "oe_order_type o1 \<noteq> OT_Limit"
  shows "\<exists>e'. submit_to_adapter o1 e = Inr e'"
  using assms by (simp add: submit_to_adapter_def resolve_adapter_def adapter_set_mid_def adapter_submit_def qa_submit_order_def steady_now_def)

lemma queue_unwinds: "map_of (e_adapters e) sy = Some (A_Queue qa) \<Longrightarrow> \<exists>e'. unwind_one (sy, n) e = Inr e'"
proof -
  assume a: "map_of (e_adapters e) sy = Some (A_Queue qa)"
  obtain now e1 where w: "wall_now e = (now, e1)" by fastforce
  obtain k e2 where i: "next_id e1 = (k, e2)" by fastforce
  define o1 where "o1 = (mk_order_event now sy OT_Market (if n > 0 then Sell else Buy) \<bar>n\<bar> (e_mid e2) TIF_GTC 0)\<lparr>oe_order_id := k, oe_strategy_name := ''risk_unwind''\<rparr>"
  have "e_adapters e2 = e_adapters e" using w i by (auto simp: wall_now_def next_id_def order_id_next_def split: prod.splits)
  then have "\<exists>e3. submit_to_adapter o1 (note_order o1 e2) = Inr e3" using a by (intro queue_submits) (simp_all add: o1_def mk_order_event_def note_order_frame)
  then show ?thesis by (auto simp: unwind_one_def w i o1_def [symmetric] Let_def split: prod.split)
qed

lemma maker_queue_unwinds_nothing_witness:
  "\<exists>e'. unwind_positions queue_engine = Inr e' \<and> e_portfolio e' = e_portfolio queue_engine \<and> qty (position_of ''BTC'' (e_portfolio e')) = dint 2"
proof -
  have q: "queue_idle queue_engine" by (simp add: queue_idle_def queue_engine_def mk_queue_adapter_def)
  have "map_of (e_adapters queue_engine) ''BTC'' = Some (A_Queue (mk_queue_adapter (Some FrontCancelModel) None))" by (simp add: queue_engine_def)
  then have one: "\<exists>e'. unwind_one (''BTC'', n) queue_engine = Inr e'" for n by (rule queue_unwinds)
  have p: "positions (e_portfolio queue_engine) = [(''BTC'', \<lparr>qty = dint 2, cost_basis = dint 20\<rparr>)]" by (simp add: queue_engine_def)
  obtain e1 where "unwind_one (''BTC'', dint 2) queue_engine = Inr e1" using one by blast
  then have "\<exists>e'. unwind_positions queue_engine = Inr e'" by (simp add: unwind_positions_def p)
  then obtain e' where u: "unwind_positions queue_engine = Inr e'" by blast
  show ?thesis using u maker_queue_unwinds_nothing [OF u q] by (simp add: position_of_def p)
qed

subsection \<open>Fills that no order answers for\<close>

text \<open>A fill whose order was not registered, as the orders of an unwind are not, changes no lot.\<close>

lemma unregistered_fill_keeps_lots:
  assumes "fe_opener_order_id f = 0" "map_of (e_meta e) (fe_order_id f) = None"
  shows "lots (e_portfolio (snd (book_fill f e))) = lots (e_portfolio e)"
proof -
  have "fe_opener_order_id (stamp_fill_attribution f e) = 0" using assms by (simp add: stamp_fill_attribution_def lookup_opener_def lookup_strategy_name_def Let_def)
  then show ?thesis
    by (simp add: book_fill_def Let_def dispatch_frame track_def eng_log_def feed_analytics_def portfolio_on_fill_def tt_frame)
qed

subsection \<open>An order that passes\<close>

definition pass_engine :: "unit engine" where
  "pass_engine = demo_engine\<lparr>e_cfg := demo_config\<lparr>cfg_maker_queue := Some FrontCancelModel\<rparr>\<rparr>"

lemma pass_engine_fields: "e_portfolio pass_engine = mk_portfolio (dint 1000)" "e_analytics pass_engine = mk_analytics (dint 1000) 252 0 252 100"
    "e_risk pass_engine = mk_risk_manager limits_demo" "e_check pass_engine = None" "\<not> e_halt pass_engine" "e_adapters pass_engine = []"
    "e_registry pass_engine = mk_registry" "cfg_maker_queue (e_cfg pass_engine) = Some FrontCancelModel"
  by (simp_all add: pass_engine_def demo_engine_def mk_engine_def demo_config_def)

lemma pass_order_submits:
  assumes "e_adapters e = []" "e_registry e = mk_registry" "cfg_maker_queue (e_cfg e) = Some qm"
  shows "\<exists>a e2 e3 e'. resolve_adapter ''BTC'' e = Inr (a, e2) \<and> submit_to_adapter pass_order (note_order pass_order e2) = Inr e3 \<and>
    process_adapter_fills ''BTC'' e3 = Inr (True, e') \<and> e_adapters e' \<noteq> []"
proof -
  have q: "queue_idle e" using assms by (simp add: queue_idle_def)
  obtain a e2 where r: "resolve_adapter ''BTC'' e = Inr (a, e2)" using first_book [OF assms(2), of "''BTC''"] assms(1) by (auto simp: resolve_adapter_def Let_def)
  note i = queue_resolve [OF r q]
  have o1: "oe_symbol pass_order = ''BTC''" "oe_order_type pass_order \<noteq> OT_Limit" by (simp_all add: pass_order_def mk_order_event_def)
  obtain e3 where s: "submit_to_adapter pass_order (note_order pass_order e2) = Inr e3"
    using queue_submits [of "note_order pass_order e2" pass_order] i o1 by (auto simp: note_order_frame)
  have i3: "queue_idle e3" using queue_submit [OF s _ o1(2)] i queue_idle_cong [of "note_order pass_order e2" e2] by (simp add: note_order_frame)
  obtain fs e4 where k: "take_fills ''BTC'' e3 = (fs, e4)" by fastforce
  have "\<exists>a. map_of (e_adapters e3) ''BTC'' = Some a" using s o1 by (auto simp: submit_to_adapter_def ebind_Inr put_adapter_def update_conv' Let_def steady_now_def)
  then have "e_adapters e4 \<noteq> []" using k by (auto simp: take_fills_def put_adapter_def update_nonempty split: prod.splits)
  then have "process_adapter_fills ''BTC'' e3 = Inr (True, e4) \<and> e_adapters e4 \<noteq> []" using queue_take [OF i3 k] by (simp add: process_adapter_fills_def k)
  then show ?thesis using r s by blast
qed

lemma submitted_order_was_checked_witness:
  "\<exists>e'. process_order pass_order pass_engine = Inr (True, e') \<and> \<not> e_halt pass_engine \<and> \<not> venue_refuses pass_order pass_engine"
proof -
  obtain rm where c: "check_order pass_order (mk_portfolio (dint 1000)) (risk_view (mk_analytics (dint 1000) 252 0 252 100)) (mk_risk_manager limits_demo) = (Risk_Pass, rm)"
    using check_pass [OF like_pass_order] by (metis prod.collapse)
  have o1: "oe_symbol pass_order = ''BTC''" by (simp add: pass_order_def mk_order_event_def)
  obtain e' where "process_order pass_order pass_engine = Inr (True, e')" "e_adapters e' \<noteq> []"
    using pass_order_submits [of "pass_engine\<lparr>e_risk := rm\<rparr>" FrontCancelModel]
    by (auto simp: process_order_def pass_engine_fields venue_refuses_def c Let_def o1)
  then show ?thesis using submitted_order_was_checked [of pass_order pass_engine True e'] by (simp add: pass_engine_fields)
qed

end
