(* ===== verification/Spec2Isabelle.thy ===== *)
theory Spec2Isabelle
  imports Orderbook_Spec Price_Level Ring_Buffer Event_Log Engine_Gaps
begin

text \<open>
  A verification development of the \<open>truetest-core\<close> trading engine (C++23, sources under \<open>src/\<close>).

  \<^bold>\<open>The program.\<close> An engine replays or receives market data (bars, ticks, order book depth), asks strategies for orders, checks the orders, executes
  them on a simulated market, books the fills, and protects the resulting positions. An order passes the instrument filter, the venue's
  own risk check and the risk manager; then an execution adapter matches it on a limit order book, whose liquidity comes from a
  synthetic market maker or from recorded depth. Its fills go to the portfolio, the exit manager, the risk manager, the statistics and the strategies;
  the statistics feed the risk manager's next decision. Events are logged to a binary file that can be replayed.

  \<^bold>\<open>Foundations.\<close>
  \<^item> \<open>TT_Prelude\<close>: names of the machine types, \<open>std::min\<close> and \<open>std::max\<close>, shared lemmas and collections.
  \<^item> \<open>Binary64\<close>, \<open>Sqrt64\<close>: the C++ \<open>double\<close> as rationals with one rounding per operation, infinities and NaN; comparisons as in hardware; the locale
    \<open>rounding\<close> holds what is used of round-to-nearest. Square roots are correctly rounded.
  \<^item> \<open>Text\<close>, \<open>Byte_Codec\<close>: the library's string functions the parsers use; little-endian fields, with the locale \<open>codec\<close> as the contract of a
    writer and its reader, interpreted for every primitive.
  \<^item> \<open>Event_Types\<close>: the classes of \<open>core/event.h\<close>.

  \<^bold>\<open>Order book\<close> (\<open>orderbook/orderbook.cpp\<close>, \<open>orderbook.h\<close>, \<open>types/price.h\<close>, \<open>types/order_id.h\<close>).
  \<^item> \<open>Book_Types\<close>, \<open>Orderbook\<close>: orders, levels and every member function; the state is the record \<open>orderbook\<close> with a store of shared order objects.
  \<^item> \<open>Orderbook_Inv\<close>, \<open>Orderbook_Match\<close>, \<open>Orderbook_Props\<close>, \<open>Orderbook_Spec\<close>: the invariant \<open>book_ok\<close> and its preservation; matching as a relation;
    price-time priority, conservation of quantity, crossing prices, fill-or-kill, cancelling and amending; every book reached by the public operations
    together with the id generator is well formed; what a crossed book or a reused id break; a sample book.
  \<^item> \<open>Price_Level\<close>: the intrusive node chains and the node pool, proved to implement the lists that \<open>Orderbook\<close> uses; interface \<open>level_fifo\<close>.
  \<^item> \<open>Registry\<close> (\<open>types/symbol_table.h\<close>, \<open>orderbook/orderbook_registry.h\<close>): books as references into a heap; the registry is a map from symbols to
    distinct books.

  \<^bold>\<open>Execution\<close> (\<open>execution/\<close>, \<open>market_maker/\<close>).
  \<^item> \<open>Exec_Models\<close>: fees, latency, queue models, instrument rules, order status table. \<open>Position_Sizing\<close>: \<open>position_sizing.h\<close>.
  \<^item> \<open>Local_Adapter\<close>, \<open>Queue_Adapter\<close>, \<open>Tape_Adapter\<close>: the three simulated execution adapters: fills respect limits, what the local adapter tracks is
    what rests on the book it shares with others, queue positions are respected.
  \<^item> \<open>Portfolio\<close>: netted positions and lots; a fill that does not flip the position lowers the equity at its price by the commission alone.
  \<^item> \<open>Market_Maker\<close>: the ladder of quotes and its replacement on a book.

  \<^bold>\<open>Risk and exits\<close> (\<open>risk/\<close>, \<open>exits/\<close>).
  \<^item> \<open>Risk_Manager\<close>, \<open>Margin_Table\<close>, \<open>Futures_Risk\<close>: pre-trade and post-fill checks, the parser and lookup of margin tiers, the futures check; limits hold
    of the position an accepted order leaves, and the futures check allows exactly the orders inside the enabled caps.
  \<^item> \<open>Exit_Policy\<close>, \<open>Exit_Manager\<close>: exit plans, the platform's default, and their enforcement on prices and bars.

  \<^bold>\<open>Statistics, log, threads.\<close>
  \<^item> \<open>Analytics\<close>, \<open>Adverse_Selection\<close>, \<open>Bar_Aggregator\<close> (\<open>analytics/\<close>): the event handlers and the risk view; markout statistics; bars from ticks, equal
    to the chunks of a reference definition.
  \<^item> \<open>Event_Log\<close> (\<open>core/event_log.h\<close>): writer, index, rotation and reader; what was logged is replayed.
  \<^item> \<open>Ring_Buffer\<close> (\<open>threading/ring_buffer.h\<close>): whole operations, and the interleaved steps of one producer and one consumer.

  \<^bold>\<open>The engine\<close> (\<open>engine/engine.cpp\<close>, \<open>execution_router.cpp\<close>, \<open>instrument_spec_cache.cpp\<close>).
  \<^item> \<open>Engine\<close>: the record \<open>engine\<close> has one field per member that trading depends on; one definition per member function of the order path
    (\<open>process_order\<close>, \<open>route_order\<close>, \<open>handle_engine_fill\<close> as \<open>book_fill\<close> and \<open>handle_engine_fill\<close>, \<open>unwind_positions\<close>, \<open>cancel_order\<close> as
    \<open>eng_cancel_order\<close>, \<open>check_pending_stops\<close>, and so on). Results are sums: \<open>Inl\<close> an exception or undefined step, \<open>Inr\<close> the new engine.
  \<^item> \<open>Engine_Loops\<close>: the handlers \<open>process_single_bar\<close>, \<open>process_single_tick\<close>, \<open>apply_l2_snapshot\<close>, \<open>apply_l2_update\<close>, the loops \<open>run\<close>, \<open>run_tick_data\<close>,
    \<open>run_replay\<close>, and \<open>reset_for_next_trial\<close>.
  \<^item> \<open>Engine_Audit\<close>: the interfaces \<open>engine_frame\<close>, \<open>engine_notes\<close> and \<open>engine_relation\<close> of relations that the elementary steps respect, carried once
    through every operation.
  \<^item> \<open>Engine_Trail\<close>: sessions as lists of calls; the books are those of the logged fills, the two accounts agree, a halt is terminal.
    \<open>Engine_Session\<close>: a session in which an order is submitted, filled and booked.
  \<^item> \<open>Engine_Orders\<close>: the returned flag tells of a halt; every submitted order is answered; reached stops and due orders leave their queues; nothing
    reaches the market unchecked.
  \<^item> \<open>Engine_Gaps\<close>: where components do not fit together: exits lost in a pause, cancelled stops that still fire, the maker queue and market orders,
    adapters after a reset, replayed fills, lots after an unwind.

  \<^bold>\<open>Conventions and bounds.\<close> Machine integers that wrap are words; counters that only count are natural numbers. Hash maps are association lists whose
  order stands for the unspecified iteration order. Shared objects (orders, books) are references into stores. Time is an integer number of
  nanoseconds. Clocks, random draws, \<open>std::log\<close>, \<open>std::exp\<close>, the zstd library and the venue of a bracket adapter are parameters. No definition
  uses fuel: every loop is a total recursion, structural or with a termination measure (the matching loop: the number of linked orders). Statements of exact accounting are for whole quantities within \<open>2 ^ 53\<close>, where binary64 is exact; statements on
  the ring bound the number of pushes, and those on reachable books the number of ids drawn, by \<open>2 ^ 64\<close>, after which the counters wrap. Signed sums and products
  that the code may overflow (bar volumes, quote depths) are integers without bound; the theories concerned say so.

  \<^bold>\<open>Not modelled.\<close>
  \<^item> Execution through a provider, shadow mode and the threaded presets of the engine: asynchronous exchanges over the network and scheduling by the
    operating system. The model is the engine of a backtest or paper run with inline threading. The rings between threads are modelled, their workers
    (\<open>engine/*_worker.h\<close>, \<open>threading/worker.h\<close>, the watchdog) are not.
  \<^item> \<open>providers/\<close>, \<open>execution/execution_bridge.h\<close> and its transports: exchange protocols over sockets.
  \<^item> \<open>data/\<close>, \<open>data/questdb/\<close>, checkpoints, the audit sink: file and database I/O; the loops take the loaded data as their argument.
  \<^item> \<open>strategy/\<close>, \<open>indicator/\<close>: the engine is modelled for any strategy, as operations over a state of its own; the strategies are clients of that interface.
  \<^item> \<open>simulation/\<close>: random paths from library distributions, run in parallel.
  \<^item> \<open>ui/\<close>, \<open>web/\<close>, \<open>api/\<close>, \<open>bin/\<close>, \<open>debug/\<close>, \<open>utils/\<close>, reports: presentation, command lines and instrumentation.
  \<^item> Object pools (\<open>types/*_pool.h\<close>): storage of events, which have no identity in the model; pools are assumed not to run out.
\<close>

end
